(* ===== verification/Prelude.thy ===== *)
theory Prelude
  imports Main "HOL-Library.Word"
begin

text \<open>
  Shared vocabulary of the development: the machine integer types of the C sources, byte
  addressed memory with the two uses of \<open>memcpy\<close> (into and out of memory), object
  representations of integers on the little-endian targets, and the lemmas on them that every
  component uses.
\<close>

unbundle bit_operations_syntax

named_theorems cdr_defs "definitions unfolded when a primitive of the CDR library is executed"
named_theorems mem_simps "reading after writing in byte memory"

type_synonym u8 = "8 word"
type_synonym u16 = "16 word"
type_synonym u32 = "32 word"
type_synonym u64 = "64 word"

section \<open>Byte memory\<close>

text \<open>
  An address space is a total map from addresses to bytes. A write through a pointer that has
  left its object is therefore visible as a change at an address outside the object, which is
  what the frame lemmas below speak about.
\<close>

type_synonym mem = "nat \<Rightarrow> u8"

primrec mem_write :: "nat \<Rightarrow> u8 list \<Rightarrow> mem \<Rightarrow> mem" where
  "mem_write a [] m = m"
| "mem_write a (b # bs) m = mem_write (Suc a) bs (m(a := b))"

definition mem_read :: "nat \<Rightarrow> nat \<Rightarrow> mem \<Rightarrow> u8 list" where
  "mem_read a n m = map m [a..<a + n]"

lemma mem_write_apply:
  "mem_write a bs m x = (if a \<le> x \<and> x < a + length bs then bs ! (x - a) else m x)"
proof (induction bs arbitrary: a m)
  case Nil
  show ?case by (auto simp: not_less)
next
  case (Cons b bs)
  show ?case
    by (auto simp: Cons.IH nth_Cons' Suc_le_eq)
qed

lemma mem_write_outside [mem_simps]:
  "x < a \<or> a + length bs \<le> x \<Longrightarrow> mem_write a bs m x = m x"
  by (auto simp: mem_write_apply)

lemma mem_write_append: "mem_write a (bs @ cs) m = mem_write (a + length bs) cs (mem_write a bs m)"
  by (induction bs arbitrary: a m) auto

lemma length_mem_read [simp]: "length (mem_read a n m) = n"
  by (simp add: mem_read_def)

lemma mem_read_nth [simp]: "i < n \<Longrightarrow> mem_read a n m ! i = m (a + i)"
  by (simp add: mem_read_def)

lemma mem_read_0 [simp]: "mem_read a 0 m = []"
  by (simp add: mem_read_def)

lemma mem_read_Suc: "mem_read a (Suc n) m = m a # mem_read (Suc a) n m"
  by (rule nth_equalityI) (auto simp: nth_Cons')

lemma mem_read_add: "mem_read a (n + k) m = mem_read a n m @ mem_read (a + n) k m"
  by (rule nth_equalityI) (auto simp: nth_append)

lemma mem_read_eqI: "(\<And>i. i < n \<Longrightarrow> m (a + i) = m' (a + i)) \<Longrightarrow> mem_read a n m = mem_read a n m'"
  by (rule nth_equalityI) auto

lemma mem_read_write_same [mem_simps]:
  "n = length bs \<Longrightarrow> mem_read a n (mem_write a bs m) = bs"
  by (rule nth_equalityI) (auto simp: mem_write_apply)

lemma mem_read_write_disjoint [mem_simps]:
  "a + n \<le> b \<or> b + length bs \<le> a \<Longrightarrow> mem_read a n (mem_write b bs m) = mem_read a n m"
  by (rule mem_read_eqI) (auto simp: mem_write_apply)

lemma mem_write_read_self: "mem_write a (mem_read a n m) m = m"
  by (rule ext) (auto simp: mem_write_apply)

section \<open>Object representation of integers\<close>

text \<open>
  \<open>le_bytes\<close> is the object representation of an unsigned integer on a little-endian machine,
  least significant byte first; the number of bytes is the argument, as \<open>sizeof\<close> is in the code.
  \<open>le_word\<close> reads a representation back.
\<close>

primrec le_bytes :: "nat \<Rightarrow> 'a::len word \<Rightarrow> u8 list" where
  "le_bytes 0 w = []"
| "le_bytes (Suc n) w = ucast w # le_bytes n (drop_bit 8 w)"

primrec le_word :: "u8 list \<Rightarrow> 'a::len word" where
  "le_word [] = 0"
| "le_word (b # bs) = ucast b OR push_bit 8 (le_word bs)"

lemma length_le_bytes [simp]: "length (le_bytes n w) = n"
  by (induction n arbitrary: w) auto

lemma le_word_le_bytes_take_bit: "le_word (le_bytes n w) = take_bit (8 * n) (w :: 'a::len word)"
proof (induction n arbitrary: w)
  case 0
  then show ?case by simp
next
  case (Suc n)
  show ?case
  proof (rule bit_word_eqI)
    fix i
    assume "i < LENGTH('a)"
    then show "bit (le_word (le_bytes (Suc n) w) :: 'a word) i = bit (take_bit (8 * Suc n) w) i"
      by (auto simp: Suc.IH bit_simps not_less le_add_diff_inverse)
  qed
qed

lemma le_word_le_bytes: "LENGTH('a) = 8 * n \<Longrightarrow> le_word (le_bytes n w) = (w :: 'a::len word)"
  by (simp add: le_word_le_bytes_take_bit take_bit_word_eq_self)

lemma unat_of_nat_less:
  "n < 2 ^ LENGTH('a) \<Longrightarrow> unat (of_nat n :: 'a::len word) = n"
  by (simp add: unat_of_nat)

end
