(* ===== verification/Ucdr_Common.thy ===== *)
theory Ucdr_Common
  imports Prelude
begin

text \<open>
  The CDR buffer of \<open>ucdr/microcdr.h\<close> and the routines of \<open>ucdr/common.c\<close>: initialisation,
  reset, alignment, advancing and the handling of a full buffer.

  Pointers are addresses of \<^typ>\<open>mem\<close>; \<open>size_t\<close> values are naturals, with the casts that can
  change a value (\<open>(uint32_t)\<close>, \<open>(uint8_t)\<close>, the pointer difference of
  \<open>ucdr_buffer_remaining\<close> read as \<open>size_t\<close>) written out. The full-buffer callback is code of
  the application: a buffer holds a function pointer and an argument, and the code behind the
  pointers is the parameter \<open>cb\<close> of the definitions that call it.
\<close>

section \<open>Data\<close>

datatype ucdrEndianness = UCDR_BIG_ENDIANNESS | UCDR_LITTLE_ENDIANNESS

definition UCDR_MACHINE_ENDIANNESS :: ucdrEndianness where
  "UCDR_MACHINE_ENDIANNESS = UCDR_LITTLE_ENDIANNESS"

record ucdrBuffer =
  ub_init :: nat
  ub_final :: nat
  ub_iterator :: nat
  ub_origin :: nat
  ub_offset :: nat
  ub_endianness :: ucdrEndianness
  ub_last_data_size :: nat
  ub_error :: bool
  ub_on_full_buffer :: "nat option"
  ub_args :: nat

type_synonym cdr_state = "mem \<times> ucdrBuffer"

type_synonym on_full_env = "nat \<Rightarrow> nat \<Rightarrow> cdr_state \<Rightarrow> bool \<times> cdr_state"

section \<open>Internal utilities\<close>

definition ucdr_check_buffer_available_for :: "ucdrBuffer \<Rightarrow> nat \<Rightarrow> bool" where
  "ucdr_check_buffer_available_for ub bytes \<longleftrightarrow>
     \<not> ub_error ub \<and> ub_iterator ub + bytes \<le> ub_final ub"

definition call_on_full_buffer :: "on_full_env \<Rightarrow> cdr_state \<Rightarrow> cdr_state" where
  "call_on_full_buffer cb s =
     (case s of (m, ub) \<Rightarrow>
        (case ub_on_full_buffer ub of
           Some f \<Rightarrow> (case cb f (ub_args ub) (m, ub) of (r, m', ub') \<Rightarrow> (m', ub'\<lparr>ub_error := r\<rparr>))
         | None \<Rightarrow> (m, ub\<lparr>ub_error := True\<rparr>)))"

definition ucdr_check_final_buffer_behavior ::
    "on_full_env \<Rightarrow> nat \<Rightarrow> cdr_state \<Rightarrow> bool \<times> cdr_state" where
  "ucdr_check_final_buffer_behavior cb data_size s =
     (case s of (m, ub) \<Rightarrow>
        (let s' = (if \<not> ub_error ub \<and> ub_final ub \<le> ub_iterator ub
                   then call_on_full_buffer cb (m, ub) else (m, ub))
         in (\<not> ub_error (snd s'), s')))"

definition ucdr_buffer_remaining :: "ucdrBuffer \<Rightarrow> nat" where
  "ucdr_buffer_remaining ub = nat ((int (ub_final ub) - int (ub_iterator ub)) mod 2 ^ 32)"

definition ucdr_next_remaining_size :: "ucdrBuffer \<Rightarrow> nat \<Rightarrow> nat \<Rightarrow> nat" where
  "ucdr_next_remaining_size ub bytes data_size =
     (let remaining = ucdr_buffer_remaining ub
      in if bytes \<le> remaining then bytes else remaining)"

definition ucdr_check_final_buffer_behavior_array ::
    "on_full_env \<Rightarrow> nat \<Rightarrow> nat \<Rightarrow> cdr_state \<Rightarrow> nat \<times> cdr_state" where
  "ucdr_check_final_buffer_behavior_array cb bytes data_size s =
     (case s of (m, ub) \<Rightarrow>
        (let s' = (if \<not> ub_error ub \<and> ub_final ub \<le> ub_iterator ub \<and> 0 < bytes
                   then call_on_full_buffer cb (m, ub) else (m, ub))
         in (if \<not> ub_error (snd s') then ucdr_next_remaining_size (snd s') bytes data_size else 0,
             s')))"

definition ucdr_set_on_full_buffer_callback ::
    "ucdrBuffer \<Rightarrow> nat option \<Rightarrow> nat \<Rightarrow> ucdrBuffer" where
  "ucdr_set_on_full_buffer_callback ub on_full args =
     ub\<lparr>ub_on_full_buffer := on_full, ub_args := args\<rparr>"

section \<open>Initialisation and reset\<close>

definition ucdr_init_buffer_origin_offset_endian ::
    "nat \<Rightarrow> nat \<Rightarrow> nat \<Rightarrow> nat \<Rightarrow> ucdrEndianness \<Rightarrow> ucdrBuffer" where
  "ucdr_init_buffer_origin_offset_endian data sz origin offset endianness =
     \<lparr>ub_init = data, ub_final = data + sz, ub_iterator = data + offset,
      ub_origin = origin, ub_offset = origin + offset, ub_endianness = endianness,
      ub_last_data_size = 0, ub_error = False, ub_on_full_buffer = None, ub_args = 0\<rparr>"

definition ucdr_init_buffer_origin_offset :: "nat \<Rightarrow> nat \<Rightarrow> nat \<Rightarrow> nat \<Rightarrow> ucdrBuffer" where
  "ucdr_init_buffer_origin_offset data sz origin offset =
     ucdr_init_buffer_origin_offset_endian data sz origin offset UCDR_MACHINE_ENDIANNESS"

definition ucdr_init_buffer_origin :: "nat \<Rightarrow> nat \<Rightarrow> nat \<Rightarrow> ucdrBuffer" where
  "ucdr_init_buffer_origin data sz origin = ucdr_init_buffer_origin_offset data sz origin 0"

definition ucdr_init_buffer :: "nat \<Rightarrow> nat \<Rightarrow> ucdrBuffer" where
  "ucdr_init_buffer data sz = ucdr_init_buffer_origin data sz 0"

definition ucdr_copy_buffer :: "ucdrBuffer \<Rightarrow> ucdrBuffer \<Rightarrow> ucdrBuffer" where
  "ucdr_copy_buffer ub_dest ub_source = ub_source"

definition ucdr_reset_buffer_offset :: "ucdrBuffer \<Rightarrow> nat \<Rightarrow> ucdrBuffer" where
  "ucdr_reset_buffer_offset ub offset =
     ub\<lparr>ub_iterator := ub_init ub + offset, ub_offset := ub_origin ub + offset,
        ub_last_data_size := 0, ub_error := False\<rparr>"

definition ucdr_reset_buffer :: "ucdrBuffer \<Rightarrow> ucdrBuffer" where
  "ucdr_reset_buffer ub = ucdr_reset_buffer_offset ub 0"

section \<open>Alignment\<close>

definition ucdr_alignment :: "nat \<Rightarrow> nat \<Rightarrow> nat" where
  "ucdr_alignment current_alignment data_size =
     (data_size - current_alignment mod data_size) AND (data_size - 1)"

definition ucdr_buffer_alignment :: "ucdrBuffer \<Rightarrow> nat \<Rightarrow> nat" where
  "ucdr_buffer_alignment ub data_size =
     (if ub_last_data_size ub < data_size
      then (data_size - (ub_offset ub mod 2 ^ 32) mod data_size) AND (data_size - 1)
      else 0)"

definition ucdr_align_to :: "ucdrBuffer \<Rightarrow> nat \<Rightarrow> ucdrBuffer" where
  "ucdr_align_to ub sz =
     (let alignment = ucdr_buffer_alignment ub sz;
          ub1 = ub\<lparr>ub_offset := ub_offset ub + alignment, ub_iterator := ub_iterator ub + alignment\<rparr>;
          ub2 = (if ub_final ub1 < ub_iterator ub1 then ub1\<lparr>ub_iterator := ub_final ub1\<rparr> else ub1)
      in ub2\<lparr>ub_last_data_size := sz mod 256\<rparr>)"

section \<open>Advancing\<close>

definition move_iterator :: "nat \<Rightarrow> ucdrBuffer \<Rightarrow> ucdrBuffer" where
  "move_iterator n ub = ub\<lparr>ub_iterator := ub_iterator ub + n, ub_offset := ub_offset ub + n\<rparr>"

lemma check_array_le:
  "fst (ucdr_check_final_buffer_behavior_array cb bytes data_size s) \<le> bytes"
  by (cases s) (simp add: ucdr_check_final_buffer_behavior_array_def ucdr_next_remaining_size_def
      Let_def)

lemma check_array_leD:
  "(n, s') = ucdr_check_final_buffer_behavior_array cb bytes data_size s \<Longrightarrow> n \<le> bytes"
  using check_array_le [of cb bytes data_size s] by (metis fst_conv)

function ucdr_advance_loop :: "on_full_env \<Rightarrow> nat \<Rightarrow> cdr_state \<Rightarrow> cdr_state" where
  "ucdr_advance_loop cb remaining_size s =
     (case ucdr_check_final_buffer_behavior_array cb remaining_size 1 s of
        (serialization_size, m', ub') \<Rightarrow>
          if 0 < serialization_size
          then ucdr_advance_loop cb (remaining_size - serialization_size)
                 (m', move_iterator serialization_size ub')
          else (m', ub'))"
  by pat_completeness auto
termination
  by (relation "measure (\<lambda>(cb, remaining_size, s). remaining_size)")
    (auto dest: check_array_leD)

declare ucdr_advance_loop.simps [simp del]

definition ucdr_advance_buffer :: "on_full_env \<Rightarrow> nat \<Rightarrow> cdr_state \<Rightarrow> cdr_state" where
  "ucdr_advance_buffer cb sz s =
     (case s of (m, ub) \<Rightarrow>
        (case (if ucdr_check_buffer_available_for ub sz then (m, move_iterator sz ub)
               else ucdr_advance_loop cb sz (m, ub)) of
           (m', ub') \<Rightarrow> (m', ub'\<lparr>ub_last_data_size := 1\<rparr>)))"

section \<open>Queries\<close>

definition ucdr_buffer_size :: "ucdrBuffer \<Rightarrow> nat" where
  "ucdr_buffer_size ub = nat ((int (ub_final ub) - int (ub_init ub)) mod 2 ^ 32)"

definition ucdr_buffer_length :: "ucdrBuffer \<Rightarrow> nat" where
  "ucdr_buffer_length ub = nat ((int (ub_iterator ub) - int (ub_init ub)) mod 2 ^ 32)"

definition ucdr_buffer_endianness :: "ucdrBuffer \<Rightarrow> ucdrEndianness" where
  "ucdr_buffer_endianness ub = ub_endianness ub"

definition ucdr_buffer_has_error :: "ucdrBuffer \<Rightarrow> bool" where
  "ucdr_buffer_has_error ub = ub_error ub"


section \<open>Padding and alignment\<close>

text \<open>
  \<open>pad_to n p\<close> is the number of padding bytes the CDR rules put at position \<open>p\<close> before an item
  of size \<open>n\<close>: the distance to the next multiple of \<open>n\<close>.
\<close>

definition pad_to :: "nat \<Rightarrow> nat \<Rightarrow> nat" where
  "pad_to n p = (n - p mod n) mod n"

definition cdr_sizes :: "nat set" where
  "cdr_sizes = {1, 2, 4, 8}"

lemma cdr_sizes_cases [consumes 1, case_names 1 2 4 8]:
  assumes "n \<in> cdr_sizes"
  obtains "n = 1" | "n = 2" | "n = 4" | "n = 8"
  using assms by (auto simp: cdr_sizes_def)

lemma cdr_sizes_pos: "n \<in> cdr_sizes \<Longrightarrow> 0 < n"
  by (auto simp: cdr_sizes_def)

lemma cdr_sizes_power: "n \<in> cdr_sizes \<Longrightarrow> \<exists>k \<le> 3. n = 2 ^ k"
  by (erule cdr_sizes_cases)
    (rule exI [of _ 0], simp, rule exI [of _ 1], simp, rule exI [of _ 2], simp,
     rule exI [of _ 3], simp)

lemma nat_and_exp_minus_1: "(n::nat) AND (2 ^ k - 1) = n mod 2 ^ k"
  by (simp flip: take_bit_eq_mod add: take_bit_eq_mask mask_eq_exp_minus_1)

lemma pad_to_less: "0 < n \<Longrightarrow> pad_to n p < n"
  by (simp add: pad_to_def)

lemma pad_to_aligned: "0 < n \<Longrightarrow> n dvd p + pad_to n p"
proof -
  assume n: "0 < n"
  have "(p + pad_to n p) mod n = (p mod n + (n - p mod n)) mod n"
    by (simp add: pad_to_def mod_simps)
  also have "\<dots> = 0"
    using n by (simp add: mod_less_divisor less_imp_le)
  finally show ?thesis by (simp add: dvd_eq_mod_eq_0)
qed

lemma pad_to_dvd_0: "n dvd p \<Longrightarrow> pad_to n p = 0"
  by (simp add: pad_to_def dvd_eq_mod_eq_0)

lemma pad_to_least: "0 < n \<Longrightarrow> n dvd p + k \<Longrightarrow> pad_to n p \<le> k"
proof (rule ccontr)
  assume n: "0 < n" and k: "n dvd p + k" and "\<not> pad_to n p \<le> k"
  then have lt: "k < pad_to n p" by simp
  have "n dvd (p + pad_to n p) - (p + k)"
    using pad_to_aligned [OF n] k by (rule dvd_diff_nat)
  then have "n dvd pad_to n p - k" by simp
  moreover have "0 < pad_to n p - k" "pad_to n p - k < n"
    using lt pad_to_less [OF n, of p] by auto
  ultimately show False by (meson nat_dvd_not_less)
qed

lemma ucdr_alignment_pow2: "ucdr_alignment p (2 ^ k) = pad_to (2 ^ k) p"
  unfolding ucdr_alignment_def pad_to_def by (rule nat_and_exp_minus_1)

text \<open>
  The alignment invariant of a buffer: the size of the last item is one of the CDR sizes (or none
  yet) and the offset is a multiple of it.
\<close>

definition ub_aligned :: "ucdrBuffer \<Rightarrow> bool" where
  "ub_aligned ub \<longleftrightarrow>
     ub_last_data_size ub = 0 \<or>
     ub_last_data_size ub \<in> cdr_sizes \<and> ub_last_data_size ub dvd ub_offset ub"

lemma cdr_sizes_dvd_exp: "n \<in> cdr_sizes \<Longrightarrow> n dvd 2 ^ 32"
  by (erule cdr_sizes_cases) simp_all

lemma cdr_sizes_le_dvd: "n \<in> cdr_sizes \<Longrightarrow> k \<in> cdr_sizes \<Longrightarrow> n \<le> k \<Longrightarrow> n dvd k"
  by (auto simp: cdr_sizes_def)

lemma buffer_alignment_small:
  assumes "ub_last_data_size ub < n" and n: "n \<in> cdr_sizes"
  shows "ucdr_buffer_alignment ub n = pad_to n (ub_offset ub)"
proof -
  obtain k where k: "n = 2 ^ k" using cdr_sizes_power [OF n] by blast
  have cast: "(ub_offset ub mod 2 ^ 32) mod n = ub_offset ub mod n"
    by (rule mod_mod_cancel [OF cdr_sizes_dvd_exp [OF n]])
  have "ucdr_buffer_alignment ub n = (n - ub_offset ub mod n) AND (n - 1)"
    using assms(1) by (simp only: ucdr_buffer_alignment_def cast if_True)
  also have "\<dots> = pad_to n (ub_offset ub)"
    unfolding k pad_to_def by (rule nat_and_exp_minus_1)
  finally show ?thesis .
qed

lemma buffer_alignment_large: "n \<le> ub_last_data_size ub \<Longrightarrow> ucdr_buffer_alignment ub n = 0"
  by (simp add: ucdr_buffer_alignment_def)

lemma buffer_alignment_pad:
  assumes "ub_aligned ub" and n: "n \<in> cdr_sizes"
  shows "ucdr_buffer_alignment ub n = pad_to n (ub_offset ub)"
proof (cases "ub_last_data_size ub < n")
  case True
  then show ?thesis using n by (rule buffer_alignment_small)
next
  case False
  then have "ub_last_data_size ub \<noteq> 0" using cdr_sizes_pos [OF n] by simp
  with assms(1) have last: "ub_last_data_size ub \<in> cdr_sizes" "ub_last_data_size ub dvd ub_offset ub"
    by (auto simp: ub_aligned_def)
  have "n dvd ub_last_data_size ub"
    using False by (intro cdr_sizes_le_dvd [OF n last(1)]) simp
  then have "n dvd ub_offset ub" using last(2) by (rule dvd_trans)
  with False show ?thesis by (simp add: buffer_alignment_large pad_to_dvd_0)
qed

section \<open>Well-formed buffers and advancing\<close>

definition ub_wf :: "ucdrBuffer \<Rightarrow> bool" where
  "ub_wf ub \<longleftrightarrow> ub_init ub \<le> ub_iterator ub \<and> ub_iterator ub \<le> ub_final ub \<and> ub_final ub < 2 ^ 32"

lemma move_iterator_sel [simp]:
  "ub_iterator (move_iterator n ub) = ub_iterator ub + n"
  "ub_offset (move_iterator n ub) = ub_offset ub + n"
  "ub_init (move_iterator n ub) = ub_init ub"
  "ub_final (move_iterator n ub) = ub_final ub"
  "ub_error (move_iterator n ub) = ub_error ub"
  "ub_last_data_size (move_iterator n ub) = ub_last_data_size ub"
  "ub_on_full_buffer (move_iterator n ub) = ub_on_full_buffer ub"
  "ub_endianness (move_iterator n ub) = ub_endianness ub"
  "ub_origin (move_iterator n ub) = ub_origin ub"
  "ub_args (move_iterator n ub) = ub_args ub"
  by (simp_all add: move_iterator_def)

lemma move_iterator_0 [simp]: "move_iterator 0 ub = ub"
  by (simp add: move_iterator_def)

lemma move_iterator_add: "move_iterator k (move_iterator n ub) = move_iterator (n + k) ub"
  by (simp add: move_iterator_def add.assoc)

lemma buffer_remaining_wf: "ub_wf ub \<Longrightarrow> ucdr_buffer_remaining ub = ub_final ub - ub_iterator ub"
  by (simp add: ub_wf_def ucdr_buffer_remaining_def nat_diff_distrib)

lemma buffer_length_wf: "ub_wf ub \<Longrightarrow> ucdr_buffer_length ub = ub_iterator ub - ub_init ub"
  by (simp add: ub_wf_def ucdr_buffer_length_def nat_diff_distrib)

lemma buffer_size_wf: "ub_wf ub \<Longrightarrow> ucdr_buffer_size ub = ub_final ub - ub_init ub"
  by (simp add: ub_wf_def ucdr_buffer_size_def nat_diff_distrib)

lemma check_final_error [simp]:
  "ub_error ub \<Longrightarrow> ucdr_check_final_buffer_behavior cb n (m, ub) = (False, m, ub)"
  by (simp add: ucdr_check_final_buffer_behavior_def)

lemma check_final_room [simp]:
  "\<not> ub_error ub \<Longrightarrow> ub_iterator ub < ub_final ub \<Longrightarrow>
   ucdr_check_final_buffer_behavior cb n (m, ub) = (True, m, ub)"
  by (simp add: ucdr_check_final_buffer_behavior_def)

lemma check_final_full [simp]:
  "\<not> ub_error ub \<Longrightarrow> ub_final ub \<le> ub_iterator ub \<Longrightarrow> ub_on_full_buffer ub = None \<Longrightarrow>
   ucdr_check_final_buffer_behavior cb n (m, ub) = (False, m, ub\<lparr>ub_error := True\<rparr>)"
  by (simp add: ucdr_check_final_buffer_behavior_def call_on_full_buffer_def)

lemma check_array_error [simp]:
  "ub_error ub \<Longrightarrow> ucdr_check_final_buffer_behavior_array cb n d (m, ub) = (0, m, ub)"
  by (simp add: ucdr_check_final_buffer_behavior_array_def)

lemma check_array_zero [simp]: "ucdr_check_final_buffer_behavior_array cb 0 d s = (0, s)"
  by (cases s) (simp add: ucdr_check_final_buffer_behavior_array_def ucdr_next_remaining_size_def
      Let_def)

lemma check_array_room:
  "\<not> ub_error ub \<Longrightarrow> ub_wf ub \<Longrightarrow> ub_iterator ub < ub_final ub \<Longrightarrow>
   ucdr_check_final_buffer_behavior_array cb n d (m, ub) =
     (min n (ub_final ub - ub_iterator ub), m, ub)"
  by (auto simp: ucdr_check_final_buffer_behavior_array_def ucdr_next_remaining_size_def
      buffer_remaining_wf min_def)

lemma check_array_full:
  "\<not> ub_error ub \<Longrightarrow> ub_final ub \<le> ub_iterator ub \<Longrightarrow> ub_on_full_buffer ub = None \<Longrightarrow> 0 < n \<Longrightarrow>
   ucdr_check_final_buffer_behavior_array cb n d (m, ub) = (0, m, ub\<lparr>ub_error := True\<rparr>)"
  by (simp add: ucdr_check_final_buffer_behavior_array_def call_on_full_buffer_def)

lemma ub_wf_move: "ub_wf ub \<Longrightarrow> ub_iterator ub + n \<le> ub_final ub \<Longrightarrow> ub_wf (move_iterator n ub)"
  by (simp add: ub_wf_def)

lemma advance_loop_full:
  "\<not> ub_error ub \<Longrightarrow> ub_final ub \<le> ub_iterator ub \<Longrightarrow> ub_on_full_buffer ub = None \<Longrightarrow> 0 < n \<Longrightarrow>
   ucdr_advance_loop cb n (m, ub) = (m, ub\<lparr>ub_error := True\<rparr>)"
  by (subst ucdr_advance_loop.simps) (simp add: check_array_full)

lemma advance_loop_short:
  assumes "\<not> ub_error ub" "ub_wf ub" "ub_on_full_buffer ub = None"
    and short: "ub_final ub < ub_iterator ub + n"
  shows "ucdr_advance_loop cb n (m, ub) =
    (m, (move_iterator (ub_final ub - ub_iterator ub) ub)\<lparr>ub_error := True\<rparr>)"
proof (cases "ub_iterator ub < ub_final ub")
  case True
  then show ?thesis
    using assms by (subst ucdr_advance_loop.simps)
      (simp add: check_array_room advance_loop_full min_def)
next
  case False
  then show ?thesis using assms by (simp add: advance_loop_full ub_wf_def)
qed

lemma advance_loop_error: "ub_error ub \<Longrightarrow> ucdr_advance_loop cb n (m, ub) = (m, ub)"
  by (subst ucdr_advance_loop.simps) simp

lemma advance_error:
  "ub_error ub \<Longrightarrow> ucdr_advance_buffer cb n (m, ub) = (m, ub\<lparr>ub_last_data_size := 1\<rparr>)"
  by (simp add: ucdr_advance_buffer_def ucdr_check_buffer_available_for_def advance_loop_error)

lemma advance_room:
  "\<not> ub_error ub \<Longrightarrow> ub_iterator ub + n \<le> ub_final ub \<Longrightarrow>
   ucdr_advance_buffer cb n (m, ub) = (m, (move_iterator n ub)\<lparr>ub_last_data_size := 1\<rparr>)"
  by (simp add: ucdr_advance_buffer_def ucdr_check_buffer_available_for_def)

lemma advance_short:
  "\<not> ub_error ub \<Longrightarrow> ub_wf ub \<Longrightarrow> ub_on_full_buffer ub = None \<Longrightarrow>
   ub_final ub < ub_iterator ub + n \<Longrightarrow>
   ucdr_advance_buffer cb n (m, ub) =
     (m, (move_iterator (ub_final ub - ub_iterator ub) ub)\<lparr>ub_error := True, ub_last_data_size := 1\<rparr>)"
  by (simp add: ucdr_advance_buffer_def ucdr_check_buffer_available_for_def advance_loop_short)

lemmas advance_simps = advance_error advance_room advance_short

end
