(* ===== verification/Ucdr_Basic.thy ===== *)
theory Ucdr_Basic
  imports Ucdr_Common
begin

text \<open>
  Serialisation and deserialisation of the basic types, \<open>ucdr/types/basic.c\<close>. The macros of the
  source are definitions of the same name: \<open>SIZE\<close> is the size argument of the macro, \<open>ENDIAN\<close> the
  endianness expression (evaluated on the buffer where the macro evaluates it), and the value is
  the object representation, least significant byte first, of the C variable \<open>value\<close>. A
  deserialiser returns the bytes it stores through \<open>value\<close>, or \<^term>\<open>None\<close> when it leaves the
  variable untouched.
\<close>

type_synonym endian_expr = "ucdrBuffer \<Rightarrow> ucdrEndianness"

section \<open>Serialise\<close>

definition UCDR_SERIALIZE_BYTE_1 :: "on_full_env \<Rightarrow> u8 \<Rightarrow> cdr_state \<Rightarrow> bool \<times> cdr_state" where
  "UCDR_SERIALIZE_BYTE_1 cb v s =
     (case ucdr_check_final_buffer_behavior cb 1 s of (ok, m, ub) \<Rightarrow>
        let (m', ub') = (if ok then (m(ub_iterator ub := v), (move_iterator 1 ub)\<lparr>ub_last_data_size := 1\<rparr>)
                         else (m, ub))
        in (\<not> ub_error ub', m', ub'))"

definition UCDR_SERIALIZE_BYTE_2_CORE :: "u8 list \<Rightarrow> nat \<Rightarrow> mem \<Rightarrow> mem" where
  "UCDR_SERIALIZE_BYTE_2_CORE v it m = m(it := v ! 1, it + 1 := v ! 0)"

definition UCDR_SERIALIZE_BYTE_4_CORE :: "u8 list \<Rightarrow> nat \<Rightarrow> mem \<Rightarrow> mem" where
  "UCDR_SERIALIZE_BYTE_4_CORE v it m =
     m(it := v ! 3, it + 1 := v ! 2, it + 2 := v ! 1, it + 3 := v ! 0)"

definition UCDR_SERIALIZE_BYTE_8_CORE :: "u8 list \<Rightarrow> nat \<Rightarrow> mem \<Rightarrow> mem" where
  "UCDR_SERIALIZE_BYTE_8_CORE v it m =
     m(it := v ! 7, it + 1 := v ! 6, it + 2 := v ! 5, it + 3 := v ! 4,
       it + 4 := v ! 3, it + 5 := v ! 2, it + 6 := v ! 1, it + 7 := v ! 0)"

definition serialize_whole :: "nat \<Rightarrow> ucdrEndianness \<Rightarrow> u8 list \<Rightarrow> nat \<Rightarrow> mem \<Rightarrow> mem" where
  "serialize_whole SIZE e v it m =
     (if UCDR_MACHINE_ENDIANNESS = e then mem_write it v m
      else if SIZE = 2 then UCDR_SERIALIZE_BYTE_2_CORE v it m
      else if SIZE = 4 then UCDR_SERIALIZE_BYTE_4_CORE v it m
      else UCDR_SERIALIZE_BYTE_8_CORE v it m)"

definition serialize_split ::
    "nat \<Rightarrow> ucdrEndianness \<Rightarrow> u8 list \<Rightarrow> nat \<Rightarrow> nat \<Rightarrow> nat \<Rightarrow> mem \<Rightarrow> mem" where
  "serialize_split SIZE e v first_slot first_slot_size it m =
     (if UCDR_MACHINE_ENDIANNESS = e
      then mem_write it (drop first_slot_size v) (mem_write first_slot (take first_slot_size v) m)
      else fst (fold (\<lambda>i (m, target). (m(target := v ! (SIZE - 1 - i)),
                         if first_slot_size \<le> i then it else target + 1))
                     [0..<SIZE] (m, first_slot)))"

definition UCDR_SERIALIZE_BYTE_N ::
    "on_full_env \<Rightarrow> nat \<Rightarrow> endian_expr \<Rightarrow> u8 list \<Rightarrow> cdr_state \<Rightarrow> bool \<times> cdr_state" where
  "UCDR_SERIALIZE_BYTE_N cb SIZE ENDIAN v s =
     (case s of (m, ub) \<Rightarrow>
      let alignment = ucdr_buffer_alignment ub SIZE;
          last_data_size = ub_last_data_size ub;
          (m1, ub1) = ucdr_advance_buffer cb alignment (m, ub);
          (m', ub') =
            (if ucdr_check_buffer_available_for ub1 SIZE
             then (serialize_whole SIZE (ENDIAN ub1) v (ub_iterator ub1) m1,
                   (move_iterator SIZE ub1)\<lparr>ub_last_data_size := SIZE\<rparr>)
             else if ub_iterator ub1 < ub_final ub1
             then (let first_slot = ub_iterator ub1;
                       first_slot_size = ub_final ub1 - ub_iterator ub1;
                       (ok, m2, ub2) = ucdr_check_final_buffer_behavior cb (SIZE - first_slot_size)
                                         (m1, move_iterator first_slot_size ub1)
                   in if ok
                      then (serialize_split SIZE (ENDIAN ub2) v first_slot first_slot_size
                              (ub_iterator ub2) m2,
                            (move_iterator (SIZE - first_slot_size) ub2)\<lparr>ub_last_data_size := SIZE\<rparr>)
                      else (m2, ub2\<lparr>ub_iterator := ub_iterator ub2 - first_slot_size,
                                    ub_offset := ub_offset ub2 - first_slot_size,
                                    ub_last_data_size := last_data_size\<rparr>))
             else (let (ok, m2, ub2) = ucdr_check_final_buffer_behavior cb SIZE (m1, ub1)
                   in if ok
                      then (serialize_whole SIZE (ENDIAN ub2) v (ub_iterator ub2) m2,
                            (move_iterator SIZE ub2)\<lparr>ub_last_data_size := SIZE\<rparr>)
                      else (m2, ub2)))
      in (\<not> ub_error ub', m', ub'))"

section \<open>Deserialise\<close>

definition UCDR_DESERIALIZE_BYTE_1 ::
    "on_full_env \<Rightarrow> (u8 \<Rightarrow> u8) \<Rightarrow> cdr_state \<Rightarrow> bool \<times> u8 list option \<times> cdr_state" where
  "UCDR_DESERIALIZE_BYTE_1 cb cast s =
     (case ucdr_check_final_buffer_behavior cb 1 s of (ok, m, ub) \<Rightarrow>
        let (v, ub') = (if ok then (Some [cast (m (ub_iterator ub))],
                                    (move_iterator 1 ub)\<lparr>ub_last_data_size := 1\<rparr>)
                        else (None, ub))
        in (\<not> ub_error ub', v, m, ub'))"

definition UCDR_DESERIALIZE_BYTE_2_CORE :: "nat \<Rightarrow> mem \<Rightarrow> u8 list" where
  "UCDR_DESERIALIZE_BYTE_2_CORE it m = [m (it + 1), m it]"

definition UCDR_DESERIALIZE_BYTE_4_CORE :: "nat \<Rightarrow> mem \<Rightarrow> u8 list" where
  "UCDR_DESERIALIZE_BYTE_4_CORE it m = [m (it + 3), m (it + 2), m (it + 1), m it]"

definition UCDR_DESERIALIZE_BYTE_8_CORE :: "nat \<Rightarrow> mem \<Rightarrow> u8 list" where
  "UCDR_DESERIALIZE_BYTE_8_CORE it m =
     [m (it + 7), m (it + 6), m (it + 5), m (it + 4), m (it + 3), m (it + 2), m (it + 1), m it]"

definition deserialize_whole :: "nat \<Rightarrow> ucdrEndianness \<Rightarrow> nat \<Rightarrow> mem \<Rightarrow> u8 list" where
  "deserialize_whole SIZE e it m =
     (if UCDR_MACHINE_ENDIANNESS = e then mem_read it SIZE m
      else if SIZE = 2 then UCDR_DESERIALIZE_BYTE_2_CORE it m
      else if SIZE = 4 then UCDR_DESERIALIZE_BYTE_4_CORE it m
      else UCDR_DESERIALIZE_BYTE_8_CORE it m)"

definition deserialize_split ::
    "nat \<Rightarrow> ucdrEndianness \<Rightarrow> nat \<Rightarrow> nat \<Rightarrow> nat \<Rightarrow> mem \<Rightarrow> u8 list" where
  "deserialize_split SIZE e first_slot first_slot_size it m =
     (if UCDR_MACHINE_ENDIANNESS = e
      then mem_read first_slot first_slot_size m @ mem_read it (SIZE - first_slot_size) m
      else fst (fold (\<lambda>i (v, target). (v @ [m (target + (SIZE - 1 - i))],
                         if first_slot_size \<le> i then it else target))
                     [0..<SIZE] ([], first_slot)))"

definition UCDR_DESERIALIZE_BYTE_N ::
    "on_full_env \<Rightarrow> nat \<Rightarrow> endian_expr \<Rightarrow> cdr_state \<Rightarrow> bool \<times> u8 list option \<times> cdr_state" where
  "UCDR_DESERIALIZE_BYTE_N cb SIZE ENDIAN s =
     (case s of (m, ub) \<Rightarrow>
      let alignment = ucdr_buffer_alignment ub SIZE;
          last_data_size = ub_last_data_size ub;
          (m1, ub1) = ucdr_advance_buffer cb alignment (m, ub);
          (v, m', ub') =
            (if ucdr_check_buffer_available_for ub1 SIZE
             then (Some (deserialize_whole SIZE (ENDIAN ub1) (ub_iterator ub1) m1), m1,
                   (move_iterator SIZE ub1)\<lparr>ub_last_data_size := SIZE\<rparr>)
             else if ub_iterator ub1 < ub_final ub1
             then (let first_slot = ub_iterator ub1;
                       first_slot_size = ub_final ub1 - ub_iterator ub1;
                       (ok, m2, ub2) = ucdr_check_final_buffer_behavior cb (SIZE - first_slot_size)
                                         (m1, move_iterator first_slot_size ub1)
                   in if ok
                      then (Some (deserialize_split SIZE (ENDIAN ub2) first_slot first_slot_size
                                    (ub_iterator ub2) m2), m2,
                            (move_iterator (SIZE - first_slot_size) ub2)\<lparr>ub_last_data_size := SIZE\<rparr>)
                      else (None, m2, ub2\<lparr>ub_iterator := ub_iterator ub2 - first_slot_size,
                                          ub_offset := ub_offset ub2 - first_slot_size,
                                          ub_last_data_size := last_data_size\<rparr>))
             else (let (ok, m2, ub2) = ucdr_check_final_buffer_behavior cb SIZE (m1, ub1)
                   in if ok
                      then (Some (deserialize_whole SIZE (ENDIAN ub2) (ub_iterator ub2) m2), m2,
                            (move_iterator SIZE ub2)\<lparr>ub_last_data_size := SIZE\<rparr>)
                      else (None, m2, ub2)))
      in (\<not> ub_error ub', v, m', ub'))"

section \<open>The table of basic types\<close>

datatype ucdr_type =
    T_char | T_bool | T_uint8_t | T_uint16_t | T_uint32_t | T_uint64_t
  | T_int8_t | T_int16_t | T_int32_t | T_int64_t | T_float | T_double

fun type_size :: "ucdr_type \<Rightarrow> nat" where
  "type_size T_char = 1"
| "type_size T_bool = 1"
| "type_size T_uint8_t = 1"
| "type_size T_uint16_t = 2"
| "type_size T_uint32_t = 4"
| "type_size T_uint64_t = 8"
| "type_size T_int8_t = 1"
| "type_size T_int16_t = 2"
| "type_size T_int32_t = 4"
| "type_size T_int64_t = 8"
| "type_size T_float = 4"
| "type_size T_double = 8"

text \<open>The cast \<open>(TYPE)*ub->iterator\<close> of the one-byte types: only \<open>bool\<close> changes the value.\<close>

definition byte_cast :: "ucdr_type \<Rightarrow> u8 \<Rightarrow> u8" where
  "byte_cast ty b = (if ty = T_bool then (if b \<noteq> 0 then 1 else 0) else b)"

definition UCDR_SERIALIZE_BYTE ::
    "on_full_env \<Rightarrow> ucdr_type \<Rightarrow> endian_expr \<Rightarrow> u8 list \<Rightarrow> cdr_state \<Rightarrow> bool \<times> cdr_state" where
  "UCDR_SERIALIZE_BYTE cb ty ENDIAN v s =
     (if type_size ty = 1 then UCDR_SERIALIZE_BYTE_1 cb (v ! 0) s
      else UCDR_SERIALIZE_BYTE_N cb (type_size ty) ENDIAN v s)"

definition UCDR_DESERIALIZE_BYTE ::
    "on_full_env \<Rightarrow> ucdr_type \<Rightarrow> endian_expr \<Rightarrow> cdr_state \<Rightarrow> bool \<times> u8 list option \<times> cdr_state" where
  "UCDR_DESERIALIZE_BYTE cb ty ENDIAN s =
     (if type_size ty = 1 then UCDR_DESERIALIZE_BYTE_1 cb (byte_cast ty) s
      else UCDR_DESERIALIZE_BYTE_N cb (type_size ty) ENDIAN s)"

definition ucdr_serialize ::
    "on_full_env \<Rightarrow> ucdr_type \<Rightarrow> u8 list \<Rightarrow> cdr_state \<Rightarrow> bool \<times> cdr_state" where
  "ucdr_serialize cb ty v s = UCDR_SERIALIZE_BYTE cb ty ub_endianness v s"

definition ucdr_serialize_endian ::
    "on_full_env \<Rightarrow> ucdr_type \<Rightarrow> ucdrEndianness \<Rightarrow> u8 list \<Rightarrow> cdr_state \<Rightarrow> bool \<times> cdr_state" where
  "ucdr_serialize_endian cb ty endianness v s = UCDR_SERIALIZE_BYTE cb ty (\<lambda>_. endianness) v s"

definition ucdr_deserialize ::
    "on_full_env \<Rightarrow> ucdr_type \<Rightarrow> cdr_state \<Rightarrow> bool \<times> u8 list option \<times> cdr_state" where
  "ucdr_deserialize cb ty s = UCDR_DESERIALIZE_BYTE cb ty ub_endianness s"

definition ucdr_deserialize_endian ::
    "on_full_env \<Rightarrow> ucdr_type \<Rightarrow> ucdrEndianness \<Rightarrow> cdr_state \<Rightarrow> bool \<times> u8 list option \<times> cdr_state" where
  "ucdr_deserialize_endian cb ty endianness s = UCDR_DESERIALIZE_BYTE cb ty (\<lambda>_. endianness) s"

section \<open>Whole values: the byte order\<close>

text \<open>
  \<open>cdr_bytes e v\<close> is the wire form of the object representation \<open>v\<close> in endianness \<open>e\<close>; it is
  its own inverse, so it also reads the wire form back.
\<close>

definition cdr_bytes :: "ucdrEndianness \<Rightarrow> u8 list \<Rightarrow> u8 list" where
  "cdr_bytes e v = (if UCDR_MACHINE_ENDIANNESS = e then v else rev v)"

lemma length_cdr_bytes [simp]: "length (cdr_bytes e v) = length v"
  by (simp add: cdr_bytes_def)

lemma cdr_bytes_inverse [simp]: "cdr_bytes e (cdr_bytes e v) = v"
  by (simp add: cdr_bytes_def)

lemma cdr_bytes_single: "length v = Suc 0 \<Longrightarrow> cdr_bytes e v = v"
  by (auto simp: cdr_bytes_def length_Suc_conv)

lemma serialize_whole_cdr_bytes:
  assumes "n \<in> {2, 4, 8}" and "length v = n"
  shows "serialize_whole n e v it m = mem_write it (cdr_bytes e v) m"
  using assms
  by (auto simp: serialize_whole_def cdr_bytes_def UCDR_SERIALIZE_BYTE_2_CORE_def
      UCDR_SERIALIZE_BYTE_4_CORE_def UCDR_SERIALIZE_BYTE_8_CORE_def numeral_eq_Suc length_Suc_conv)

lemma deserialize_whole_cdr_bytes:
  assumes "n \<in> {2, 4, 8}"
  shows "deserialize_whole n e it m = cdr_bytes e (mem_read it n m)"
  using assms
  by (auto simp: deserialize_whole_def cdr_bytes_def UCDR_DESERIALIZE_BYTE_2_CORE_def
      UCDR_DESERIALIZE_BYTE_4_CORE_def UCDR_DESERIALIZE_BYTE_8_CORE_def numeral_eq_Suc mem_read_Suc)

text \<open>The endianness expressions of the source do not look at the position of the buffer.\<close>

definition endian_ok :: "endian_expr \<Rightarrow> bool" where
  "endian_ok E \<longleftrightarrow>
     (\<forall>ub i k l. E (ub\<lparr>ub_iterator := i, ub_offset := k, ub_last_data_size := l\<rparr>) = E ub)"

lemma endian_ok_buffer [simp]: "endian_ok ub_endianness"
  by (simp add: endian_ok_def)

lemma endian_ok_const [simp]: "endian_ok (\<lambda>_. e)"
  by (simp add: endian_ok_def)

lemma endian_okD:
  "endian_ok E \<Longrightarrow> E (ub\<lparr>ub_iterator := i, ub_offset := k, ub_last_data_size := l\<rparr>) = E ub"
  by (simp add: endian_ok_def)

section \<open>Behaviour on a fixed buffer\<close>

text \<open>
  A buffer without a full-buffer callback is the only kind the node handle uses
  (\<open>ucdr_init_buffer\<close> leaves the callback null). For each primitive three lemmas cover every
  branch: there is room, there is not, and the buffer already has an error. \<open>place n ub\<close> is the
  state after an item of size \<open>n\<close> with its padding.
\<close>

definition place :: "nat \<Rightarrow> ucdrBuffer \<Rightarrow> ucdrBuffer" where
  "place n ub = (move_iterator (ucdr_buffer_alignment ub n + n) ub)\<lparr>ub_last_data_size := n\<rparr>"

definition fits :: "nat \<Rightarrow> ucdrBuffer \<Rightarrow> bool" where
  "fits n ub \<longleftrightarrow> \<not> ub_error ub \<and> ub_iterator ub + ucdr_buffer_alignment ub n + n \<le> ub_final ub"

definition item_at :: "nat \<Rightarrow> ucdrBuffer \<Rightarrow> nat" where
  "item_at n ub = ub_iterator ub + ucdr_buffer_alignment ub n"

text \<open>The state after an item that does not fit: nothing is written, the error flag is raised.\<close>

definition overrun :: "nat \<Rightarrow> ucdrBuffer \<Rightarrow> ucdrBuffer" where
  "overrun n ub =
     (if item_at n ub < ub_final ub
      then (move_iterator (ucdr_buffer_alignment ub n) ub)\<lparr>ub_error := True\<rparr>
      else (move_iterator (ub_final ub - ub_iterator ub) ub)
             \<lparr>ub_error := True, ub_last_data_size := if n = 1 then ub_last_data_size ub else 1\<rparr>)"

definition after_error :: "nat \<Rightarrow> ucdrBuffer \<Rightarrow> ucdrBuffer" where
  "after_error n ub =
     (if ub_iterator ub < ub_final ub \<or> n = 1 then ub else ub\<lparr>ub_last_data_size := 1\<rparr>)"

lemma alignment_1 [simp]: "ucdr_buffer_alignment ub (Suc 0) = 0"
  by (simp add: ucdr_buffer_alignment_def)

lemma type_size_cases: "type_size ty = 1 \<or> type_size ty \<in> {2, 4, 8}"
  by (cases ty) auto

lemma type_size_cdr_sizes [simp]: "type_size ty \<in> cdr_sizes"
  by (cases ty) (auto simp: cdr_sizes_def)

lemma serialize_1_fits:
  "fits 1 ub \<Longrightarrow> UCDR_SERIALIZE_BYTE_1 cb b (m, ub) = (True, m(item_at 1 ub := b), place 1 ub)"
  by (simp add: UCDR_SERIALIZE_BYTE_1_def fits_def item_at_def place_def)

lemma serialize_N_fits:
  assumes "fits n ub" "n \<in> {2, 4, 8}" "length v = n" "endian_ok E"
  shows "UCDR_SERIALIZE_BYTE_N cb n E v (m, ub) =
    (True, mem_write (item_at n ub) (cdr_bytes (E ub) v) m, place n ub)"
  using assms
  by (simp add: UCDR_SERIALIZE_BYTE_N_def fits_def item_at_def place_def Let_def advance_room
      ucdr_check_buffer_available_for_def serialize_whole_cdr_bytes endian_okD move_iterator_def
      add.assoc)

lemma serialize_fits:
  assumes "fits (type_size ty) ub" "length v = type_size ty" "endian_ok E"
  shows "UCDR_SERIALIZE_BYTE cb ty E v (m, ub) =
    (True, mem_write (item_at (type_size ty) ub) (cdr_bytes (E ub) v) m, place (type_size ty) ub)"
proof (cases "type_size ty = 1")
  case True
  with assms obtain b where v: "v = [b]" by (auto simp: length_Suc_conv)
  with True assms show ?thesis
    by (simp add: UCDR_SERIALIZE_BYTE_def serialize_1_fits [simplified] cdr_bytes_single)
next
  case False
  then have "type_size ty \<in> {2, 4, 8}" using type_size_cases by blast
  with False assms show ?thesis by (simp add: UCDR_SERIALIZE_BYTE_def serialize_N_fits)
qed

lemma deserialize_N_fits:
  assumes "fits n ub" "n \<in> {2, 4, 8}" "endian_ok E"
  shows "UCDR_DESERIALIZE_BYTE_N cb n E (m, ub) =
    (True, Some (cdr_bytes (E ub) (mem_read (item_at n ub) n m)), m, place n ub)"
  using assms
  by (simp add: UCDR_DESERIALIZE_BYTE_N_def fits_def item_at_def place_def Let_def advance_room
      ucdr_check_buffer_available_for_def deserialize_whole_cdr_bytes endian_okD move_iterator_def
      add.assoc)

definition stored :: "ucdr_type \<Rightarrow> ucdrEndianness \<Rightarrow> u8 list \<Rightarrow> u8 list" where
  "stored ty e bs = map (byte_cast ty) (cdr_bytes e bs)"

lemma byte_cast_id: "ty \<noteq> T_bool \<Longrightarrow> map (byte_cast ty) v = v"
  by (rule map_idI) (simp add: byte_cast_def)

lemma deserialize_fits:
  assumes "fits (type_size ty) ub" "endian_ok E"
  shows "UCDR_DESERIALIZE_BYTE cb ty E (m, ub) =
    (True, Some (stored ty (E ub) (mem_read (item_at (type_size ty) ub) (type_size ty) m)),
     m, place (type_size ty) ub)"
proof (cases "type_size ty = 1")
  case True
  with assms show ?thesis
    by (simp add: UCDR_DESERIALIZE_BYTE_def UCDR_DESERIALIZE_BYTE_1_def fits_def item_at_def
        place_def stored_def mem_read_Suc cdr_bytes_single)
next
  case False
  then have n: "type_size ty \<in> {2, 4, 8}" using type_size_cases by blast
  from False have "ty \<noteq> T_bool" by auto
  with False n assms show ?thesis
    by (simp add: UCDR_DESERIALIZE_BYTE_def deserialize_N_fits stored_def byte_cast_id)
qed

lemma not_fits_overrun:
  assumes "\<not> ub_error ub" "\<not> fits n ub"
  shows "ub_final ub < ub_iterator ub + ucdr_buffer_alignment ub n + n"
  using assms by (simp add: fits_def)

lemma serialize_N_overrun:
  assumes "\<not> ub_error ub" "\<not> fits n ub" "ub_wf ub" "ub_on_full_buffer ub = None" "n \<noteq> 1" "0 < n"
  shows "UCDR_SERIALIZE_BYTE_N cb n E v (m, ub) = (False, m, overrun n ub)"
proof (cases "item_at n ub \<le> ub_final ub")
  case True
  then show ?thesis using assms not_fits_overrun [OF assms(1,2)]
    by (auto simp: UCDR_SERIALIZE_BYTE_N_def item_at_def overrun_def Let_def advance_room
      ucdr_check_buffer_available_for_def move_iterator_def)
next
  case False
  then show ?thesis using assms not_fits_overrun [OF assms(1,2)]
    by (simp add: UCDR_SERIALIZE_BYTE_N_def item_at_def overrun_def Let_def advance_short
      ucdr_check_buffer_available_for_def ub_wf_def)
qed

lemma deserialize_N_overrun:
  assumes "\<not> ub_error ub" "\<not> fits n ub" "ub_wf ub" "ub_on_full_buffer ub = None" "n \<noteq> 1" "0 < n"
  shows "UCDR_DESERIALIZE_BYTE_N cb n E (m, ub) = (False, None, m, overrun n ub)"
proof (cases "item_at n ub \<le> ub_final ub")
  case True
  then show ?thesis using assms not_fits_overrun [OF assms(1,2)]
    by (auto simp: UCDR_DESERIALIZE_BYTE_N_def item_at_def overrun_def Let_def advance_room
      ucdr_check_buffer_available_for_def move_iterator_def)
next
  case False
  then show ?thesis using assms not_fits_overrun [OF assms(1,2)]
    by (simp add: UCDR_DESERIALIZE_BYTE_N_def item_at_def overrun_def Let_def advance_short
      ucdr_check_buffer_available_for_def ub_wf_def)
qed

lemma serialize_overrun:
  assumes "\<not> ub_error ub" "\<not> fits (type_size ty) ub" "ub_wf ub" "ub_on_full_buffer ub = None"
  shows "UCDR_SERIALIZE_BYTE cb ty E v (m, ub) = (False, m, overrun (type_size ty) ub)"
proof (cases "type_size ty = 1")
  case True
  with assms show ?thesis
    by (auto simp: UCDR_SERIALIZE_BYTE_def UCDR_SERIALIZE_BYTE_1_def fits_def overrun_def ub_wf_def
        item_at_def)
next
  case False
  with assms show ?thesis
    using cdr_sizes_pos [OF type_size_cdr_sizes, of ty]
    by (simp add: UCDR_SERIALIZE_BYTE_def serialize_N_overrun)
qed

lemma deserialize_overrun:
  assumes "\<not> ub_error ub" "\<not> fits (type_size ty) ub" "ub_wf ub" "ub_on_full_buffer ub = None"
  shows "UCDR_DESERIALIZE_BYTE cb ty E (m, ub) = (False, None, m, overrun (type_size ty) ub)"
proof (cases "type_size ty = 1")
  case True
  with assms show ?thesis
    by (auto simp: UCDR_DESERIALIZE_BYTE_def UCDR_DESERIALIZE_BYTE_1_def fits_def overrun_def
        ub_wf_def item_at_def)
next
  case False
  with assms show ?thesis
    using cdr_sizes_pos [OF type_size_cdr_sizes, of ty]
    by (simp add: UCDR_DESERIALIZE_BYTE_def deserialize_N_overrun)
qed

lemma serialize_error:
  assumes "ub_error ub"
  shows "UCDR_SERIALIZE_BYTE cb ty E v (m, ub) = (False, m, after_error (type_size ty) ub)"
  using assms
  by (auto simp: UCDR_SERIALIZE_BYTE_def UCDR_SERIALIZE_BYTE_1_def UCDR_SERIALIZE_BYTE_N_def
      after_error_def Let_def advance_error ucdr_check_buffer_available_for_def move_iterator_def)

lemma deserialize_error:
  assumes "ub_error ub"
  shows "UCDR_DESERIALIZE_BYTE cb ty E (m, ub) = (False, None, m, after_error (type_size ty) ub)"
  using assms
  by (auto simp: UCDR_DESERIALIZE_BYTE_def UCDR_DESERIALIZE_BYTE_1_def UCDR_DESERIALIZE_BYTE_N_def
      after_error_def Let_def advance_error ucdr_check_buffer_available_for_def move_iterator_def)

section \<open>The states after a primitive\<close>

lemma place_sel [simp]:
  "ub_iterator (place n ub) = item_at n ub + n"
  "ub_offset (place n ub) = ub_offset ub + ucdr_buffer_alignment ub n + n"
  "ub_last_data_size (place n ub) = n"
  "ub_init (place n ub) = ub_init ub"
  "ub_final (place n ub) = ub_final ub"
  "ub_error (place n ub) = ub_error ub"
  "ub_on_full_buffer (place n ub) = ub_on_full_buffer ub"
  "ub_endianness (place n ub) = ub_endianness ub"
  "ub_origin (place n ub) = ub_origin ub"
  "ub_args (place n ub) = ub_args ub"
  by (simp_all add: place_def item_at_def)

lemma overrun_sel [simp]:
  "ub_init (overrun n ub) = ub_init ub"
  "ub_final (overrun n ub) = ub_final ub"
  "ub_error (overrun n ub)"
  "ub_on_full_buffer (overrun n ub) = ub_on_full_buffer ub"
  "ub_endianness (overrun n ub) = ub_endianness ub"
  "ub_origin (overrun n ub) = ub_origin ub"
  "ub_args (overrun n ub) = ub_args ub"
  by (simp_all add: overrun_def)

lemma after_error_sel [simp]:
  "ub_init (after_error n ub) = ub_init ub"
  "ub_final (after_error n ub) = ub_final ub"
  "ub_iterator (after_error n ub) = ub_iterator ub"
  "ub_offset (after_error n ub) = ub_offset ub"
  "ub_error (after_error n ub) = ub_error ub"
  "ub_on_full_buffer (after_error n ub) = ub_on_full_buffer ub"
  "ub_endianness (after_error n ub) = ub_endianness ub"
  "ub_origin (after_error n ub) = ub_origin ub"
  "ub_args (after_error n ub) = ub_args ub"
  by (simp_all add: after_error_def)

lemma item_at_ge: "ub_iterator ub \<le> item_at n ub"
  by (simp add: item_at_def)

lemma fits_item: "fits n ub \<Longrightarrow> item_at n ub + n \<le> ub_final ub"
  by (simp add: fits_def item_at_def)

lemma ub_wf_place: "ub_wf ub \<Longrightarrow> fits n ub \<Longrightarrow> ub_wf (place n ub)"
  by (simp add: ub_wf_def fits_def item_at_def)

lemma ub_wf_overrun: "ub_wf ub \<Longrightarrow> ub_wf (overrun n ub)"
  by (auto simp: ub_wf_def overrun_def item_at_def)

lemma ub_wf_after_error: "ub_wf ub \<Longrightarrow> ub_wf (after_error n ub)"
  by (simp add: ub_wf_def)

lemma ub_aligned_place:
  assumes "ub_aligned ub" and n: "n \<in> cdr_sizes"
  shows "ub_aligned (place n ub)"
proof -
  have "n dvd ub_offset ub + pad_to n (ub_offset ub)"
    using cdr_sizes_pos [OF n] by (rule pad_to_aligned)
  then have "n dvd ub_offset ub + ucdr_buffer_alignment ub n + n"
    using buffer_alignment_pad [OF assms] by simp
  with n show ?thesis by (simp add: ub_aligned_def)
qed

text \<open>One step of serialisation on a fixed buffer, all three branches in one equation.\<close>

definition next_buffer :: "nat \<Rightarrow> ucdrBuffer \<Rightarrow> ucdrBuffer" where
  "next_buffer n ub =
     (if ub_error ub then after_error n ub else if fits n ub then place n ub else overrun n ub)"

lemma serialize_step:
  assumes "ub_wf ub" "ub_on_full_buffer ub = None" "length v = type_size ty" "endian_ok E"
  shows "UCDR_SERIALIZE_BYTE cb ty E v (m, ub) =
    (fits (type_size ty) ub,
     if fits (type_size ty) ub then mem_write (item_at (type_size ty) ub) (cdr_bytes (E ub) v) m else m,
     next_buffer (type_size ty) ub)"
proof (cases "ub_error ub")
  case True
  then show ?thesis by (simp add: serialize_error next_buffer_def fits_def)
next
  case False
  with assms show ?thesis
    by (cases "fits (type_size ty) ub")
      (simp_all add: serialize_fits serialize_overrun next_buffer_def)
qed

lemma deserialize_step:
  assumes "ub_wf ub" "ub_on_full_buffer ub = None" "endian_ok E"
  shows "UCDR_DESERIALIZE_BYTE cb ty E (m, ub) =
    (fits (type_size ty) ub,
     if fits (type_size ty) ub
     then Some (stored ty (E ub) (mem_read (item_at (type_size ty) ub) (type_size ty) m)) else None,
     m, next_buffer (type_size ty) ub)"
proof (cases "ub_error ub")
  case True
  then show ?thesis by (simp add: deserialize_error next_buffer_def fits_def)
next
  case False
  with assms show ?thesis
    by (cases "fits (type_size ty) ub")
      (simp_all add: deserialize_fits deserialize_overrun next_buffer_def)
qed

lemma next_buffer_sel [simp]:
  "ub_init (next_buffer n ub) = ub_init ub"
  "ub_final (next_buffer n ub) = ub_final ub"
  "ub_on_full_buffer (next_buffer n ub) = ub_on_full_buffer ub"
  "ub_endianness (next_buffer n ub) = ub_endianness ub"
  "ub_origin (next_buffer n ub) = ub_origin ub"
  "ub_args (next_buffer n ub) = ub_args ub"
  "ub_error (next_buffer n ub) \<longleftrightarrow> \<not> fits n ub"
  by (auto simp: next_buffer_def fits_def)

lemma ub_wf_next: "ub_wf ub \<Longrightarrow> ub_wf (next_buffer n ub)"
  by (simp add: next_buffer_def ub_wf_place ub_wf_overrun ub_wf_after_error)

lemma next_buffer_fits: "fits n ub \<Longrightarrow> next_buffer n ub = place n ub"
  by (simp add: next_buffer_def fits_def)

end
