(* ===== verification/Ucdr_Array.thy ===== *)
theory Ucdr_Array
  imports Ucdr_Basic
begin

text \<open>
  Arrays of basic types, \<open>ucdr/types/array.c\<close>. An array is the list of the object representations
  of its elements; \<open>(uint8_t*)array\<close> is their concatenation. A deserialiser returns one entry per
  byte of the destination array: the byte stored there, or \<^term>\<open>None\<close> where the array keeps its
  old contents.
\<close>

section \<open>Copying between buffer and array\<close>

function ucdr_array_to_buffer_loop ::
    "on_full_env \<Rightarrow> u8 list \<Rightarrow> nat \<Rightarrow> nat \<Rightarrow> nat \<Rightarrow> cdr_state \<Rightarrow> cdr_state" where
  "ucdr_array_to_buffer_loop cb array sz data_size remaining_size s =
     (case ucdr_check_final_buffer_behavior_array cb remaining_size data_size s of
        (serialization_size, m', ub') \<Rightarrow>
          if 0 < serialization_size
          then ucdr_array_to_buffer_loop cb array sz data_size (remaining_size - serialization_size)
                 (mem_write (ub_iterator ub')
                    (take serialization_size (drop (sz - remaining_size) array)) m',
                  move_iterator serialization_size ub')
          else (m', ub'))"
  by pat_completeness auto
termination
  by (relation "measure (\<lambda>(cb, array, sz, data_size, remaining_size, s). remaining_size)")
    (auto dest: check_array_leD)

declare ucdr_array_to_buffer_loop.simps [simp del]

definition ucdr_array_to_buffer ::
    "on_full_env \<Rightarrow> u8 list \<Rightarrow> nat \<Rightarrow> nat \<Rightarrow> cdr_state \<Rightarrow> cdr_state" where
  "ucdr_array_to_buffer cb array sz data_size s =
     (case s of (m, ub) \<Rightarrow>
        (case (if ucdr_check_buffer_available_for ub sz
               then (mem_write (ub_iterator ub) array m, move_iterator sz ub)
               else ucdr_array_to_buffer_loop cb array sz data_size sz (m, ub)) of
           (m', ub') \<Rightarrow> (m', ub'\<lparr>ub_last_data_size := data_size mod 256\<rparr>)))"

function ucdr_buffer_to_array_loop ::
    "on_full_env \<Rightarrow> u8 list \<Rightarrow> nat \<Rightarrow> nat \<Rightarrow> cdr_state \<Rightarrow> u8 list \<times> cdr_state" where
  "ucdr_buffer_to_array_loop cb array data_size remaining_size s =
     (case ucdr_check_final_buffer_behavior_array cb remaining_size data_size s of
        (deserialization_size, m', ub') \<Rightarrow>
          if 0 < deserialization_size
          then ucdr_buffer_to_array_loop cb
                 (array @ mem_read (ub_iterator ub') deserialization_size m') data_size
                 (remaining_size - deserialization_size)
                 (m', move_iterator deserialization_size ub')
          else (array, m', ub'))"
  by pat_completeness auto
termination
  by (relation "measure (\<lambda>(cb, array, data_size, remaining_size, s). remaining_size)")
    (auto dest: check_array_leD)

declare ucdr_buffer_to_array_loop.simps [simp del]

definition ucdr_buffer_to_array ::
    "on_full_env \<Rightarrow> nat \<Rightarrow> nat \<Rightarrow> cdr_state \<Rightarrow> u8 list \<times> cdr_state" where
  "ucdr_buffer_to_array cb sz data_size s =
     (case s of (m, ub) \<Rightarrow>
        (case (if ucdr_check_buffer_available_for ub sz
               then (mem_read (ub_iterator ub) sz m, m, move_iterator sz ub)
               else ucdr_buffer_to_array_loop cb [] data_size sz (m, ub)) of
           (array, m', ub') \<Rightarrow> (array, m', ub'\<lparr>ub_last_data_size := data_size mod 256\<rparr>)))"

section \<open>Serialise\<close>

definition UCDR_SERIALIZE_ARRAY_BYTE_1 ::
    "on_full_env \<Rightarrow> u8 list list \<Rightarrow> cdr_state \<Rightarrow> bool \<times> cdr_state" where
  "UCDR_SERIALIZE_ARRAY_BYTE_1 cb array s =
     (let s' = ucdr_array_to_buffer cb (concat array) (length array) 1 s
      in (\<not> ub_error (snd s'), s'))"

definition serialize_elements ::
    "on_full_env \<Rightarrow> ucdr_type \<Rightarrow> endian_expr \<Rightarrow> u8 list list \<Rightarrow> cdr_state \<Rightarrow> cdr_state" where
  "serialize_elements cb ty ENDIAN array s =
     fold (\<lambda>v s. snd (ucdr_serialize_endian cb ty (ENDIAN (snd s)) v s)) array s"

definition UCDR_SERIALIZE_ARRAY_BYTE_N ::
    "on_full_env \<Rightarrow> ucdr_type \<Rightarrow> endian_expr \<Rightarrow> u8 list list \<Rightarrow> cdr_state \<Rightarrow> bool \<times> cdr_state" where
  "UCDR_SERIALIZE_ARRAY_BYTE_N cb ty ENDIAN array s =
     (case s of (m, ub) \<Rightarrow>
      let TYPE_SIZE = type_size ty;
          alignment = ucdr_buffer_alignment ub TYPE_SIZE;
          last_data_size = ub_last_data_size ub;
          (m1, ub1) = ucdr_advance_buffer cb alignment (m, ub);
          ub2 = ub1\<lparr>ub_last_data_size := last_data_size\<rparr>;
          s' = (if UCDR_MACHINE_ENDIANNESS = ENDIAN ub2
                then ucdr_array_to_buffer cb (concat array) (length array * TYPE_SIZE) TYPE_SIZE (m1, ub2)
                else serialize_elements cb ty ENDIAN array (m1, ub2))
      in (\<not> ub_error (snd s'), s'))"

definition UCDR_SERIALIZE_ARRAY_BYTE ::
    "on_full_env \<Rightarrow> ucdr_type \<Rightarrow> endian_expr \<Rightarrow> u8 list list \<Rightarrow> cdr_state \<Rightarrow> bool \<times> cdr_state" where
  "UCDR_SERIALIZE_ARRAY_BYTE cb ty ENDIAN array s =
     (if type_size ty = 1 then UCDR_SERIALIZE_ARRAY_BYTE_1 cb array s
      else UCDR_SERIALIZE_ARRAY_BYTE_N cb ty ENDIAN array s)"

definition ucdr_serialize_array ::
    "on_full_env \<Rightarrow> ucdr_type \<Rightarrow> u8 list list \<Rightarrow> cdr_state \<Rightarrow> bool \<times> cdr_state" where
  "ucdr_serialize_array cb ty array s = UCDR_SERIALIZE_ARRAY_BYTE cb ty ub_endianness array s"

definition ucdr_serialize_endian_array ::
    "on_full_env \<Rightarrow> ucdr_type \<Rightarrow> ucdrEndianness \<Rightarrow> u8 list list \<Rightarrow> cdr_state \<Rightarrow> bool \<times> cdr_state" where
  "ucdr_serialize_endian_array cb ty endianness array s =
     UCDR_SERIALIZE_ARRAY_BYTE cb ty (\<lambda>_. endianness) array s"

section \<open>Deserialise\<close>

definition untouched_tail :: "nat \<Rightarrow> u8 list \<Rightarrow> u8 option list" where
  "untouched_tail n bs = map Some bs @ replicate (n - length bs) None"

definition UCDR_DESERIALIZE_ARRAY_BYTE_1 ::
    "on_full_env \<Rightarrow> nat \<Rightarrow> cdr_state \<Rightarrow> bool \<times> u8 option list \<times> cdr_state" where
  "UCDR_DESERIALIZE_ARRAY_BYTE_1 cb sz s =
     (case ucdr_buffer_to_array cb sz 1 s of (array, m, ub) \<Rightarrow>
        (\<not> ub_error ub, untouched_tail sz array, m, ub))"

definition deserialize_elements ::
    "on_full_env \<Rightarrow> ucdr_type \<Rightarrow> endian_expr \<Rightarrow> nat \<Rightarrow> cdr_state \<Rightarrow> u8 option list \<times> cdr_state" where
  "deserialize_elements cb ty ENDIAN sz s =
     fold (\<lambda>i (array, s). case ucdr_deserialize_endian cb ty (ENDIAN (snd s)) s of
              (ok, v, s') \<Rightarrow>
                (array @ (case v of Some bs \<Rightarrow> map Some bs | None \<Rightarrow> replicate (type_size ty) None), s'))
          [0..<sz] ([], s)"

definition UCDR_DESERIALIZE_ARRAY_BYTE_N ::
    "on_full_env \<Rightarrow> ucdr_type \<Rightarrow> endian_expr \<Rightarrow> nat \<Rightarrow> cdr_state \<Rightarrow> bool \<times> u8 option list \<times> cdr_state" where
  "UCDR_DESERIALIZE_ARRAY_BYTE_N cb ty ENDIAN sz s =
     (case s of (m, ub) \<Rightarrow>
      let TYPE_SIZE = type_size ty;
          alignment = ucdr_buffer_alignment ub TYPE_SIZE;
          last_data_size = ub_last_data_size ub;
          (m1, ub1) = ucdr_advance_buffer cb alignment (m, ub);
          ub2 = ub1\<lparr>ub_last_data_size := last_data_size\<rparr>;
          (array, m', ub') =
            (if UCDR_MACHINE_ENDIANNESS = ENDIAN ub2
             then (case ucdr_buffer_to_array cb (sz * TYPE_SIZE) TYPE_SIZE (m1, ub2) of
                     (a, s') \<Rightarrow> (untouched_tail (sz * TYPE_SIZE) a, s'))
             else deserialize_elements cb ty ENDIAN sz (m1, ub2))
      in (\<not> ub_error ub', array, m', ub'))"

definition UCDR_DESERIALIZE_ARRAY_BYTE ::
    "on_full_env \<Rightarrow> ucdr_type \<Rightarrow> endian_expr \<Rightarrow> nat \<Rightarrow> cdr_state \<Rightarrow> bool \<times> u8 option list \<times> cdr_state" where
  "UCDR_DESERIALIZE_ARRAY_BYTE cb ty ENDIAN sz s =
     (if type_size ty = 1 then UCDR_DESERIALIZE_ARRAY_BYTE_1 cb sz s
      else UCDR_DESERIALIZE_ARRAY_BYTE_N cb ty ENDIAN sz s)"

definition ucdr_deserialize_array ::
    "on_full_env \<Rightarrow> ucdr_type \<Rightarrow> nat \<Rightarrow> cdr_state \<Rightarrow> bool \<times> u8 option list \<times> cdr_state" where
  "ucdr_deserialize_array cb ty sz s = UCDR_DESERIALIZE_ARRAY_BYTE cb ty ub_endianness sz s"

definition ucdr_deserialize_endian_array ::
    "on_full_env \<Rightarrow> ucdr_type \<Rightarrow> ucdrEndianness \<Rightarrow> nat \<Rightarrow> cdr_state \<Rightarrow> bool \<times> u8 option list \<times> cdr_state" where
  "ucdr_deserialize_endian_array cb ty endianness sz s =
     UCDR_DESERIALIZE_ARRAY_BYTE cb ty (\<lambda>_. endianness) sz s"

section \<open>Copying on a fixed buffer\<close>

lemma array_to_buffer_fits:
  "\<not> ub_error ub \<Longrightarrow> ub_iterator ub + sz \<le> ub_final ub \<Longrightarrow>
   ucdr_array_to_buffer cb array sz d (m, ub) =
     (mem_write (ub_iterator ub) array m, (move_iterator sz ub)\<lparr>ub_last_data_size := d mod 256\<rparr>)"
  by (simp add: ucdr_array_to_buffer_def ucdr_check_buffer_available_for_def)

lemma array_to_buffer_error:
  "ub_error ub \<Longrightarrow>
   ucdr_array_to_buffer cb array sz d (m, ub) = (m, ub\<lparr>ub_last_data_size := d mod 256\<rparr>)"
  by (simp add: ucdr_array_to_buffer_def ucdr_check_buffer_available_for_def
      ucdr_array_to_buffer_loop.simps)

lemma array_to_buffer_loop_full:
  "\<not> ub_error ub \<Longrightarrow> ub_final ub \<le> ub_iterator ub \<Longrightarrow> ub_on_full_buffer ub = None \<Longrightarrow> 0 < r \<Longrightarrow>
   ucdr_array_to_buffer_loop cb array sz d r (m, ub) = (m, ub\<lparr>ub_error := True\<rparr>)"
  by (subst ucdr_array_to_buffer_loop.simps) (simp add: check_array_full)

lemma array_to_buffer_short:
  assumes "\<not> ub_error ub" "ub_wf ub" "ub_on_full_buffer ub = None"
    and "ub_final ub < ub_iterator ub + sz"
  shows "ucdr_array_to_buffer cb array sz d (m, ub) =
    (mem_write (ub_iterator ub) (take (ub_final ub - ub_iterator ub) array) m,
     (move_iterator (ub_final ub - ub_iterator ub) ub)
       \<lparr>ub_error := True, ub_last_data_size := d mod 256\<rparr>)"
proof (cases "ub_iterator ub < ub_final ub")
  case True
  have "min sz (ub_final ub - ub_iterator ub) = ub_final ub - ub_iterator ub"
    using assms(4) by simp
  with True have "ucdr_array_to_buffer_loop cb array sz d sz (m, ub) =
    (mem_write (ub_iterator ub) (take (ub_final ub - ub_iterator ub) array) m,
     (move_iterator (ub_final ub - ub_iterator ub) ub)\<lparr>ub_error := True\<rparr>)"
    using assms by (subst ucdr_array_to_buffer_loop.simps)
      (simp add: check_array_room array_to_buffer_loop_full)
  with assms show ?thesis
    by (simp add: ucdr_array_to_buffer_def ucdr_check_buffer_available_for_def)
next
  case False
  with assms show ?thesis
    by (simp add: ucdr_array_to_buffer_def ucdr_check_buffer_available_for_def ub_wf_def
        array_to_buffer_loop_full)
qed

lemma buffer_to_array_fits:
  "\<not> ub_error ub \<Longrightarrow> ub_iterator ub + sz \<le> ub_final ub \<Longrightarrow>
   ucdr_buffer_to_array cb sz d (m, ub) =
     (mem_read (ub_iterator ub) sz m, m, (move_iterator sz ub)\<lparr>ub_last_data_size := d mod 256\<rparr>)"
  by (simp add: ucdr_buffer_to_array_def ucdr_check_buffer_available_for_def)

lemma buffer_to_array_error:
  "ub_error ub \<Longrightarrow>
   ucdr_buffer_to_array cb sz d (m, ub) = ([], m, ub\<lparr>ub_last_data_size := d mod 256\<rparr>)"
  by (simp add: ucdr_buffer_to_array_def ucdr_check_buffer_available_for_def
      ucdr_buffer_to_array_loop.simps)

lemma buffer_to_array_loop_length:
  "length (fst (ucdr_buffer_to_array_loop cb array d r s)) \<le> length array + r"
proof (induction cb array d r s rule: ucdr_buffer_to_array_loop.induct)
  case (1 cb array d r s)
  obtain n m ub where c: "ucdr_check_final_buffer_behavior_array cb r d s = (n, m, ub)"
    by (cases "ucdr_check_final_buffer_behavior_array cb r d s")
  then have le: "n \<le> r" using check_array_leD [of n "(m, ub)" cb r d s] by simp
  show ?case
  proof (cases "0 < n")
    case True
    with "1.IH" [of n "(m, ub)" m ub] c le show ?thesis
      by (subst ucdr_buffer_to_array_loop.simps) simp
  next
    case False
    with c show ?thesis by (subst ucdr_buffer_to_array_loop.simps) simp
  qed
qed

lemma buffer_to_array_length: "length (fst (ucdr_buffer_to_array cb sz d s)) \<le> sz"
  using buffer_to_array_loop_length [of cb "[]" d sz s]
  by (cases s) (auto simp: ucdr_buffer_to_array_def split: prod.splits)

section \<open>Layout of an array\<close>

definition array_fits :: "nat \<Rightarrow> nat \<Rightarrow> ucdrBuffer \<Rightarrow> bool" where
  "array_fits n k ub \<longleftrightarrow> \<not> ub_error ub \<and> item_at n ub + k * n \<le> ub_final ub"

definition array_place :: "nat \<Rightarrow> nat \<Rightarrow> ucdrBuffer \<Rightarrow> ucdrBuffer" where
  "array_place n k ub =
     (move_iterator (ucdr_buffer_alignment ub n + k * n) ub)\<lparr>ub_last_data_size := n\<rparr>"

definition array_bytes :: "ucdrEndianness \<Rightarrow> u8 list list \<Rightarrow> u8 list" where
  "array_bytes e array = concat (map (cdr_bytes e) array)"

lemma length_concat_const: "\<forall>v \<in> set vs. length v = n \<Longrightarrow> length (concat vs) = length vs * n"
  by (induction vs) auto

lemma length_array_bytes:
  "\<forall>v \<in> set array. length v = n \<Longrightarrow> length (array_bytes e array) = length array * n"
  unfolding array_bytes_def by (subst length_concat_const [of _ n]) auto

lemma array_bytes_machine: "array_bytes UCDR_MACHINE_ENDIANNESS array = concat array"
  unfolding array_bytes_def by (rule arg_cong [where f = concat], rule map_idI) (simp add: cdr_bytes_def)

lemma array_bytes_single:
  "\<forall>v \<in> set array. length v = Suc 0 \<Longrightarrow> array_bytes e array = concat array"
  unfolding array_bytes_def by (rule arg_cong [where f = concat], rule map_idI) (simp add: cdr_bytes_single)

lemma alignment_after_padding:
  assumes n: "n \<in> cdr_sizes"
  shows "ucdr_buffer_alignment (move_iterator (ucdr_buffer_alignment ub n) ub) n = 0"
proof (cases "ub_last_data_size ub < n")
  case True
  then show ?thesis
    using n pad_to_aligned [OF cdr_sizes_pos [OF n], of "ub_offset ub"]
    by (simp add: buffer_alignment_small pad_to_dvd_0)
next
  case False
  then show ?thesis by (simp add: buffer_alignment_large)
qed

lemma serialize_elements_fits:
  assumes "\<not> ub_error ub" "ub_iterator ub + length array * type_size ty \<le> ub_final ub"
    and "ucdr_buffer_alignment ub (type_size ty) = 0"
    and "\<forall>v \<in> set array. length v = type_size ty" "endian_ok E"
  shows "serialize_elements cb ty E array (m, ub) =
    (mem_write (ub_iterator ub) (array_bytes (E ub) array) m,
     if array = [] then ub else (move_iterator (length array * type_size ty) ub)\<lparr>ub_last_data_size := type_size ty\<rparr>)"
  using assms
proof (induction array arbitrary: m ub)
  case Nil
  then show ?case by (simp add: serialize_elements_def array_bytes_def)
next
  case (Cons v array)
  let ?ub = "(move_iterator (type_size ty) ub)\<lparr>ub_last_data_size := type_size ty\<rparr>"
  have pl: "place (type_size ty) ub = ?ub" "item_at (type_size ty) ub = ub_iterator ub"
    using Cons.prems(3) by (simp_all add: place_def item_at_def)
  have "fits (type_size ty) ub" using Cons.prems by (simp add: fits_def)
  then have hd: "ucdr_serialize_endian cb ty (E ub) v (m, ub) =
      (True, mem_write (ub_iterator ub) (cdr_bytes (E ub) v) m, ?ub)"
    using Cons.prems serialize_fits [of ty ub v "\<lambda>_. E ub" cb m]
    by (simp add: ucdr_serialize_endian_def pl)
  have "serialize_elements cb ty E array (mem_write (ub_iterator ub) (cdr_bytes (E ub) v) m, ?ub) =
    (mem_write (ub_iterator ?ub) (array_bytes (E ?ub) array)
       (mem_write (ub_iterator ub) (cdr_bytes (E ub) v) m),
     if array = [] then ?ub else (move_iterator (length array * type_size ty) ?ub)\<lparr>ub_last_data_size := type_size ty\<rparr>)"
    by (rule Cons.IH) (use Cons.prems in \<open>simp_all add: buffer_alignment_large\<close>)
  then show ?case
    using Cons.prems(4)
    by (simp add: serialize_elements_def hd array_bytes_def mem_write_append move_iterator_def
        add.assoc endian_okD [OF Cons.prems(5)])
qed

text \<open>
  Both byte orders give the same layout: padding, then the wire forms of the elements one after
  the other. In the machine's byte order the code copies the whole array at once, in the other it
  loops over the elements.
\<close>

lemma serialize_array_fits:
  assumes "array_fits (type_size ty) (length array) ub" "array \<noteq> []"
    and "\<forall>v \<in> set array. length v = type_size ty" "endian_ok E"
  shows "UCDR_SERIALIZE_ARRAY_BYTE cb ty E array (m, ub) =
    (True, mem_write (item_at (type_size ty) ub) (array_bytes (E ub) array) m,
     array_place (type_size ty) (length array) ub)"
proof (cases "type_size ty = 1")
  case True
  with assms show ?thesis
    by (simp add: UCDR_SERIALIZE_ARRAY_BYTE_def UCDR_SERIALIZE_ARRAY_BYTE_1_def array_fits_def
        array_place_def item_at_def array_to_buffer_fits array_bytes_single)
next
  case False
  let ?n = "type_size ty" and ?a = "ucdr_buffer_alignment ub (type_size ty)"
  have n256: "?n mod 256 = ?n" by (cases ty) auto
  have E: "E (move_iterator ?a ub) = E ub"
    using endian_okD [OF assms(4), where ub = ub and l = "ub_last_data_size ub"]
    by (simp add: move_iterator_def)
  have el: "serialize_elements cb ty E array (m, move_iterator ?a ub) =
    (mem_write (item_at ?n ub) (array_bytes (E ub) array) m, array_place ?n (length array) ub)"
    using assms alignment_after_padding [where n = "type_size ty" and ub = ub]
    by (subst serialize_elements_fits)
      (simp_all add: array_fits_def item_at_def E array_place_def move_iterator_add)
  have adv: "ucdr_advance_buffer cb ?a (m, ub) = (m, (move_iterator ?a ub)\<lparr>ub_last_data_size := 1\<rparr>)"
    using assms by (simp add: array_fits_def item_at_def advance_room)
  have rst: "(move_iterator ?a ub)\<lparr>ub_last_data_size := ub_last_data_size ub\<rparr> = move_iterator ?a ub"
    by (simp add: move_iterator_def)
  show ?thesis
  proof (cases "UCDR_MACHINE_ENDIANNESS = E ub")
    case True
    with False assms show ?thesis
      by (simp add: UCDR_SERIALIZE_ARRAY_BYTE_def UCDR_SERIALIZE_ARRAY_BYTE_N_def adv rst E Let_def
          array_fits_def item_at_def array_to_buffer_fits n256 array_place_def move_iterator_add
          array_bytes_machine)
  next
    case neq: False
    with False assms show ?thesis
      by (simp add: UCDR_SERIALIZE_ARRAY_BYTE_def UCDR_SERIALIZE_ARRAY_BYTE_N_def adv rst E Let_def
          el array_place_def array_fits_def)
  qed
qed

definition read_elements :: "ucdrEndianness \<Rightarrow> nat \<Rightarrow> nat \<Rightarrow> nat \<Rightarrow> mem \<Rightarrow> u8 list list" where
  "read_elements e n k a m = map (\<lambda>i. cdr_bytes e (mem_read (a + i * n) n m)) [0..<k]"

lemma concat_mem_read: "concat (map (\<lambda>i. mem_read (a + i * n) n m) [0..<k]) = mem_read a (k * n) m"
proof (induction k)
  case 0
  then show ?case by simp
next
  case (Suc k)
  have "mem_read a (Suc k * n) m = mem_read a (k * n + n) m"
    by (simp add: add.commute)
  with Suc show ?case by (simp add: mem_read_add)
qed

lemma concat_read_elements_machine:
  "concat (read_elements UCDR_MACHINE_ENDIANNESS n k a m) = mem_read a (k * n) m"
  by (simp add: read_elements_def cdr_bytes_def concat_mem_read)

lemma concat_read_elements_single:
  "concat (read_elements e (Suc 0) k a m) = mem_read a k m"
  using concat_mem_read [of a "Suc 0" m k] by (simp add: read_elements_def cdr_bytes_single)

lemma read_elements_Suc:
  "read_elements e n (Suc k) a m = cdr_bytes e (mem_read a n m) # read_elements e n k (a + n) m"
  by (simp add: read_elements_def upt_conv_Cons map_Suc_upt [symmetric] comp_def add.assoc
      del: upt_Suc)

lemma read_elements_write:
  assumes "\<forall>v \<in> set array. length v = n" and "k = length array"
  shows "read_elements e n k a (mem_write a (array_bytes e array) m) = array"
  using assms
proof (induction array arbitrary: a m k)
  case Nil
  then show ?case by (simp add: read_elements_def)
next
  case (Cons v array)
  have "read_elements e n (length array) (a + n)
      (mem_write (a + n) (array_bytes e array) (mem_write a (cdr_bytes e v) m)) = array"
    using Cons.prems by (intro Cons.IH) auto
  with Cons.prems show ?case
    by (simp add: read_elements_Suc array_bytes_def mem_write_append mem_simps)
qed

lemma deserialize_elements_Suc:
  "deserialize_elements cb ty E (Suc k) s =
    (case deserialize_elements cb ty E k s of (array, s1) \<Rightarrow>
       case ucdr_deserialize_endian cb ty (E (snd s1)) s1 of (ok, v, s2) \<Rightarrow>
         (array @ (case v of Some bs \<Rightarrow> map Some bs | None \<Rightarrow> replicate (type_size ty) None), s2))"
  by (simp add: deserialize_elements_def split_beta)

lemma deserialize_elements_fits:
  assumes "\<not> ub_error ub" "ub_iterator ub + k * type_size ty \<le> ub_final ub"
    and "ucdr_buffer_alignment ub (type_size ty) = 0" "type_size ty \<noteq> 1" "endian_ok E"
  shows "deserialize_elements cb ty E k (m, ub) =
    (map Some (concat (read_elements (E ub) (type_size ty) k (ub_iterator ub) m)), m,
     if k = 0 then ub else (move_iterator (k * type_size ty) ub)\<lparr>ub_last_data_size := type_size ty\<rparr>)"
  using assms
proof (induction k)
  case 0
  then show ?case by (simp add: deserialize_elements_def read_elements_def)
next
  case (Suc k)
  let ?n = "type_size ty"
  let ?ub = "if k = 0 then ub else (move_iterator (k * ?n) ub)\<lparr>ub_last_data_size := ?n\<rparr>"
  have IH: "deserialize_elements cb ty E k (m, ub) =
      (map Some (concat (read_elements (E ub) ?n k (ub_iterator ub) m)), m, ?ub)"
    using Suc by simp
  have al: "ucdr_buffer_alignment ?ub ?n = 0"
    using Suc.prems(3) by (simp add: buffer_alignment_large)
  have E: "E ?ub = E ub" using Suc.prems(5) by (simp add: move_iterator_def endian_okD)
  have "fits ?n ?ub" using Suc.prems al by (simp add: fits_def)
  moreover have "ty \<noteq> T_bool" using Suc.prems(4) by auto
  ultimately have "ucdr_deserialize_endian cb ty (E ub) (m, ?ub) =
      (True, Some (cdr_bytes (E ub) (mem_read (ub_iterator ub + k * ?n) ?n m)), m,
       (move_iterator (Suc k * ?n) ub)\<lparr>ub_last_data_size := ?n\<rparr>)"
    using al by (simp add: ucdr_deserialize_endian_def deserialize_fits stored_def byte_cast_id
        item_at_def place_def move_iterator_def add.assoc add.commute)
  then show ?case
    using IH E by (simp add: deserialize_elements_Suc read_elements_def)
qed

lemma deserialize_array_fits:
  assumes "array_fits (type_size ty) k ub" "k \<noteq> 0" "endian_ok E"
  shows "UCDR_DESERIALIZE_ARRAY_BYTE cb ty E k (m, ub) =
    (True, map Some (concat (read_elements (E ub) (type_size ty) k (item_at (type_size ty) ub) m)), m,
     array_place (type_size ty) k ub)"
proof (cases "type_size ty = 1")
  case True
  with assms show ?thesis
    by (simp add: UCDR_DESERIALIZE_ARRAY_BYTE_def UCDR_DESERIALIZE_ARRAY_BYTE_1_def array_fits_def
        array_place_def item_at_def buffer_to_array_fits concat_read_elements_single untouched_tail_def)
next
  case False
  let ?n = "type_size ty" and ?a = "ucdr_buffer_alignment ub (type_size ty)"
  have n256: "?n mod 256 = ?n" by (cases ty) auto
  have E: "E (move_iterator ?a ub) = E ub"
    using endian_okD [OF assms(3), where ub = ub and l = "ub_last_data_size ub"]
    by (simp add: move_iterator_def)
  have el: "deserialize_elements cb ty E k (m, move_iterator ?a ub) =
    (map Some (concat (read_elements (E ub) ?n k (item_at ?n ub) m)), m, array_place ?n k ub)"
    using assms False alignment_after_padding [where n = "type_size ty" and ub = ub]
    by (subst deserialize_elements_fits)
      (simp_all add: array_fits_def item_at_def E array_place_def move_iterator_add)
  have adv: "ucdr_advance_buffer cb ?a (m, ub) = (m, (move_iterator ?a ub)\<lparr>ub_last_data_size := 1\<rparr>)"
    using assms by (simp add: array_fits_def item_at_def advance_room)
  have rst: "(move_iterator ?a ub)\<lparr>ub_last_data_size := ub_last_data_size ub\<rparr> = move_iterator ?a ub"
    by (simp add: move_iterator_def)
  show ?thesis
  proof (cases "UCDR_MACHINE_ENDIANNESS = E ub")
    case True
    with False assms show ?thesis
      by (simp add: UCDR_DESERIALIZE_ARRAY_BYTE_def UCDR_DESERIALIZE_ARRAY_BYTE_N_def adv rst E
          Let_def array_fits_def item_at_def buffer_to_array_fits n256 array_place_def
          move_iterator_add concat_read_elements_machine untouched_tail_def)
  next
    case neq: False
    with False assms show ?thesis
      by (simp add: UCDR_DESERIALIZE_ARRAY_BYTE_def UCDR_DESERIALIZE_ARRAY_BYTE_N_def adv rst E
          Let_def el array_place_def array_fits_def)
  qed
qed

text \<open>With the error flag raised nothing is stored, whatever the callback and the requested size.\<close>

lemma deserialize_elements_error:
  assumes "ub_error ub"
  shows "\<exists>ub'. deserialize_elements cb ty E k (m, ub) = (replicate (k * type_size ty) None, m, ub') \<and>
    ub_error ub'"
proof (induction k)
  case 0
  then show ?case using assms by (simp add: deserialize_elements_def)
next
  case (Suc k)
  then obtain ub' where "deserialize_elements cb ty E k (m, ub) =
      (replicate (k * type_size ty) None, m, ub')" "ub_error ub'" by blast
  then show ?case
    by (simp add: deserialize_elements_Suc ucdr_deserialize_endian_def deserialize_error
        replicate_add [symmetric] add.commute)
qed

lemma deserialize_array_error:
  assumes "ub_error ub"
  shows "\<exists>ub'. UCDR_DESERIALIZE_ARRAY_BYTE cb ty E k (m, ub) =
    (False, replicate (k * type_size ty) None, m, ub') \<and> ub_error ub'"
proof (cases "type_size ty = 1")
  case True
  with assms show ?thesis
    by (simp add: UCDR_DESERIALIZE_ARRAY_BYTE_def UCDR_DESERIALIZE_ARRAY_BYTE_1_def
        buffer_to_array_error untouched_tail_def)
next
  case False
  obtain ub' where el: "deserialize_elements cb ty E k (m, ub) =
      (replicate (k * type_size ty) None, m, ub')" "ub_error ub'"
    using deserialize_elements_error [OF assms] by blast
  with False assms show ?thesis
    by (simp add: UCDR_DESERIALIZE_ARRAY_BYTE_def UCDR_DESERIALIZE_ARRAY_BYTE_N_def Let_def
        advance_error buffer_to_array_error untouched_tail_def)
qed

end
