(* ===== verification/Ucdr_Sequence.thy ===== *)
theory Ucdr_Sequence
  imports Ucdr_Array
begin

text \<open>
  Sequences and strings, \<open>ucdr/types/sequence.c\<close> and \<open>ucdr/types/string.c\<close>: a 32-bit length
  followed by the elements. The C variable \<open>length\<close> a deserialiser stores into is an argument
  (\<open>length0\<close>, its contents before the call), because the code reads it again even when the length
  field could not be read. A C string is the list of its bytes before the terminating null.
\<close>

section \<open>Sequences\<close>

definition UCDR_SERIALIZE_SEQUENCE ::
    "on_full_env \<Rightarrow> ucdr_type \<Rightarrow> endian_expr \<Rightarrow> u8 list list \<Rightarrow> u32 \<Rightarrow> cdr_state \<Rightarrow> bool \<times> cdr_state" where
  "UCDR_SERIALIZE_SEQUENCE cb ty ENDIAN array len s =
     (let s1 = snd (ucdr_serialize_endian cb T_uint32_t (ENDIAN (snd s)) (le_bytes 4 len) s)
      in if len = 0 then (True, s1)
         else ucdr_serialize_endian_array cb ty (ENDIAN (snd s1)) (take (unat len) array) s1)"

definition ucdr_serialize_sequence ::
    "on_full_env \<Rightarrow> ucdr_type \<Rightarrow> u8 list list \<Rightarrow> u32 \<Rightarrow> cdr_state \<Rightarrow> bool \<times> cdr_state" where
  "ucdr_serialize_sequence cb ty array len s =
     UCDR_SERIALIZE_SEQUENCE cb ty ub_endianness array len s"

definition ucdr_serialize_endian_sequence ::
    "on_full_env \<Rightarrow> ucdr_type \<Rightarrow> ucdrEndianness \<Rightarrow> u8 list list \<Rightarrow> u32 \<Rightarrow> cdr_state \<Rightarrow> bool \<times> cdr_state" where
  "ucdr_serialize_endian_sequence cb ty endianness array len s =
     UCDR_SERIALIZE_SEQUENCE cb ty (\<lambda>_. endianness) array len s"

definition ucdr_deserialize_sequence_header ::
    "on_full_env \<Rightarrow> ucdrEndianness \<Rightarrow> nat \<Rightarrow> u32 \<Rightarrow> cdr_state \<Rightarrow> u32 \<times> cdr_state" where
  "ucdr_deserialize_sequence_header cb endianness capacity length0 s =
     (case ucdr_deserialize_endian cb T_uint32_t endianness s of (ok, v, m, ub) \<Rightarrow>
        let len = (case v of Some bs \<Rightarrow> le_word bs | None \<Rightarrow> length0)
        in (len, m, if capacity < unat len then ub\<lparr>ub_error := True\<rparr> else ub))"

definition UCDR_DESERIALIZE_SEQUENCE ::
    "on_full_env \<Rightarrow> ucdr_type \<Rightarrow> endian_expr \<Rightarrow> nat \<Rightarrow> u32 \<Rightarrow> cdr_state \<Rightarrow>
     bool \<times> u8 option list \<times> u32 \<times> cdr_state" where
  "UCDR_DESERIALIZE_SEQUENCE cb ty ENDIAN array_capacity length0 s =
     (case ucdr_deserialize_sequence_header cb (ENDIAN (snd s)) array_capacity length0 s of (len, s1) \<Rightarrow>
        if len = 0 then (True, [], len, s1)
        else (case ucdr_deserialize_endian_array cb ty (ENDIAN (snd s1)) (unat len) s1 of
                (ok, array, s2) \<Rightarrow> (ok, array, len, s2)))"

definition ucdr_deserialize_sequence ::
    "on_full_env \<Rightarrow> ucdr_type \<Rightarrow> nat \<Rightarrow> u32 \<Rightarrow> cdr_state \<Rightarrow> bool \<times> u8 option list \<times> u32 \<times> cdr_state" where
  "ucdr_deserialize_sequence cb ty array_capacity length0 s =
     UCDR_DESERIALIZE_SEQUENCE cb ty ub_endianness array_capacity length0 s"

definition ucdr_deserialize_endian_sequence ::
    "on_full_env \<Rightarrow> ucdr_type \<Rightarrow> ucdrEndianness \<Rightarrow> nat \<Rightarrow> u32 \<Rightarrow> cdr_state \<Rightarrow>
     bool \<times> u8 option list \<times> u32 \<times> cdr_state" where
  "ucdr_deserialize_endian_sequence cb ty endianness array_capacity length0 s =
     UCDR_DESERIALIZE_SEQUENCE cb ty (\<lambda>_. endianness) array_capacity length0 s"

section \<open>Strings\<close>

definition char_array :: "u8 list \<Rightarrow> u8 list list" where
  "char_array str = map (\<lambda>c. [c]) (str @ [0])"

definition ucdr_serialize_string :: "on_full_env \<Rightarrow> u8 list \<Rightarrow> cdr_state \<Rightarrow> bool \<times> cdr_state" where
  "ucdr_serialize_string cb str s =
     ucdr_serialize_sequence cb T_char (char_array str) (of_nat (length str) + 1) s"

definition ucdr_serialize_endian_string ::
    "on_full_env \<Rightarrow> ucdrEndianness \<Rightarrow> u8 list \<Rightarrow> cdr_state \<Rightarrow> bool \<times> cdr_state" where
  "ucdr_serialize_endian_string cb endianness str s =
     ucdr_serialize_endian_sequence cb T_char endianness (char_array str) (of_nat (length str) + 1) s"

definition ucdr_deserialize_string ::
    "on_full_env \<Rightarrow> nat \<Rightarrow> u32 \<Rightarrow> cdr_state \<Rightarrow> bool \<times> u8 option list \<times> cdr_state" where
  "ucdr_deserialize_string cb string_capacity length0 s =
     (case ucdr_deserialize_sequence cb T_char string_capacity length0 s of
        (ok, array, len, s') \<Rightarrow> (ok, array, s'))"

definition ucdr_deserialize_endian_string ::
    "on_full_env \<Rightarrow> ucdrEndianness \<Rightarrow> nat \<Rightarrow> u32 \<Rightarrow> cdr_state \<Rightarrow> bool \<times> u8 option list \<times> cdr_state" where
  "ucdr_deserialize_endian_string cb endianness string_capacity length0 s =
     (case ucdr_deserialize_endian_sequence cb T_char endianness string_capacity length0 s of
        (ok, array, len, s') \<Rightarrow> (ok, array, s'))"

section \<open>Behaviour on a fixed buffer\<close>

text \<open>
  Where the elements of a sequence go: after the padded length field, with the padding of their
  own size. \<open>sequence_fits\<close> says that all of it is inside the buffer.
\<close>

definition sequence_fits :: "nat \<Rightarrow> nat \<Rightarrow> ucdrBuffer \<Rightarrow> bool" where
  "sequence_fits n k ub \<longleftrightarrow> fits 4 ub \<and> (k = 0 \<or> array_fits n k (place 4 ub))"

definition sequence_place :: "nat \<Rightarrow> nat \<Rightarrow> ucdrBuffer \<Rightarrow> ucdrBuffer" where
  "sequence_place n k ub = (if k = 0 then place 4 ub else array_place n k (place 4 ub))"

definition sequence_mem ::
    "ucdrEndianness \<Rightarrow> nat \<Rightarrow> u8 list list \<Rightarrow> ucdrBuffer \<Rightarrow> mem \<Rightarrow> mem" where
  "sequence_mem e n array ub m =
     mem_write (item_at n (place 4 ub)) (array_bytes e array)
       (mem_write (item_at 4 ub) (cdr_bytes e (le_bytes 4 (of_nat (length array) :: u32))) m)"

lemma endian_ok_place: "endian_ok E \<Longrightarrow> E (place n ub) = E ub"
  by (simp add: place_def move_iterator_def endian_okD)

lemma serialize_length_fits:
  assumes "fits 4 ub"
  shows "ucdr_serialize_endian cb T_uint32_t e (le_bytes 4 w) (m, ub) =
    (True, mem_write (item_at 4 ub) (cdr_bytes e (le_bytes 4 w)) m, place 4 ub)"
  using assms serialize_fits [of T_uint32_t ub "le_bytes 4 w" "\<lambda>_. e" cb m]
  by (simp add: ucdr_serialize_endian_def)

lemma deserialize_length_fits:
  assumes "fits 4 ub"
  shows "ucdr_deserialize_endian cb T_uint32_t e (m, ub) =
    (True, Some (cdr_bytes e (mem_read (item_at 4 ub) 4 m)), m, place 4 ub)"
  using assms deserialize_fits [of T_uint32_t ub "\<lambda>_. e" cb m]
  by (simp add: ucdr_deserialize_endian_def stored_def byte_cast_id)

lemma serialize_sequence_fits:
  assumes "sequence_fits (type_size ty) (length array) ub" "length array < 2 ^ 32"
    and "\<forall>v \<in> set array. length v = type_size ty" "endian_ok E"
  shows "UCDR_SERIALIZE_SEQUENCE cb ty E array (of_nat (length array)) (m, ub) =
    (True, sequence_mem (E ub) (type_size ty) array ub m,
     sequence_place (type_size ty) (length array) ub)"
proof (cases "array = []")
  case True
  with assms show ?thesis
    by (simp add: UCDR_SERIALIZE_SEQUENCE_def serialize_length_fits sequence_fits_def
        sequence_mem_def sequence_place_def array_bytes_def)
next
  case False
  have len: "unat (of_nat (length array) :: u32) = length array"
    using assms(2) by (simp add: unat_of_nat_less)
  then have nz: "(of_nat (length array) :: u32) \<noteq> 0"
    using False by (metis length_0_conv unat_0)
  have "UCDR_SERIALIZE_ARRAY_BYTE cb ty (\<lambda>_. E ub) array (m1, place 4 ub) =
    (True, mem_write (item_at (type_size ty) (place 4 ub)) (array_bytes (E ub) array) m1,
     array_place (type_size ty) (length array) (place 4 ub))" for m1
    using assms False by (subst serialize_array_fits) (simp_all add: sequence_fits_def)
  with assms False nz show ?thesis
    by (simp add: UCDR_SERIALIZE_SEQUENCE_def serialize_length_fits sequence_fits_def len
        sequence_mem_def sequence_place_def ucdr_serialize_endian_array_def endian_ok_place)
qed

lemma deserialize_sequence_fits:
  assumes "sequence_fits (type_size ty) k ub" "endian_ok E"
    and len: "le_word (cdr_bytes (E ub) (mem_read (item_at 4 ub) 4 m)) = (of_nat k :: u32)"
    and k: "k < 2 ^ 32" "k \<le> capacity"
  shows "UCDR_DESERIALIZE_SEQUENCE cb ty E capacity length0 (m, ub) =
    (True, map Some (concat (read_elements (E ub) (type_size ty) k (item_at (type_size ty) (place 4 ub)) m)),
     of_nat k, m, sequence_place (type_size ty) k ub)"
proof -
  have unat_k: "unat (of_nat k :: u32) = k" using k(1) by (simp add: unat_of_nat_less)
  have hd: "ucdr_deserialize_sequence_header cb (E ub) capacity length0 (m, ub) =
      (of_nat k, m, place 4 ub)"
    using assms(1) k(2)
    by (simp add: ucdr_deserialize_sequence_header_def sequence_fits_def deserialize_length_fits
        len unat_k)
  show ?thesis
  proof (cases "k = 0")
    case True
    with hd show ?thesis
      by (simp add: UCDR_DESERIALIZE_SEQUENCE_def read_elements_def sequence_place_def)
  next
    case False
    then have nz: "(of_nat k :: u32) \<noteq> 0" using unat_k by (metis unat_0)
    have "UCDR_DESERIALIZE_ARRAY_BYTE cb ty (\<lambda>_. E ub) k (m, place 4 ub) =
      (True, map Some (concat (read_elements (E ub) (type_size ty) k
                                 (item_at (type_size ty) (place 4 ub)) m)), m,
       array_place (type_size ty) k (place 4 ub))"
      using assms False by (subst deserialize_array_fits) (simp_all add: sequence_fits_def)
    with hd False nz assms(2) show ?thesis
      by (simp add: UCDR_DESERIALIZE_SEQUENCE_def unat_k ucdr_deserialize_endian_array_def
          endian_ok_place sequence_place_def)
  qed
qed

lemma item_at_place: "item_at n (place 4 ub) \<ge> item_at 4 ub + 4"
  using item_at_ge [of "place 4 ub" n] by simp

lemma sequence_mem_length:
  assumes "\<forall>a. item_at 4 ub \<le> a \<and> a < item_at 4 ub + 4 \<longrightarrow> m' a = sequence_mem e n array ub m a"
  shows "mem_read (item_at 4 ub) 4 m' = cdr_bytes e (le_bytes 4 (of_nat (length array) :: u32))"
proof -
  have "mem_read (item_at 4 ub) 4 m' = mem_read (item_at 4 ub) 4 (sequence_mem e n array ub m)"
    using assms by (intro mem_read_eqI) simp
  also have "\<dots> = cdr_bytes e (le_bytes 4 (of_nat (length array) :: u32))"
    unfolding sequence_mem_def
    by (subst mem_read_write_disjoint) (use item_at_place in \<open>simp_all add: mem_read_write_same\<close>)
  finally show ?thesis .
qed

lemma sequence_mem_elements:
  assumes "\<forall>v \<in> set array. length v = n"
  shows "read_elements e n (length array) (item_at n (place 4 ub)) (sequence_mem e n array ub m) = array"
  unfolding sequence_mem_def using assms by (intro read_elements_write) simp_all

end
