(* ===== verification/Cdr_Codec.thy ===== *)
theory Cdr_Codec
  imports Ucdr_Sequence
begin

text \<open>
  The contract every CDR serialiser offers its callers, as a locale, and its interpretations on the
  routines of the library: basic types, arrays, sequences and strings, in the buffer's endianness
  and in an explicit one. What a client proves from the contract (pairs and lists of items) is
  proved once, inside the locales.
\<close>

section \<open>The contract\<close>

definition fixed_buffer :: "ucdrBuffer \<Rightarrow> bool" where
  "fixed_buffer ub \<longleftrightarrow> ub_wf ub \<and> ub_on_full_buffer ub = None"

text \<open>A callback environment for buffers without a callback: the code behind the pointer is never run.\<close>

definition no_callback :: on_full_env where
  "no_callback f args s = (True, s)"

text \<open>
  A safe step only moves forward inside the buffer, keeps its bounds and its endianness, never
  clears an error, and changes no byte of memory outside the part it moved over.
\<close>

definition safe_step :: "cdr_state \<Rightarrow> cdr_state \<Rightarrow> bool" where
  "safe_step s s' \<longleftrightarrow>
     (case s of (m, ub) \<Rightarrow> case s' of (m', ub') \<Rightarrow>
        fixed_buffer ub' \<and> ub_init ub' = ub_init ub \<and> ub_final ub' = ub_final ub \<and>
        ub_endianness ub' = ub_endianness ub \<and> ub_origin ub' = ub_origin ub \<and>
        ub_args ub' = ub_args ub \<and> ub_iterator ub \<le> ub_iterator ub' \<and>
        (ub_error ub \<longrightarrow> ub_error ub') \<and>
        (\<forall>a. a < ub_iterator ub \<or> ub_iterator ub' \<le> a \<longrightarrow> m' a = m a))"

text \<open>
  What was written may be read back from somewhere else: \<open>transferred ub (m', ub') (m'', ubr)\<close> says
  that \<open>ubr\<close> stands where \<open>ub\<close> stood (same offset, same last item, same endianness) and that the
  bytes between \<open>ub\<close> and \<open>ub'\<close> are found from there on in the memory \<open>m''\<close>. Reading then moves
  \<open>ubr\<close> the way writing moved \<open>ub\<close>.
\<close>

definition transferred :: "ucdrBuffer \<Rightarrow> cdr_state \<Rightarrow> cdr_state \<Rightarrow> bool" where
  "transferred ub s' r \<longleftrightarrow>
     (case s' of (m', ub') \<Rightarrow> case r of (m'', ubr) \<Rightarrow>
        ub_offset ubr = ub_offset ub \<and> ub_last_data_size ubr = ub_last_data_size ub \<and>
        ub_endianness ubr = ub_endianness ub \<and> \<not> ub_error ubr \<and>
        ub_iterator ubr + (ub_iterator ub' - ub_iterator ub) \<le> ub_final ubr \<and>
        (\<forall>i < ub_iterator ub' - ub_iterator ub. m'' (ub_iterator ubr + i) = m' (ub_iterator ub + i)))"

definition moved :: "ucdrBuffer \<Rightarrow> ucdrBuffer \<Rightarrow> ucdrBuffer \<Rightarrow> ucdrBuffer" where
  "moved ub ub' ubr =
     ubr\<lparr>ub_iterator := ub_iterator ubr + (ub_iterator ub' - ub_iterator ub),
         ub_offset := ub_offset ub', ub_last_data_size := ub_last_data_size ub'\<rparr>"

lemma safe_step_refl: "fixed_buffer ub \<Longrightarrow> safe_step (m, ub) (m, ub)"
  by (simp add: safe_step_def)

lemma safe_step_trans: "safe_step s s' \<Longrightarrow> safe_step s' s'' \<Longrightarrow> safe_step s s''"
  by (fastforce simp: safe_step_def split: prod.splits)

lemma safe_step_fixed: "safe_step s (m', ub') \<Longrightarrow> fixed_buffer ub'"
  by (auto simp: safe_step_def split: prod.splits)

lemma safe_step_error: "safe_step (m, ub) (m', ub') \<Longrightarrow> \<not> ub_error ub' \<Longrightarrow> \<not> ub_error ub"
  by (simp add: safe_step_def)

lemma moved_trans:
  "ub_iterator ub \<le> ub_iterator ub1 \<Longrightarrow> ub_iterator ub1 \<le> ub_iterator ub' \<Longrightarrow>
   moved ub1 ub' (moved ub ub1 ubr) = moved ub ub' ubr"
  by (simp add: moved_def)

lemma moved_self:
  assumes "safe_step (m, ub) (m', ub')" "\<not> ub_error ub'" "fixed_buffer ub"
  shows "moved ub ub' ub = ub'"
  using assms by (simp add: moved_def safe_step_def fixed_buffer_def)

lemma transferred_self:
  assumes "safe_step (m, ub) (m', ub')" "\<not> ub_error ub'"
  shows "transferred ub (m', ub') (m', ub)"
  using assms by (auto simp: transferred_def safe_step_def fixed_buffer_def ub_wf_def)

lemma transferred_fst:
  assumes "safe_step (m, ub) (m1, ub1)" "safe_step (m1, ub1) (m', ub')"
    and "transferred ub (m', ub') (m'', ubr)"
  shows "transferred ub (m1, ub1) (m'', ubr)"
  using assms by (auto simp: transferred_def safe_step_def)

lemma transferred_snd:
  assumes st: "safe_step (m, ub) (m1, ub1)" "safe_step (m1, ub1) (m', ub')"
    and tr: "transferred ub (m', ub') (m'', ubr)"
  shows "transferred ub1 (m', ub') (m'', moved ub ub1 ubr)"
proof -
  have "m'' (ub_iterator ubr + (ub_iterator ub1 - ub_iterator ub) + i) = m' (ub_iterator ub1 + i)"
    if "i < ub_iterator ub' - ub_iterator ub1" for i
  proof -
    have "(ub_iterator ub1 - ub_iterator ub) + i < ub_iterator ub' - ub_iterator ub"
      using that st by (auto simp: safe_step_def)
    with tr have "m'' (ub_iterator ubr + ((ub_iterator ub1 - ub_iterator ub) + i)) =
        m' (ub_iterator ub + ((ub_iterator ub1 - ub_iterator ub) + i))"
      unfolding transferred_def by blast
    with st show ?thesis by (simp add: safe_step_def ac_simps)
  qed
  with st tr show ?thesis by (simp add: transferred_def safe_step_def moved_def)
qed

locale cdr_codec =
  fixes ser :: "'a \<Rightarrow> cdr_state \<Rightarrow> cdr_state"
    and deser :: "cdr_state \<Rightarrow> 'a option \<times> cdr_state"
    and valid :: "'a \<Rightarrow> bool"
  assumes ser_safe: "fixed_buffer ub \<Longrightarrow> valid x \<Longrightarrow> safe_step (m, ub) (ser x (m, ub))"
    and deser_ser: "fixed_buffer ub \<Longrightarrow> valid x \<Longrightarrow> ser x (m, ub) = (m', ub') \<Longrightarrow> \<not> ub_error ub' \<Longrightarrow>
      transferred ub (m', ub') (m'', ubr) \<Longrightarrow> deser (m'', ubr) = (Some x, m'', moved ub ub' ubr)"
begin

lemma ser_frame:
  assumes "fixed_buffer ub" "valid x" "ser x (m, ub) = (m', ub')"
    and "a < ub_init ub \<or> ub_final ub \<le> a"
  shows "m' a = m a"
  using assms ser_safe [of ub x m] by (auto simp: safe_step_def fixed_buffer_def ub_wf_def)

lemma round_trip:
  assumes "fixed_buffer ub" "valid x" "ser x (m, ub) = (m', ub')" "\<not> ub_error ub'"
  shows "deser (m', ub) = (Some x, m', ub')"
proof -
  have st: "safe_step (m, ub) (m', ub')" using ser_safe [OF assms(1,2), of m] assms(3) by simp
  show ?thesis
    using deser_ser [OF assms transferred_self [OF st assms(4)]] moved_self [OF st assms(4,1)] by simp
qed

end

section \<open>Items one after the other\<close>

definition pair_ser ::
    "('a \<Rightarrow> cdr_state \<Rightarrow> cdr_state) \<Rightarrow> ('b \<Rightarrow> cdr_state \<Rightarrow> cdr_state) \<Rightarrow> 'a \<times> 'b \<Rightarrow> cdr_state \<Rightarrow> cdr_state" where
  "pair_ser f g p s = g (snd p) (f (fst p) s)"

definition pair_deser ::
    "(cdr_state \<Rightarrow> 'a option \<times> cdr_state) \<Rightarrow> (cdr_state \<Rightarrow> 'b option \<times> cdr_state) \<Rightarrow>
     cdr_state \<Rightarrow> ('a \<times> 'b) option \<times> cdr_state" where
  "pair_deser f g s =
     (case f s of
        (None, s1) \<Rightarrow> (None, s1)
      | (Some x, s1) \<Rightarrow> (case g s1 of (None, s2) \<Rightarrow> (None, s2) | (Some y, s2) \<Rightarrow> (Some (x, y), s2)))"

locale cdr_codec_pair =
  fst: cdr_codec ser1 deser1 valid1 + snd: cdr_codec ser2 deser2 valid2
  for ser1 :: "'a \<Rightarrow> cdr_state \<Rightarrow> cdr_state" and deser1 valid1
    and ser2 :: "'b \<Rightarrow> cdr_state \<Rightarrow> cdr_state" and deser2 valid2
begin

lemma pair_safe:
  assumes "fixed_buffer ub" "valid1 (fst p)" "valid2 (snd p)"
  shows "safe_step (m, ub) (pair_ser ser1 ser2 p (m, ub))"
proof -
  obtain m1 ub1 where s1: "ser1 (fst p) (m, ub) = (m1, ub1)" by fastforce
  have st: "safe_step (m, ub) (m1, ub1)"
    using fst.ser_safe [OF assms(1,2), of m] s1 by simp
  then have "safe_step (m1, ub1) (ser2 (snd p) (m1, ub1))"
    using assms(3) by (intro snd.ser_safe safe_step_fixed)
  with st show ?thesis by (auto simp: pair_ser_def s1 intro: safe_step_trans)
qed

lemma pair_deser_ser:
  assumes "fixed_buffer ub" "valid1 (fst p)" "valid2 (snd p)"
    and ser: "pair_ser ser1 ser2 p (m, ub) = (m', ub')" and ok: "\<not> ub_error ub'"
    and tr: "transferred ub (m', ub') (m'', ubr)"
  shows "pair_deser deser1 deser2 (m'', ubr) = (Some p, m'', moved ub ub' ubr)"
proof -
  obtain m1 ub1 where s1: "ser1 (fst p) (m, ub) = (m1, ub1)" by fastforce
  have st1: "safe_step (m, ub) (m1, ub1)"
    using fst.ser_safe [OF assms(1,2), of m] s1 by simp
  then have fix1: "fixed_buffer ub1" by (rule safe_step_fixed)
  have s2: "ser2 (snd p) (m1, ub1) = (m', ub')"
    using ser s1 by (simp add: pair_ser_def)
  have st2: "safe_step (m1, ub1) (m', ub')"
    using snd.ser_safe [OF fix1 assms(3), of m1] s2 by simp
  have ok1: "\<not> ub_error ub1" using st2 ok by (rule safe_step_error)
  have d1: "deser1 (m'', ubr) = (Some (fst p), m'', moved ub ub1 ubr)"
    using assms(1,2) s1 ok1 transferred_fst [OF st1 st2 tr] by (rule fst.deser_ser)
  have "deser2 (m'', moved ub ub1 ubr) = (Some (snd p), m'', moved ub1 ub' (moved ub ub1 ubr))"
    using fix1 assms(3) s2 ok transferred_snd [OF st1 st2 tr] by (rule snd.deser_ser)
  then have d2: "deser2 (m'', moved ub ub1 ubr) = (Some (snd p), m'', moved ub ub' ubr)"
    using st1 st2 by (simp add: moved_trans safe_step_def)
  show ?thesis by (simp add: pair_deser_def d1 d2)
qed

lemma pair_codec:
  "cdr_codec (pair_ser ser1 ser2) (pair_deser deser1 deser2) (\<lambda>p. valid1 (fst p) \<and> valid2 (snd p))"
  by unfold_locales (blast intro: pair_safe, blast intro: pair_deser_ser)

end

sublocale cdr_codec_pair \<subseteq> both: cdr_codec "pair_ser ser1 ser2" "pair_deser deser1 deser2"
  "\<lambda>p. valid1 (fst p) \<and> valid2 (snd p)"
  by (rule pair_codec)

text \<open>A fixed number of items of the same kind.\<close>

definition list_ser :: "('a \<Rightarrow> cdr_state \<Rightarrow> cdr_state) \<Rightarrow> 'a list \<Rightarrow> cdr_state \<Rightarrow> cdr_state" where
  "list_ser f xs s = fold f xs s"

primrec list_deser ::
    "(cdr_state \<Rightarrow> 'a option \<times> cdr_state) \<Rightarrow> nat \<Rightarrow> cdr_state \<Rightarrow> 'a list option \<times> cdr_state" where
  "list_deser f 0 s = (Some [], s)"
| "list_deser f (Suc n) s =
     (case f s of
        (None, s1) \<Rightarrow> (None, s1)
      | (Some x, s1) \<Rightarrow> (case list_deser f n s1 of (None, s2) \<Rightarrow> (None, s2) | (Some xs, s2) \<Rightarrow> (Some (x # xs), s2)))"

context cdr_codec
begin

lemma list_safe:
  "fixed_buffer ub \<Longrightarrow> \<forall>x \<in> set xs. valid x \<Longrightarrow> safe_step (m, ub) (list_ser ser xs (m, ub))"
proof (induction xs arbitrary: m ub)
  case Nil
  then show ?case by (simp add: list_ser_def safe_step_refl)
next
  case (Cons x xs)
  obtain m1 ub1 where s1: "ser x (m, ub) = (m1, ub1)" by fastforce
  have st: "safe_step (m, ub) (m1, ub1)"
    using ser_safe [of ub x m] Cons.prems s1 by simp
  have "safe_step (m1, ub1) (list_ser ser xs (m1, ub1))"
    using Cons.prems safe_step_fixed [OF st] by (intro Cons.IH) auto
  with st show ?case by (auto simp: list_ser_def s1 intro: safe_step_trans)
qed

lemma list_deser_ser:
  assumes "fixed_buffer ub" "\<forall>x \<in> set xs. valid x" "list_ser ser xs (m, ub) = (m', ub')"
    and "\<not> ub_error ub'" "transferred ub (m', ub') (m'', ubr)"
  shows "list_deser deser (length xs) (m'', ubr) = (Some xs, m'', moved ub ub' ubr)"
  using assms
proof (induction xs arbitrary: m ub ubr)
  case Nil
  then show ?case by (simp add: list_ser_def moved_def transferred_def)
next
  case (Cons x xs)
  obtain m1 ub1 where s1: "ser x (m, ub) = (m1, ub1)" by fastforce
  have st1: "safe_step (m, ub) (m1, ub1)"
    using ser_safe [of ub x m] Cons.prems s1 by simp
  then have fix1: "fixed_buffer ub1" by (rule safe_step_fixed)
  have s2: "list_ser ser xs (m1, ub1) = (m', ub')"
    using Cons.prems(3) s1 by (simp add: list_ser_def)
  have st2: "safe_step (m1, ub1) (m', ub')"
    using list_safe [OF fix1, of xs m1] Cons.prems(2) s2 by simp
  have ok1: "\<not> ub_error ub1" using st2 Cons.prems(4) by (rule safe_step_error)
  have d1: "deser (m'', ubr) = (Some x, m'', moved ub ub1 ubr)"
    using Cons.prems(2) by (intro deser_ser [OF Cons.prems(1) _ s1 ok1 transferred_fst [OF st1 st2 Cons.prems(5)]]) simp
  have "list_deser deser (length xs) (m'', moved ub ub1 ubr) = (Some xs, m'', moved ub1 ub' (moved ub ub1 ubr))"
    using Cons.prems(2) by (intro Cons.IH [OF fix1 _ s2 Cons.prems(4) transferred_snd [OF st1 st2 Cons.prems(5)]]) simp
  with d1 st1 st2 show ?case by (simp add: moved_trans safe_step_def)
qed

end

section \<open>Safety of every routine\<close>

lemma safe_step_last [simp]:
  "safe_step s (m', ub'\<lparr>ub_last_data_size := l\<rparr>) \<longleftrightarrow> safe_step s (m', ub')"
  by (auto simp: safe_step_def fixed_buffer_def ub_wf_def split: prod.splits)

lemma safe_step_last_from [simp]:
  "safe_step (m, ub\<lparr>ub_last_data_size := l\<rparr>) s' \<longleftrightarrow> safe_step (m, ub) s'"
  by (auto simp: safe_step_def split: prod.splits)

lemma next_buffer_iterator: "ub_wf ub \<Longrightarrow> ub_iterator ub \<le> ub_iterator (next_buffer n ub)"
  by (auto simp: next_buffer_def overrun_def item_at_def)

lemma next_buffer_fits_iterator: "fits n ub \<Longrightarrow> ub_iterator (next_buffer n ub) = item_at n ub + n"
  by (simp add: next_buffer_fits)

lemma basic_safe:
  assumes "fixed_buffer ub" "length v = type_size ty" "endian_ok E"
  shows "safe_step (m, ub) (snd (UCDR_SERIALIZE_BYTE cb ty E v (m, ub)))"
  using assms item_at_ge [of ub "type_size ty"]
  by (auto simp: serialize_step fixed_buffer_def safe_step_def ub_wf_next next_buffer_iterator
      next_buffer_fits_iterator mem_write_outside fits_def)

lemma advance_safe: "fixed_buffer ub \<Longrightarrow> safe_step (m, ub) (ucdr_advance_buffer cb n (m, ub))"
  by (cases "ub_error ub"; cases "ub_iterator ub + n \<le> ub_final ub")
    (auto simp: advance_simps fixed_buffer_def safe_step_def ub_wf_def)

lemma array_to_buffer_safe:
  assumes "fixed_buffer ub" "length array = sz"
  shows "safe_step (m, ub) (ucdr_array_to_buffer cb array sz d (m, ub))"
proof (cases "ub_error ub")
  case True
  with assms show ?thesis by (simp add: array_to_buffer_error safe_step_refl)
next
  case False
  with assms show ?thesis
    by (cases "ub_iterator ub + sz \<le> ub_final ub")
      (auto simp: array_to_buffer_fits array_to_buffer_short fixed_buffer_def safe_step_def ub_wf_def
        mem_write_outside)
qed

lemma elements_safe:
  assumes "fixed_buffer ub" "\<forall>v \<in> set array. length v = type_size ty"
  shows "safe_step (m, ub) (serialize_elements cb ty E array (m, ub))"
  using assms
proof (induction array arbitrary: m ub)
  case Nil
  then show ?case by (simp add: serialize_elements_def safe_step_refl)
next
  case (Cons v array)
  obtain m1 ub1 where s1: "snd (ucdr_serialize_endian cb ty (E ub) v (m, ub)) = (m1, ub1)"
    by fastforce
  have st: "safe_step (m, ub) (m1, ub1)"
    using Cons.prems basic_safe [of ub v ty "\<lambda>_. E ub" m cb] s1 by (simp add: ucdr_serialize_endian_def)
  have "safe_step (m1, ub1) (serialize_elements cb ty E array (m1, ub1))"
    using Cons.prems safe_step_fixed [OF st] by (intro Cons.IH) auto
  with st s1 show ?case by (auto simp: serialize_elements_def intro: safe_step_trans)
qed

text \<open>What \<open>UCDR_SERIALIZE_ARRAY_BYTE_N\<close> does once the padding is skipped.\<close>

definition array_body ::
    "on_full_env \<Rightarrow> ucdr_type \<Rightarrow> endian_expr \<Rightarrow> u8 list list \<Rightarrow> cdr_state \<Rightarrow> cdr_state" where
  "array_body cb ty E array s =
     (if UCDR_MACHINE_ENDIANNESS = E (snd s)
      then ucdr_array_to_buffer cb (concat array) (length array * type_size ty) (type_size ty) s
      else serialize_elements cb ty E array s)"

lemma array_N_body:
  assumes "type_size ty \<noteq> 1"
    and "ucdr_advance_buffer cb (ucdr_buffer_alignment ub (type_size ty)) (m, ub) = (m1, ub1)"
  shows "snd (UCDR_SERIALIZE_ARRAY_BYTE cb ty E array (m, ub)) =
    array_body cb ty E array (m1, ub1\<lparr>ub_last_data_size := ub_last_data_size ub\<rparr>)"
  using assms
  by (simp add: UCDR_SERIALIZE_ARRAY_BYTE_def UCDR_SERIALIZE_ARRAY_BYTE_N_def array_body_def Let_def)

lemma fixed_buffer_last [simp]: "fixed_buffer (ub\<lparr>ub_last_data_size := l\<rparr>) = fixed_buffer ub"
  by (simp add: fixed_buffer_def ub_wf_def)

lemma array_body_safe:
  assumes "fixed_buffer ub" "\<forall>v \<in> set array. length v = type_size ty"
  shows "safe_step (m, ub) (array_body cb ty E array (m, ub))"
  using assms by (simp add: array_body_def array_to_buffer_safe elements_safe length_concat_const)

lemma array_safe:
  assumes "fixed_buffer ub" "\<forall>v \<in> set array. length v = type_size ty"
  shows "safe_step (m, ub) (snd (UCDR_SERIALIZE_ARRAY_BYTE cb ty E array (m, ub)))"
proof (cases "type_size ty = 1")
  case True
  with assms show ?thesis
    by (simp add: UCDR_SERIALIZE_ARRAY_BYTE_def UCDR_SERIALIZE_ARRAY_BYTE_1_def Let_def
        array_to_buffer_safe length_concat_const [where n = "Suc 0"])
next
  case False
  obtain m1 ub1 where adv: "ucdr_advance_buffer cb (ucdr_buffer_alignment ub (type_size ty)) (m, ub) = (m1, ub1)"
    by fastforce
  have st: "safe_step (m, ub) (m1, ub1)" using advance_safe [OF assms(1)] adv by metis
  have "safe_step (m1, ub1\<lparr>ub_last_data_size := ub_last_data_size ub\<rparr>)
      (array_body cb ty E array (m1, ub1\<lparr>ub_last_data_size := ub_last_data_size ub\<rparr>))"
    using safe_step_fixed [OF st] assms(2) by (intro array_body_safe) simp_all
  with st show ?thesis by (auto simp: array_N_body [OF False adv] intro: safe_step_trans)
qed

lemma sequence_safe:
  assumes "fixed_buffer ub" "\<forall>v \<in> set array. length v = type_size ty"
  shows "safe_step (m, ub) (snd (UCDR_SERIALIZE_SEQUENCE cb ty E array len (m, ub)))"
proof -
  obtain m1 ub1 where s1: "snd (ucdr_serialize_endian cb T_uint32_t (E ub) (le_bytes 4 len) (m, ub)) = (m1, ub1)"
    by fastforce
  have st: "safe_step (m, ub) (m1, ub1)"
    using basic_safe [OF assms(1), of "le_bytes 4 len" T_uint32_t "\<lambda>_. E ub" m cb] s1
    by (simp add: ucdr_serialize_endian_def)
  have "safe_step (m1, ub1) (snd (UCDR_SERIALIZE_ARRAY_BYTE cb ty E' (take (unat len) array) (m1, ub1)))" for E'
    using safe_step_fixed [OF st] assms(2) by (intro array_safe) (auto dest: in_set_takeD)
  with st s1 show ?thesis
    by (auto simp: UCDR_SERIALIZE_SEQUENCE_def ucdr_serialize_endian_array_def Let_def
        intro: safe_step_trans)
qed

section \<open>No error means that everything fitted\<close>

lemma basic_ok_fits:
  assumes "fixed_buffer ub" "length v = type_size ty" "endian_ok E"
    and "snd (UCDR_SERIALIZE_BYTE cb ty E v (m, ub)) = (m', ub')" "\<not> ub_error ub'"
  shows "fits (type_size ty) ub"
  using assms by (auto simp: serialize_step fixed_buffer_def)

lemma elements_ok_fits:
  assumes "fixed_buffer ub" "\<forall>v \<in> set array. length v = type_size ty"
    and "ucdr_buffer_alignment ub (type_size ty) = 0"
    and "serialize_elements cb ty E array (m, ub) = (m', ub')" "\<not> ub_error ub'"
  shows "ub_iterator ub + length array * type_size ty \<le> ub_final ub"
  using assms
proof (induction array arbitrary: m ub)
  case Nil
  then show ?case by (simp add: fixed_buffer_def ub_wf_def)
next
  case (Cons v array)
  let ?n = "type_size ty"
  obtain m1 ub1 where s1: "snd (ucdr_serialize_endian cb ty (E ub) v (m, ub)) = (m1, ub1)"
    by fastforce
  have st: "safe_step (m, ub) (m1, ub1)"
    using Cons.prems basic_safe [of ub v ty "\<lambda>_. E ub" m cb] s1 by (simp add: ucdr_serialize_endian_def)
  have s2: "serialize_elements cb ty E array (m1, ub1) = (m', ub')"
    using Cons.prems(4) s1 by (simp add: serialize_elements_def)
  then have "\<not> ub_error ub1"
    using elements_safe [OF safe_step_fixed [OF st], of array ty m1 cb E] Cons.prems safe_step_error
    by fastforce
  then have fit: "fits ?n ub"
    using Cons.prems s1 basic_ok_fits [of ub v ty "\<lambda>_. E ub" cb m m1 ub1]
    by (simp add: ucdr_serialize_endian_def)
  have ub1: "ub1 = place ?n ub"
    using fit Cons.prems s1 serialize_fits [of ty ub v "\<lambda>_. E ub" cb m]
    by (simp add: ucdr_serialize_endian_def)
  have "ub_iterator ub1 + length array * ?n \<le> ub_final ub1"
    using safe_step_fixed [OF st] Cons.prems s2 ub1
    by (intro Cons.IH) (auto simp: buffer_alignment_large)
  then show ?case using Cons.prems(3) by (simp add: ub1 item_at_def)
qed

lemma array_body_ok_fits:
  assumes "fixed_buffer ub" "\<forall>v \<in> set array. length v = type_size ty"
    and "ucdr_buffer_alignment ub (type_size ty) = 0"
    and "array_body cb ty E array (m, ub) = (m', ub')" "\<not> ub_error ub'"
  shows "ub_iterator ub + length array * type_size ty \<le> ub_final ub"
proof (cases "UCDR_MACHINE_ENDIANNESS = E ub")
  case True
  have "\<not> ub_error ub"
    using array_body_safe [OF assms(1,2), of m cb E] assms(4,5) safe_step_error by fastforce
  with True assms show ?thesis
    by (cases "ub_iterator ub + length array * type_size ty \<le> ub_final ub")
      (auto simp: array_body_def array_to_buffer_short fixed_buffer_def)
next
  case False
  with assms show ?thesis by (intro elements_ok_fits) (auto simp: array_body_def)
qed

lemma array_ok_fits:
  assumes "fixed_buffer ub" "\<forall>v \<in> set array. length v = type_size ty"
    and "snd (UCDR_SERIALIZE_ARRAY_BYTE cb ty E array (m, ub)) = (m', ub')" "\<not> ub_error ub'"
  shows "array_fits (type_size ty) (length array) ub"
proof -
  let ?n = "type_size ty" and ?a = "ucdr_buffer_alignment ub (type_size ty)"
  have e: "\<not> ub_error ub"
    using array_safe [OF assms(1,2), of m cb E] assms(3,4) safe_step_error by fastforce
  show ?thesis
  proof (cases "?n = 1")
    case True
    with e assms show ?thesis
      by (cases "ub_iterator ub + length array \<le> ub_final ub")
        (auto simp: UCDR_SERIALIZE_ARRAY_BYTE_def UCDR_SERIALIZE_ARRAY_BYTE_1_def Let_def
          array_to_buffer_short fixed_buffer_def array_fits_def item_at_def)
  next
    case False
    obtain m1 ub1 where adv: "ucdr_advance_buffer cb ?a (m, ub) = (m1, ub1)" by fastforce
    let ?ub = "ub1\<lparr>ub_last_data_size := ub_last_data_size ub\<rparr>"
    have body: "array_body cb ty E array (m1, ?ub) = (m', ub')"
      using assms(3) by (simp add: array_N_body [OF False adv])
    have fx: "fixed_buffer ?ub"
      using advance_safe [OF assms(1), of m cb ?a] adv safe_step_fixed by fastforce
    have "\<not> ub_error ub1"
      using array_body_safe [OF fx assms(2), of m1 cb E] body assms(4) safe_step_error by fastforce
    then have it: "item_at ?n ub \<le> ub_final ub"
      using adv e assms(1) by (cases "item_at ?n ub \<le> ub_final ub")
        (auto simp: advance_short fixed_buffer_def item_at_def)
    then have ub1: "?ub = move_iterator ?a ub"
      using adv e by (auto simp: item_at_def advance_room move_iterator_def)
    have "ub_iterator ?ub + length array * ?n \<le> ub_final ?ub"
      using fx assms(2) _ body assms(4)
      by (rule array_body_ok_fits) (simp only: ub1 alignment_after_padding type_size_cdr_sizes)
    with e show ?thesis by (simp only: ub1 array_fits_def item_at_def move_iterator_sel) simp
  qed
qed

lemma sequence_ok_fits:
  assumes "fixed_buffer ub" "\<forall>v \<in> set array. length v = type_size ty" "length array < 2 ^ 32"
    and ser: "snd (UCDR_SERIALIZE_SEQUENCE cb ty E array (of_nat (length array)) (m, ub)) = (m', ub')"
    and ok: "\<not> ub_error ub'"
  shows "sequence_fits (type_size ty) (length array) ub"
proof -
  let ?len = "of_nat (length array) :: u32"
  have len: "unat ?len = length array" using assms(3) by (simp add: unat_of_nat_less)
  obtain m1 ub1 where s1: "snd (ucdr_serialize_endian cb T_uint32_t (E ub) (le_bytes 4 ?len) (m, ub)) = (m1, ub1)"
    by fastforce
  have st: "safe_step (m, ub) (m1, ub1)"
    using basic_safe [OF assms(1), of "le_bytes 4 ?len" T_uint32_t "\<lambda>_. E ub" m cb] s1
    by (simp add: ucdr_serialize_endian_def)
  have tail: "(m', ub') = (if ?len = 0 then (m1, ub1)
      else snd (UCDR_SERIALIZE_ARRAY_BYTE cb ty (\<lambda>_. E ub1) array (m1, ub1)))"
    using ser s1 len by (auto simp: UCDR_SERIALIZE_SEQUENCE_def ucdr_serialize_endian_array_def Let_def)
  have "\<not> ub_error ub1"
    using tail [symmetric] ok array_safe [OF safe_step_fixed [OF st] assms(2), of m1 cb "\<lambda>_. E ub1"]
    by (cases "?len = 0") (auto dest: safe_step_error)
  then have fit: "fits 4 ub"
    using s1 basic_ok_fits [OF assms(1), of "le_bytes 4 ?len" T_uint32_t "\<lambda>_. E ub" cb m m1 ub1]
    by (simp add: ucdr_serialize_endian_def)
  then have ub1: "ub1 = place 4 ub" using s1 by (simp add: serialize_length_fits)
  show ?thesis
  proof (cases "array = []")
    case True
    with fit show ?thesis by (simp add: sequence_fits_def)
  next
    case False
    then have "?len \<noteq> 0" using len by (metis length_0_conv unat_0)
    with tail have "snd (UCDR_SERIALIZE_ARRAY_BYTE cb ty (\<lambda>_. E ub1) array (m1, ub1)) = (m', ub')"
      by simp
    then have "array_fits (type_size ty) (length array) ub1"
      using ok by (rule array_ok_fits [OF safe_step_fixed [OF st] assms(2)])
    with fit ub1 show ?thesis by (simp add: sequence_fits_def)
  qed
qed

section \<open>Reading back what was written\<close>

lemma transferred_sel:
  assumes "transferred ub (m', ub') (m'', ubr)"
  shows "ub_offset ubr = ub_offset ub" "ub_last_data_size ubr = ub_last_data_size ub"
    "ub_endianness ubr = ub_endianness ub" "\<not> ub_error ubr"
    "ub_iterator ubr + (ub_iterator ub' - ub_iterator ub) \<le> ub_final ubr"
  using assms by (simp_all add: transferred_def)

lemma transferred_alignment:
  "transferred ub (m', ub') (m'', ubr) \<Longrightarrow> ucdr_buffer_alignment ubr n = ucdr_buffer_alignment ub n"
  by (simp add: ucdr_buffer_alignment_def transferred_sel)

lemma transferred_item_at:
  "transferred ub (m', ub') (m'', ubr) \<Longrightarrow> item_at n ubr = ub_iterator ubr + (item_at n ub - ub_iterator ub)"
  by (simp add: item_at_def transferred_alignment)

lemma transferred_fits:
  "transferred ub (m', place n ub) (m'', ubr) \<Longrightarrow> fits n ubr"
  using transferred_sel(5) [of ub m' "place n ub" m'' ubr]
  by (simp add: fits_def transferred_sel transferred_alignment item_at_def)

lemma transferred_place:
  "transferred ub (m', ub') (m'', ubr) \<Longrightarrow> place n ubr = moved ub (place n ub) ubr"
  by (simp add: place_def moved_def move_iterator_def transferred_alignment transferred_sel)

lemma transferred_array_fits:
  "transferred ub (m', array_place n k ub) (m'', ubr) \<Longrightarrow> array_fits n k ubr"
  using transferred_sel(5) [of ub m' "array_place n k ub" m'' ubr]
  by (simp add: array_fits_def array_place_def transferred_sel transferred_alignment item_at_def)

lemma transferred_array_place:
  "transferred ub (m', ub') (m'', ubr) \<Longrightarrow> array_place n k ubr = moved ub (array_place n k ub) ubr"
  by (simp add: array_place_def moved_def move_iterator_def transferred_alignment transferred_sel)

lemma transferred_read:
  assumes "transferred ub (m', ub') (m'', ubr)" "ub_iterator ub \<le> a" "a + n \<le> ub_iterator ub'"
  shows "mem_read (ub_iterator ubr + (a - ub_iterator ub)) n m'' = mem_read a n m'"
proof (rule nth_equalityI)
  fix i assume "i < length (mem_read (ub_iterator ubr + (a - ub_iterator ub)) n m'')"
  moreover from this assms have "(a - ub_iterator ub) + i < ub_iterator ub' - ub_iterator ub" by simp
  with assms(1) have "m'' (ub_iterator ubr + ((a - ub_iterator ub) + i)) =
      m' (ub_iterator ub + ((a - ub_iterator ub) + i))"
    unfolding transferred_def by blast
  ultimately show "mem_read (ub_iterator ubr + (a - ub_iterator ub)) n m'' ! i = mem_read a n m' ! i"
    using assms(2) by (simp add: ac_simps)
qed simp

lemma transferred_read_elements:
  assumes "transferred ub (m', ub') (m'', ubr)" "ub_iterator ub \<le> a" "a + k * n \<le> ub_iterator ub'"
  shows "read_elements e n k (ub_iterator ubr + (a - ub_iterator ub)) m'' = read_elements e n k a m'"
proof -
  have "mem_read (ub_iterator ubr + (a - ub_iterator ub) + i * n) n m'' = mem_read (a + i * n) n m'"
    if "i < k" for i
  proof -
    have "Suc i * n \<le> k * n" using that by (intro mult_le_mono1) simp
    then have "a + i * n + n \<le> ub_iterator ub'" using assms(3) by simp
    then show ?thesis
      using transferred_read [OF assms(1), of "a + i * n" n] assms(2) by (simp add: ac_simps)
  qed
  then show ?thesis by (simp add: read_elements_def)
qed

text \<open>An explicit endianness and the buffer's own one are the same at both places.\<close>

definition endian_uniform :: "endian_expr \<Rightarrow> bool" where
  "endian_uniform E \<longleftrightarrow> endian_ok E \<and> (\<forall>ub ub'. ub_endianness ub = ub_endianness ub' \<longrightarrow> E ub = E ub')"

lemma endian_uniform_ok: "endian_uniform E \<Longrightarrow> endian_ok E"
  by (simp add: endian_uniform_def)

lemma endian_uniform_intros [simp]: "endian_uniform ub_endianness" "endian_uniform (\<lambda>_. e)"
  by (simp_all add: endian_uniform_def)

lemma transferred_endian:
  "transferred ub (m', ub') (m'', ubr) \<Longrightarrow> endian_uniform E \<Longrightarrow> E ubr = E ub"
  using transferred_sel(3) [of ub m' ub' m'' ubr] unfolding endian_uniform_def by blast

definition basic_valid :: "ucdr_type \<Rightarrow> u8 list \<Rightarrow> bool" where
  "basic_valid ty v \<longleftrightarrow> length v = type_size ty \<and> (ty = T_bool \<longrightarrow> v = [0] \<or> v = [1])"

lemma stored_cdr_bytes: "basic_valid ty v \<Longrightarrow> stored ty e (cdr_bytes e v) = v"
  by (cases "ty = T_bool") (auto simp: basic_valid_def stored_def byte_cast_id byte_cast_def)

lemma basic_deser_ser:
  assumes "fixed_buffer ub" "basic_valid ty v" "endian_uniform E"
    and ser: "snd (UCDR_SERIALIZE_BYTE cb ty E v (m, ub)) = (m', ub')" and ok: "\<not> ub_error ub'"
    and tr: "transferred ub (m', ub') (m'', ubr)"
  shows "UCDR_DESERIALIZE_BYTE cb ty E (m'', ubr) = (True, Some v, m'', moved ub ub' ubr)"
proof -
  let ?n = "type_size ty"
  have v: "length v = ?n" using assms(2) by (simp add: basic_valid_def)
  note E = endian_uniform_ok [OF assms(3)]
  have fit: "fits ?n ub" using basic_ok_fits [OF assms(1) v E ser ok] .
  then have m': "m' = mem_write (item_at ?n ub) (cdr_bytes (E ub) v) m" and ub': "ub' = place ?n ub"
    using ser v E by (simp_all add: serialize_fits)
  have "mem_read (item_at ?n ubr) ?n m'' = cdr_bytes (E ub) v"
    using transferred_read [OF tr item_at_ge, of ?n ?n] v
    by (simp add: ub' m' mem_read_write_same transferred_item_at [OF tr])
  then show ?thesis
    using transferred_fits [OF tr [unfolded ub']] E assms(2) tr
    by (simp add: deserialize_fits ub' stored_cdr_bytes transferred_place transferred_endian [OF tr assms(3)])
qed

definition regroup :: "nat \<Rightarrow> nat \<Rightarrow> u8 option list \<Rightarrow> u8 list list option" where
  "regroup n k bs =
     (if None \<in> set bs then None
      else Some (map (\<lambda>i. take n (drop (i * n) (map the bs))) [0..<k]))"

lemma group_concat:
  "\<forall>v \<in> set array. length v = n \<Longrightarrow>
   map (\<lambda>i. take n (drop (i * n) (concat array))) [0..<length array] = array"
  by (induction array)
    (simp_all add: upt_conv_Cons map_Suc_upt [symmetric] comp_def del: upt_Suc)

lemma regroup_concat:
  "\<forall>v \<in> set array. length v = n \<Longrightarrow> k = length array \<Longrightarrow>
   regroup n k (map Some (concat array)) = Some array"
  by (simp add: regroup_def comp_def group_concat del: map_concat)

definition array_valid :: "ucdr_type \<Rightarrow> nat \<Rightarrow> u8 list list \<Rightarrow> bool" where
  "array_valid ty k array \<longleftrightarrow> length array = k \<and> 0 < k \<and> (\<forall>v \<in> set array. length v = type_size ty)"

lemma array_deser_ser:
  assumes "fixed_buffer ub" "array_valid ty k array" "endian_uniform E"
    and ser: "snd (UCDR_SERIALIZE_ARRAY_BYTE cb ty E array (m, ub)) = (m', ub')" and ok: "\<not> ub_error ub'"
    and tr: "transferred ub (m', ub') (m'', ubr)"
  shows "UCDR_DESERIALIZE_ARRAY_BYTE cb ty E k (m'', ubr) =
    (True, map Some (concat array), m'', moved ub ub' ubr)"
proof -
  let ?n = "type_size ty"
  have v: "\<forall>v \<in> set array. length v = ?n" and k: "k = length array" "array \<noteq> []"
    using assms(2) by (auto simp: array_valid_def)
  note E = endian_uniform_ok [OF assms(3)]
  have fit: "array_fits ?n (length array) ub"
    using array_ok_fits [OF assms(1) v ser ok] .
  then have m': "m' = mem_write (item_at ?n ub) (array_bytes (E ub) array) m"
    and ub': "ub' = array_place ?n (length array) ub"
    using ser v k E by (simp_all add: serialize_array_fits)
  have "read_elements (E ub) ?n (length array) (item_at ?n ubr) m'' =
      read_elements (E ub) ?n (length array) (item_at ?n ub) m'"
    unfolding transferred_item_at [OF tr] using tr item_at_ge
    by (rule transferred_read_elements) (simp add: ub' array_place_def item_at_def)
  also have "\<dots> = array" unfolding m' using v by (intro read_elements_write) simp_all
  finally show ?thesis
    using transferred_array_fits [OF tr [unfolded ub']] k E
    by (simp add: deserialize_array_fits ub' transferred_endian [OF tr assms(3)]
        transferred_array_place [OF tr])
qed

definition sequence_valid :: "ucdr_type \<Rightarrow> nat \<Rightarrow> u8 list list \<Rightarrow> bool" where
  "sequence_valid ty capacity array \<longleftrightarrow>
     length array \<le> capacity \<and> length array < 2 ^ 32 \<and> (\<forall>v \<in> set array. length v = type_size ty)"

lemma sequence_place_iterator:
  "item_at n (place 4 ub) + k * n \<le> ub_iterator (sequence_place n k ub) \<or> k = 0"
  "item_at 4 ub + 4 \<le> ub_iterator (sequence_place n k ub)"
  using item_at_ge [of "place 4 ub" n]
  by (auto simp: sequence_place_def array_place_def item_at_def)

lemma transferred_sequence_place:
  assumes "transferred ub (m', sequence_place n k ub) (m'', ubr)"
  shows "sequence_fits n k ubr" "sequence_place n k ubr = moved ub (sequence_place n k ub) ubr"
    "item_at n (place 4 ubr) = ub_iterator ubr + (item_at n (place 4 ub) - ub_iterator ub)"
proof -
  have p: "place 4 ubr = moved ub (place 4 ub) ubr" using assms by (rule transferred_place)
  have it: "ub_iterator (place 4 ubr) = ub_iterator ubr + (ub_iterator (place 4 ub) - ub_iterator ub)"
    by (simp add: p moved_def)
  have al: "ucdr_buffer_alignment (place 4 ubr) n = ucdr_buffer_alignment (place 4 ub) n"
    by (simp add: p moved_def ucdr_buffer_alignment_def)
  have ge: "ub_iterator ub \<le> ub_iterator (place 4 ub)" using item_at_ge [of ub 4] by simp
  show "item_at n (place 4 ubr) = ub_iterator ubr + (item_at n (place 4 ub) - ub_iterator ub)"
    using ge it al by (simp add: item_at_def [of n])
  show "sequence_place n k ubr = moved ub (sequence_place n k ub) ubr"
    using ge it al p
    by (simp add: sequence_place_def array_place_def moved_def move_iterator_def)
  show "sequence_fits n k ubr"
    using transferred_sel(4,5) [OF assms] ge it al transferred_alignment [OF assms]
    by (auto simp: sequence_fits_def sequence_place_def array_fits_def array_place_def fits_def
        item_at_def split: if_splits)
qed

lemma sequence_deser_ser:
  assumes "fixed_buffer ub" "sequence_valid ty capacity array" "endian_uniform E"
    and ser: "snd (UCDR_SERIALIZE_SEQUENCE cb ty E array (of_nat (length array)) (m, ub)) = (m', ub')"
    and ok: "\<not> ub_error ub'" and tr: "transferred ub (m', ub') (m'', ubr)"
  shows "UCDR_DESERIALIZE_SEQUENCE cb ty E capacity length0 (m'', ubr) =
    (True, map Some (concat array), of_nat (length array), m'', moved ub ub' ubr)"
proof -
  let ?n = "type_size ty" and ?k = "length array" and ?e = "E ub"
  have v: "\<forall>v \<in> set array. length v = ?n" and k: "?k < 2 ^ 32" "?k \<le> capacity"
    using assms(2) by (auto simp: sequence_valid_def)
  note E = endian_uniform_ok [OF assms(3)]
  have fit: "sequence_fits ?n ?k ub" using sequence_ok_fits [OF assms(1) v k(1) ser ok] .
  then have m': "m' = sequence_mem ?e ?n array ub m" and ub': "ub' = sequence_place ?n ?k ub"
    using ser v k E by (simp_all add: serialize_sequence_fits)
  note tr' = tr [unfolded ub']
  have "mem_read (item_at 4 ubr) 4 m'' = mem_read (item_at 4 ub) 4 m'"
    using transferred_read [OF tr item_at_ge, of 4 4] sequence_place_iterator(2) [of ub ?n ?k]
    by (simp add: transferred_item_at [OF tr] ub')
  also have "\<dots> = cdr_bytes ?e (le_bytes 4 (of_nat ?k :: u32))"
    by (rule sequence_mem_length [of ub m' ?e ?n array m]) (simp add: m')
  finally have len: "le_word (cdr_bytes ?e (mem_read (item_at 4 ubr) 4 m'')) = (of_nat ?k :: u32)"
    by (simp add: le_word_le_bytes)
  have "read_elements ?e ?n ?k (item_at ?n (place 4 ubr)) m'' =
      read_elements ?e ?n ?k (item_at ?n (place 4 ub)) m'"
  proof (cases "?k = 0")
    case False
    then show ?thesis
      unfolding transferred_sequence_place(3) [OF tr']
      using item_at_ge [of ub 4] item_at_place [of ub ?n] sequence_place_iterator(1) [of ?n ub ?k]
      by (intro transferred_read_elements [OF tr]) (auto simp: ub')
  qed (simp add: read_elements_def)
  also have "\<dots> = array" unfolding m' using v by (rule sequence_mem_elements)
  finally show ?thesis
    using transferred_sequence_place [OF tr'] len k E transferred_endian [OF tr assms(3)]
    by (simp add: deserialize_sequence_fits ub')
qed

section \<open>The library's routines satisfy the contract\<close>

text \<open>
  Each interpretation is for every callback environment \<open>cb\<close>: on a fixed buffer it is never
  called. A deserialiser counts as successful when every byte of its destination was stored.
\<close>

definition deser_array ::
    "(cdr_state \<Rightarrow> bool \<times> u8 option list \<times> cdr_state) \<Rightarrow> nat \<Rightarrow> nat \<Rightarrow> cdr_state \<Rightarrow>
     u8 list list option \<times> cdr_state" where
  "deser_array f n k s = (case f s of (ok, array, s') \<Rightarrow> (regroup n k array, s'))"

definition deser_sequence ::
    "(cdr_state \<Rightarrow> bool \<times> u8 option list \<times> u32 \<times> cdr_state) \<Rightarrow> nat \<Rightarrow> cdr_state \<Rightarrow>
     u8 list list option \<times> cdr_state" where
  "deser_sequence f n s = (case f s of (ok, array, len, s') \<Rightarrow> (regroup n (unat len) array, s'))"

definition deser_string ::
    "(cdr_state \<Rightarrow> bool \<times> u8 option list \<times> cdr_state) \<Rightarrow> cdr_state \<Rightarrow> u8 list option \<times> cdr_state" where
  "deser_string f s =
     (case f s of (ok, array, s') \<Rightarrow>
        (if None \<in> set array then None else Some (takeWhile (\<lambda>c. c \<noteq> 0) (map the array)), s'))"

definition string_valid :: "nat \<Rightarrow> u8 list \<Rightarrow> bool" where
  "string_valid capacity str \<longleftrightarrow> length str < capacity \<and> length str + 1 < 2 ^ 32 \<and> 0 \<notin> set str"

interpretation basic: cdr_codec
  "\<lambda>v s. snd (ucdr_serialize cb ty v s)" "\<lambda>s. snd (ucdr_deserialize cb ty s)" "basic_valid ty"
  for cb ty
proof (unfold_locales, goal_cases)
  case (1 ub v m)
  then show ?case unfolding ucdr_serialize_def by (intro basic_safe) (simp_all add: basic_valid_def)
next
  case (2 ub v m m' ub' m'' ubr)
  then show ?case
    unfolding ucdr_serialize_def ucdr_deserialize_def
    using basic_deser_ser [of ub ty v ub_endianness cb m m' ub' m'' ubr] by simp
qed

interpretation basic_endian: cdr_codec
  "\<lambda>v s. snd (ucdr_serialize_endian cb ty e v s)" "\<lambda>s. snd (ucdr_deserialize_endian cb ty e s)"
  "basic_valid ty" for cb ty e
proof (unfold_locales, goal_cases)
  case (1 ub v m)
  then show ?case unfolding ucdr_serialize_endian_def by (intro basic_safe) (simp_all add: basic_valid_def)
next
  case (2 ub v m m' ub' m'' ubr)
  then show ?case
    unfolding ucdr_serialize_endian_def ucdr_deserialize_endian_def
    using basic_deser_ser [of ub ty v "\<lambda>_. e" cb m m' ub' m'' ubr] by simp
qed

interpretation array: cdr_codec
  "\<lambda>v s. snd (ucdr_serialize_array cb ty v s)"
  "deser_array (ucdr_deserialize_array cb ty k) (type_size ty) k" "array_valid ty k" for cb ty k
proof (unfold_locales, goal_cases)
  case (1 ub v m)
  then show ?case unfolding ucdr_serialize_array_def by (intro array_safe) (simp_all add: array_valid_def)
next
  case (2 ub v m m' ub' m'' ubr)
  then show ?case
    using array_deser_ser [of ub ty k v ub_endianness cb m m' ub' m'' ubr]
    by (simp add: ucdr_serialize_array_def ucdr_deserialize_array_def deser_array_def regroup_concat
        array_valid_def)
qed

interpretation array_endian: cdr_codec
  "\<lambda>v s. snd (ucdr_serialize_endian_array cb ty e v s)"
  "deser_array (ucdr_deserialize_endian_array cb ty e k) (type_size ty) k" "array_valid ty k"
  for cb ty e k
proof (unfold_locales, goal_cases)
  case (1 ub v m)
  then show ?case
    unfolding ucdr_serialize_endian_array_def by (intro array_safe) (simp_all add: array_valid_def)
next
  case (2 ub v m m' ub' m'' ubr)
  then show ?case
    using array_deser_ser [of ub ty k v "\<lambda>_. e" cb m m' ub' m'' ubr]
    by (simp add: ucdr_serialize_endian_array_def ucdr_deserialize_endian_array_def deser_array_def
        regroup_concat array_valid_def)
qed

interpretation sequence: cdr_codec
  "\<lambda>v s. snd (ucdr_serialize_sequence cb ty v (of_nat (length v)) s)"
  "deser_sequence (ucdr_deserialize_sequence cb ty capacity length0) (type_size ty)"
  "sequence_valid ty capacity" for cb ty capacity length0
proof (unfold_locales, goal_cases)
  case (1 ub v m)
  then show ?case
    unfolding ucdr_serialize_sequence_def by (intro sequence_safe) (simp_all add: sequence_valid_def)
next
  case (2 ub v m m' ub' m'' ubr)
  then show ?case
    using sequence_deser_ser [of ub ty capacity v ub_endianness cb m m' ub' m'' ubr length0]
    by (simp add: ucdr_serialize_sequence_def ucdr_deserialize_sequence_def deser_sequence_def
        regroup_concat sequence_valid_def unat_of_nat_less)
qed

interpretation sequence_endian: cdr_codec
  "\<lambda>v s. snd (ucdr_serialize_endian_sequence cb ty e v (of_nat (length v)) s)"
  "deser_sequence (ucdr_deserialize_endian_sequence cb ty e capacity length0) (type_size ty)"
  "sequence_valid ty capacity" for cb ty e capacity length0
proof (unfold_locales, goal_cases)
  case (1 ub v m)
  then show ?case
    unfolding ucdr_serialize_endian_sequence_def
    by (intro sequence_safe) (simp_all add: sequence_valid_def)
next
  case (2 ub v m m' ub' m'' ubr)
  then show ?case
    using sequence_deser_ser [of ub ty capacity v "\<lambda>_. e" cb m m' ub' m'' ubr length0]
    by (simp add: ucdr_serialize_endian_sequence_def ucdr_deserialize_endian_sequence_def
        deser_sequence_def regroup_concat sequence_valid_def unat_of_nat_less)
qed

lemma char_array_props:
  "length (char_array str) = length str + 1" "concat (char_array str) = str @ [0]"
  "\<forall>v \<in> set (char_array str). length v = 1"
  by (auto simp: char_array_def)

lemma string_sequence_valid: "string_valid capacity str \<Longrightarrow> sequence_valid T_char capacity (char_array str)"
  using char_array_props [of str] by (simp add: string_valid_def sequence_valid_def)

lemma takeWhile_c_string: "0 \<notin> set str \<Longrightarrow> takeWhile (\<lambda>c. c \<noteq> 0) (str @ [0]) = (str :: u8 list)"
  by (subst takeWhile_append2) auto

interpretation str: cdr_codec
  "\<lambda>str s. snd (ucdr_serialize_string cb str s)"
  "deser_string (ucdr_deserialize_string cb capacity length0)" "string_valid capacity"
  for cb capacity length0
proof (unfold_locales, goal_cases)
  case (1 ub str m)
  then show ?case
    unfolding ucdr_serialize_string_def ucdr_serialize_sequence_def
    by (intro sequence_safe) (simp_all add: char_array_props(3) [simplified])
next
  case (2 ub str m m' ub' m'' ubr)
  then show ?case
    using sequence_deser_ser [of ub T_char capacity "char_array str" ub_endianness cb m m' ub' m'' ubr length0]
    by (simp add: ucdr_serialize_string_def ucdr_serialize_sequence_def ucdr_deserialize_string_def
        ucdr_deserialize_sequence_def deser_string_def string_sequence_valid char_array_props
        takeWhile_c_string string_valid_def comp_def add.commute)
qed

interpretation str_endian: cdr_codec
  "\<lambda>str s. snd (ucdr_serialize_endian_string cb e str s)"
  "deser_string (ucdr_deserialize_endian_string cb e capacity length0)" "string_valid capacity"
  for cb e capacity length0
proof (unfold_locales, goal_cases)
  case (1 ub str m)
  then show ?case
    unfolding ucdr_serialize_endian_string_def ucdr_serialize_endian_sequence_def
    by (intro sequence_safe) (simp_all add: char_array_props(3) [simplified])
next
  case (2 ub str m m' ub' m'' ubr)
  then show ?case
    using sequence_deser_ser [of ub T_char capacity "char_array str" "\<lambda>_. e" cb m m' ub' m'' ubr length0]
    by (simp add: ucdr_serialize_endian_string_def ucdr_serialize_endian_sequence_def
        ucdr_deserialize_endian_string_def ucdr_deserialize_endian_sequence_def deser_string_def
        string_sequence_valid char_array_props takeWhile_c_string string_valid_def comp_def
        add.commute)
qed

end
