(* ===== verification/Cdr_Msg.thy ===== *)
theory Cdr_Msg
  imports Cdr_Codec
begin

text \<open>
  What every generated message is made of besides the routines of the library: the encapsulation header of
  \<open>ros/cdr.h\<close>, and how the code that \<open>make_libraries.py\<close> generates reads a value (a failed read leaves the
  member as it was) and a string (a pointer into the buffer of the library).
\<close>

section \<open>Encapsulation\<close>

definition CORBA_CDR :: nat where "CORBA_CDR = 0"
definition DDS_CDR :: nat where "DDS_CDR = 1"
definition PLAIN_CDR :: u8 where "PLAIN_CDR = 0"
definition LITTLE_ENDIANNESS :: u8 where "LITTLE_ENDIANNESS = 1"
definition cdr_version :: nat where "cdr_version = DDS_CDR"
definition encoding_flag :: u8 where "encoding_flag = PLAIN_CDR"
definition cdr_endianness :: u8 where "cdr_endianness = LITTLE_ENDIANNESS"

lemmas cdr_constants = CORBA_CDR_def DDS_CDR_def PLAIN_CDR_def LITTLE_ENDIANNESS_def cdr_version_def
  encoding_flag_def cdr_endianness_def

definition serialize_encapsulation :: "on_full_env \<Rightarrow> cdr_state \<Rightarrow> int \<times> cdr_state" where
  "serialize_encapsulation cb s =
     (let dummy = (0 :: u8);
          options = [[0], [0]] :: u8 list list;
          (n1, s1) = (if CORBA_CDR < cdr_version
                      then (1, snd (ucdr_serialize cb T_uint8_t [dummy] s)) else (0 :: int, s));
          encapsulation = encoding_flag OR cdr_endianness;
          s2 = snd (ucdr_serialize cb T_uint8_t [encapsulation] s1);
          n2 = n1 + 1
      in if CORBA_CDR < cdr_version
         then (n2 + 2, snd (ucdr_serialize_array cb T_uint8_t options s2))
         else (n2, s2))"

definition read_u8 :: "on_full_env \<Rightarrow> u8 \<Rightarrow> cdr_state \<Rightarrow> u8 \<times> cdr_state" where
  "read_u8 cb old s =
     (case ucdr_deserialize cb T_uint8_t s of (ok, v, s') \<Rightarrow>
        ((case v of Some bs \<Rightarrow> bs ! 0 | None \<Rightarrow> old), s'))"

definition deserialize_encapsulation :: "on_full_env \<Rightarrow> cdr_state \<Rightarrow> int \<times> cdr_state" where
  "deserialize_encapsulation cb s =
     (case read_u8 cb 0 s of (dummy, s1) \<Rightarrow>
        if dummy \<noteq> 0 then (- 1, s1)
        else (case read_u8 cb 0 s1 of (encapsulation, s2) \<Rightarrow>
               case ucdr_deserialize_array cb T_uint8_t 2 s2 of (ok, options, s3) \<Rightarrow> (4, s3)))"

section \<open>Reading values and strings\<close>

definition c_string_at :: "mem \<Rightarrow> nat \<Rightarrow> nat \<Rightarrow> u8 list" where
  "c_string_at m p n = takeWhile (\<lambda>c. c \<noteq> 0) (mem_read p n m)"

definition prim_deserialize :: "on_full_env \<Rightarrow> ucdr_type \<Rightarrow> u8 list \<Rightarrow> cdr_state \<Rightarrow> u8 list \<times> cdr_state" where
  "prim_deserialize cb ty old s =
     (case ucdr_deserialize cb ty s of (ok, v, s') \<Rightarrow>
        ((case v of Some bs \<Rightarrow> bs | None \<Rightarrow> old), s'))"

definition string_deserialize :: "on_full_env \<Rightarrow> cdr_state \<Rightarrow> u8 list option \<times> cdr_state" where
  "string_deserialize cb s =
     (case ucdr_deserialize cb T_uint32_t s of (ok, v, m, ub) \<Rightarrow>
        if \<not> ok then (None, m, ub)
        else (let str_len = (case v of Some bs \<Rightarrow> le_word bs | None \<Rightarrow> 0) :: u32;
                  p = ub_iterator ub
              in if m (p + unat (str_len - 1)) \<noteq> 0 then (None, m, ub)
                 else (Some (c_string_at m p (unat str_len)),
                       ucdr_advance_buffer cb (unat str_len) (m, ub))))"

lemma prim_deserialize_codec:
  "snd (ucdr_deserialize cb ty s) = (Some x, s') \<Longrightarrow> prim_deserialize cb ty old s = (x, s')"
  by (cases "ucdr_deserialize cb ty s") (simp add: prim_deserialize_def)

lemma string_serialized:
  assumes "fixed_buffer ub" "string_valid (2 ^ 32) str"
    and "snd (ucdr_serialize_string cb str (m, ub)) = (m', ub')" "\<not> ub_error ub'"
  shows "m' = sequence_mem (ub_endianness ub) 1 (char_array str) ub m"
    "ub' = sequence_place 1 (length str + 1) ub"
proof -
  have k: "length str + 1 < 2 ^ 32" using assms(2) by (simp add: string_valid_def)
  have sq: "snd (UCDR_SERIALIZE_SEQUENCE cb T_char ub_endianness (char_array str)
      (of_nat (length (char_array str))) (m, ub)) = (m', ub')"
    using assms(3) by (simp add: ucdr_serialize_string_def ucdr_serialize_sequence_def char_array_props add.commute)
  have "sequence_fits 1 (length str + 1) ub"
    using sequence_ok_fits [OF assms(1) _ _ sq assms(4)] k char_array_props [of str] by simp
  then show "m' = sequence_mem (ub_endianness ub) 1 (char_array str) ub m"
    "ub' = sequence_place 1 (length str + 1) ub"
    using sq k char_array_props [of str]
      serialize_sequence_fits [of T_char "char_array str" ub ub_endianness cb m] by simp_all
qed

lemma string_deser_ser:
  assumes "fixed_buffer ub" "string_valid (2 ^ 32) str"
    and ser: "snd (ucdr_serialize_string cb str (m, ub)) = (m', ub')" and ok: "\<not> ub_error ub'"
    and tr: "transferred ub (m', ub') (m'', ubr)"
  shows "string_deserialize cb (m'', ubr) = (Some str, m'', moved ub ub' ubr)"
proof -
  let ?k = "length str + 1" and ?w = "of_nat (length str) + 1 :: u32" and ?e = "ub_endianness ub"
  let ?p = "ub_iterator (place 4 ubr)"
  have k: "?k < 2 ^ 32" and nul: "0 \<notin> set str" using assms(2) by (auto simp: string_valid_def)
  have w: "?w = of_nat (length (char_array str))" by (simp add: char_array_props)
  have uw: "unat ?w = ?k"
    unfolding w using k by (subst unat_of_nat_less) (simp_all add: char_array_props)
  have uw1: "unat (?w - 1) = length str" using k by (simp add: unat_of_nat_less)
  note m' = string_serialized(1) [OF assms(1-4)] and ub' = string_serialized(2) [OF assms(1-4)]
  note tr' = tr [unfolded ub']
  have f4: "fits 4 ubr" and af: "array_fits 1 ?k (place 4 ubr)"
    using transferred_sequence_place(1) [OF tr'] by (simp_all add: sequence_fits_def)
  have "mem_read (item_at 4 ubr) 4 m'' = mem_read (item_at 4 ub) 4 m'"
    using transferred_read [OF tr item_at_ge, of 4 4] sequence_place_iterator(2) [of ub 1 ?k]
    by (simp add: transferred_item_at [OF tr] ub')
  also have "\<dots> = cdr_bytes ?e (le_bytes 4 ?w)"
    unfolding w by (rule sequence_mem_length [of ub m' ?e 1 "char_array str" m]) (simp add: m')
  finally have rd: "ucdr_deserialize cb T_uint32_t (m'', ubr) = (True, Some (le_bytes 4 ?w), m'', place 4 ubr)"
    using f4 deserialize_fits [of T_uint32_t ubr ub_endianness cb m''] transferred_sel(3) [OF tr]
    by (simp add: ucdr_deserialize_def stored_def byte_cast_id)
  have it: "item_at (Suc 0) (place 4 b) = ub_iterator (place 4 b)" for b by (simp add: item_at_def)
  have "read_elements ?e 1 ?k (item_at 1 (place 4 ubr)) m'' = read_elements ?e 1 ?k (item_at 1 (place 4 ub)) m'"
    unfolding transferred_sequence_place(3) [OF tr']
    using sequence_place_iterator(1) [of 1 ub ?k] item_at_ge [of ub 4] it
    by (intro transferred_read_elements [OF tr]) (auto simp: ub' place_def)
  also have "\<dots> = char_array str"
    using sequence_mem_elements [of "char_array str" 1 ?e ub m] char_array_props [of str]
    by (simp add: m')
  finally have "concat (read_elements ?e 1 ?k ?p m'') = str @ [0]"
    by (simp add: char_array_props it)
  then have str: "mem_read ?p ?k m'' = str @ [0]"
    by (simp add: concat_read_elements_single)
  then have last: "m'' (?p + length str) = 0"
    using mem_read_nth [of "length str" ?k ?p m''] by simp
  have "ucdr_advance_buffer cb ?k (m'', place 4 ubr) = (m'', sequence_place 1 ?k ubr)"
    using af by (simp add: advance_room array_fits_def it sequence_place_def array_place_def)
  then have adv: "ucdr_advance_buffer cb ?k (m'', place 4 ubr) = (m'', moved ub ub' ubr)"
    by (simp only: transferred_sequence_place(2) [OF tr'] ub')
  show ?thesis
    using uw uw1 last str adv nul
    by (simp add: string_deserialize_def rd le_word_le_bytes c_string_at_def takeWhile_c_string Let_def)
qed

section \<open>The encapsulation header\<close>

text \<open>The header is three items one after the other: the dummy byte, the encapsulation kind, the options.\<close>

abbreviation header_ser :: "on_full_env \<Rightarrow> u8 list \<times> u8 list \<times> u8 list list \<Rightarrow> cdr_state \<Rightarrow> cdr_state" where
  "header_ser cb \<equiv> pair_ser (\<lambda>v s. snd (ucdr_serialize cb T_uint8_t v s))
     (pair_ser (\<lambda>v s. snd (ucdr_serialize cb T_uint8_t v s)) (\<lambda>v s. snd (ucdr_serialize_array cb T_uint8_t v s)))"

abbreviation header_deser ::
    "on_full_env \<Rightarrow> cdr_state \<Rightarrow> (u8 list \<times> u8 list \<times> u8 list list) option \<times> cdr_state" where
  "header_deser cb \<equiv> pair_deser (\<lambda>s. snd (ucdr_deserialize cb T_uint8_t s))
     (pair_deser (\<lambda>s. snd (ucdr_deserialize cb T_uint8_t s))
        (deser_array (ucdr_deserialize_array cb T_uint8_t 2) (type_size T_uint8_t) 2))"

abbreviation header_value :: "u8 list \<times> u8 list \<times> u8 list list" where
  "header_value \<equiv> ([0], [1], [[0], [0]])"

interpretation header_tail: cdr_codec_pair "\<lambda>v s. snd (ucdr_serialize cb T_uint8_t v s)" "\<lambda>s. snd (ucdr_deserialize cb T_uint8_t s)"
  "basic_valid T_uint8_t" "\<lambda>v s. snd (ucdr_serialize_array cb T_uint8_t v s)"
  "deser_array (ucdr_deserialize_array cb T_uint8_t 2) (type_size T_uint8_t) 2" "array_valid T_uint8_t 2" for cb
  by (intro cdr_codec_pair.intro basic.cdr_codec_axioms array.cdr_codec_axioms)

lemma header_codec:
  "cdr_codec (header_ser cb) (header_deser cb)
     (\<lambda>p. basic_valid T_uint8_t (fst p) \<and> basic_valid T_uint8_t (fst (snd p)) \<and> array_valid T_uint8_t 2 (snd (snd p)))"
  by (intro cdr_codec_pair.pair_codec cdr_codec_pair.intro basic.cdr_codec_axioms header_tail.pair_codec)

lemma header_valid: "basic_valid T_uint8_t [b]" "array_valid T_uint8_t 2 [[0], [0]]"
  by (simp_all add: basic_valid_def array_valid_def)

lemma serialize_encapsulation_header:
  "serialize_encapsulation cb s = (4, header_ser cb header_value s)"
  by (simp add: serialize_encapsulation_def cdr_constants pair_ser_def)

lemma deserialize_encapsulation_header:
  assumes "header_deser cb s = (Some ([0], v), s')"
  shows "deserialize_encapsulation cb s = (4, s')"
  using assms
  by (auto simp: deserialize_encapsulation_def read_u8_def pair_deser_def deser_array_def
      split: prod.splits option.splits)

lemma pair_deser_SomeE:
  assumes "pair_deser f g s = (Some (x, y), s')"
  obtains s1 where "f s = (Some x, s1)" "g s1 = (Some y, s')"
  using assms by (auto simp: pair_deser_def split: prod.splits option.splits)

end
