(* ===== verification/Cdr_Layout.thy ===== *)
theory Cdr_Layout
  imports Cdr_Msg
begin

text \<open>
  Where every field of a message lies. The CDR rule is that an item of size \<open>n\<close> starts at the next
  multiple of \<open>n\<close>; \<open>stop x p\<close> is the offset after an item that is laid out by this rule from the
  offset \<open>p\<close> on. The library only aligns when the item is larger than the last one
  (\<open>last_data_size\<close>); the contract below says that the result is the rule's layout all the same,
  and that the error flag is raised exactly when that layout does not fit.
\<close>

section \<open>The contract\<close>

definition located :: "nat \<Rightarrow> ucdrBuffer \<Rightarrow> bool" where
  "located a ub \<longleftrightarrow> fixed_buffer ub \<and> ub_aligned ub \<and> ub_iterator ub = a + ub_offset ub \<and> \<not> ub_error ub"

locale cdr_layout = cdr_codec ser deser valid
  for ser :: "'a \<Rightarrow> cdr_state \<Rightarrow> cdr_state" and deser valid +
  fixes stop :: "'a \<Rightarrow> nat \<Rightarrow> nat"
  assumes stop_ge: "p \<le> stop x p"
    and layout_fits: "located a ub \<Longrightarrow> valid x \<Longrightarrow> ser x (m, ub) = (m', ub') \<Longrightarrow>
      a + stop x (ub_offset ub) \<le> ub_final ub \<Longrightarrow> located a ub' \<and> ub_offset ub' = stop x (ub_offset ub)"
    and layout_short: "located a ub \<Longrightarrow> valid x \<Longrightarrow> ser x (m, ub) = (m', ub') \<Longrightarrow>
      ub_final ub < a + stop x (ub_offset ub) \<Longrightarrow> ub_error ub'"
begin

lemma layout_iff:
  assumes "located a ub" "valid x" "ser x (m, ub) = (m', ub')"
  shows "\<not> ub_error ub' \<longleftrightarrow> a + stop x (ub_offset ub) \<le> ub_final ub"
  using layout_fits [OF assms] layout_short [OF assms]
  by (cases "a + stop x (ub_offset ub) \<le> ub_final ub") (auto simp: located_def)

end

locale cdr_layout_pair =
  one: cdr_layout ser1 deser1 valid1 stop1 + two: cdr_layout ser2 deser2 valid2 stop2
  for ser1 :: "'a \<Rightarrow> cdr_state \<Rightarrow> cdr_state" and deser1 valid1 stop1
    and ser2 :: "'b \<Rightarrow> cdr_state \<Rightarrow> cdr_state" and deser2 valid2 stop2
begin

lemma pair_layout:
  "cdr_layout (pair_ser ser1 ser2) (pair_deser deser1 deser2) (\<lambda>p. valid1 (fst p) \<and> valid2 (snd p))
     (\<lambda>p q. stop2 (snd p) (stop1 (fst p) q))"
proof -
  have codec: "cdr_codec (pair_ser ser1 ser2) (pair_deser deser1 deser2) (\<lambda>p. valid1 (fst p) \<and> valid2 (snd p))"
    by (rule cdr_codec_pair.pair_codec [OF cdr_codec_pair.intro [OF one.cdr_codec_axioms two.cdr_codec_axioms]])
  show ?thesis
  proof (intro cdr_layout.intro codec cdr_layout_axioms.intro, goal_cases)
    case (1 q p)
    show ?case using one.stop_ge two.stop_ge by (rule order_trans)
  next
    case (2 a ub p m m' ub')
    obtain m1 ub1 where s1: "ser1 (fst p) (m, ub) = (m1, ub1)" by fastforce
    have fin: "ub_final ub1 = ub_final ub"
      using one.ser_safe [of ub "fst p" m] 2 s1 by (simp add: located_def safe_step_def)
    have "located a ub1 \<and> ub_offset ub1 = stop1 (fst p) (ub_offset ub)"
      using 2 s1 two.stop_ge [of "stop1 (fst p) (ub_offset ub)" "snd p"]
      by (intro one.layout_fits) auto
    with 2 s1 fin show ?case
      using two.layout_fits [of a ub1 "snd p" m1 m' ub'] by (simp add: pair_ser_def)
  next
    case (3 a ub p m m' ub')
    obtain m1 ub1 where s1: "ser1 (fst p) (m, ub) = (m1, ub1)" by fastforce
    have st: "safe_step (m, ub) (m1, ub1)"
      using one.ser_safe [of ub "fst p" m] 3 s1 by (simp add: located_def)
    show ?case
    proof (cases "ub_error ub1")
      case True
      then show ?thesis
        using 3 s1 two.ser_safe [OF safe_step_fixed [OF st], of "snd p" m1]
        by (auto simp: pair_ser_def safe_step_def)
    next
      case False
      then have "located a ub1 \<and> ub_offset ub1 = stop1 (fst p) (ub_offset ub)"
        using 3 s1 one.layout_iff [of a ub "fst p" m m1 ub1] one.layout_fits by blast
      with 3 s1 st show ?thesis
        using two.layout_short [of a ub1 "snd p" m1 m' ub'] by (simp add: pair_ser_def safe_step_def)
    qed
  qed
qed

end

section \<open>Items\<close>

definition prim_stop :: "nat \<Rightarrow> nat \<Rightarrow> nat" where
  "prim_stop n p = p + pad_to n p + n"

lemma located_place:
  assumes "located a ub" "n \<in> cdr_sizes"
  shows "fits n ub \<longleftrightarrow> a + prim_stop n (ub_offset ub) \<le> ub_final ub"
    and "fits n ub \<Longrightarrow> located a (place n ub)" "ub_offset (place n ub) = prim_stop n (ub_offset ub)"
proof -
  have al: "ucdr_buffer_alignment ub n = pad_to n (ub_offset ub)"
    using assms by (intro buffer_alignment_pad) (simp_all add: located_def)
  show "fits n ub \<longleftrightarrow> a + prim_stop n (ub_offset ub) \<le> ub_final ub"
    using assms(1) by (simp add: fits_def located_def prim_stop_def al add.assoc)
  show "ub_offset (place n ub) = prim_stop n (ub_offset ub)"
    by (simp add: prim_stop_def al)
  show "located a (place n ub)" if "fits n ub"
    using that assms by (simp add: located_def fixed_buffer_def ub_wf_place ub_aligned_place item_at_def)
qed

interpretation basic_layout: cdr_layout
  "\<lambda>v s. snd (ucdr_serialize cb ty v s)" "\<lambda>s. snd (ucdr_deserialize cb ty s)" "basic_valid ty"
  "\<lambda>v p. prim_stop (type_size ty) p" for cb ty
proof (unfold_locales, goal_cases)
  case (1 p v)
  show ?case by (simp add: prim_stop_def)
next
  case (2 a ub v m m' ub')
  then show ?case
    using located_place [OF 2(1) type_size_cdr_sizes, of ty]
    by (auto simp: ucdr_serialize_def serialize_fits basic_valid_def)
next
  case (3 a ub v m m' ub')
  then show ?case
    using located_place(1) [OF 3(1) type_size_cdr_sizes, of ty]
    by (auto simp: ucdr_serialize_def serialize_step basic_valid_def located_def fixed_buffer_def)
qed

definition string_stop :: "u8 list \<Rightarrow> nat \<Rightarrow> nat" where
  "string_stop str p = prim_stop 4 p + length str + 1"

lemma located_sequence:
  assumes "located a ub" "0 < k"
  shows "sequence_fits 1 k ub \<longleftrightarrow> a + prim_stop 4 (ub_offset ub) + k \<le> ub_final ub"
    and "sequence_fits 1 k ub \<Longrightarrow> located a (sequence_place 1 k ub)"
    "ub_offset (sequence_place 1 k ub) = prim_stop 4 (ub_offset ub) + k"
proof -
  have four: "4 \<in> cdr_sizes" by (simp add: cdr_sizes_def)
  note p = located_place [OF assms(1) four]
  have it: "item_at (Suc 0) (place 4 ub) = ub_iterator (place 4 ub)" by (simp add: item_at_def)
  have lo: "ub_iterator (place 4 ub) = a + prim_stop 4 (ub_offset ub)" if "fits 4 ub"
    using p(2) [OF that] p(3) by (simp only: located_def)
  show "sequence_fits 1 k ub \<longleftrightarrow> a + prim_stop 4 (ub_offset ub) + k \<le> ub_final ub"
    using lo p(1) assms by (auto simp: sequence_fits_def array_fits_def it located_def)
  show "ub_offset (sequence_place 1 k ub) = prim_stop 4 (ub_offset ub) + k"
    using assms(2) p(3) by (simp add: sequence_place_def array_place_def)
  show "located a (sequence_place 1 k ub)" if "sequence_fits 1 k ub"
    using that p(2) assms(2)
    by (auto simp: sequence_fits_def array_fits_def it sequence_place_def array_place_def located_def
        fixed_buffer_def ub_wf_def ub_aligned_def cdr_sizes_def)
qed

interpretation string_layout: cdr_layout
  "\<lambda>str s. snd (ucdr_serialize_string cb str s)" "\<lambda>s. string_deserialize cb s" "string_valid (2 ^ 32)"
  string_stop for cb
proof (unfold_locales, goal_cases)
  case (1 ub str m)
  then show ?case by (rule str.ser_safe)
next
  case (2 ub str m m' ub' m'' ubr)
  then show ?case by (rule string_deser_ser)
next
  case (3 p str)
  show ?case by (simp add: string_stop_def prim_stop_def)
next
  case (4 a ub str m m' ub')
  have fit: "sequence_fits 1 (length (char_array str)) ub"
    using 4 located_sequence(1) [OF 4(1), of "length str + 1"]
    by (simp add: string_stop_def char_array_props add.assoc)
  have "snd (UCDR_SERIALIZE_SEQUENCE cb T_char ub_endianness (char_array str)
      (of_nat (length (char_array str))) (m, ub)) = (m', ub')"
    using 4(3) by (simp add: ucdr_serialize_string_def ucdr_serialize_sequence_def char_array_props add.commute)
  then have "ub' = sequence_place 1 (length str + 1) ub"
    using 4(2) fit serialize_sequence_fits [of T_char "char_array str" ub ub_endianness cb m]
      char_array_props [of str] by (simp add: string_valid_def)
  with 4 fit show ?case
    using located_sequence [OF 4(1), of "length str + 1"]
    by (simp add: string_stop_def char_array_props)
next
  case (5 a ub str m m' ub')
  show ?case
  proof (rule ccontr)
    assume "\<not> ub_error ub'"
    have sq: "snd (UCDR_SERIALIZE_SEQUENCE cb T_char ub_endianness (char_array str)
        (of_nat (length (char_array str))) (m, ub)) = (m', ub')"
      using 5(3) by (simp add: ucdr_serialize_string_def ucdr_serialize_sequence_def char_array_props add.commute)
    have "sequence_fits 1 (length str + 1) ub"
      using 5(1,2) sequence_ok_fits [OF _ _ _ sq \<open>\<not> ub_error ub'\<close>] char_array_props [of str]
      by (simp add: located_def string_valid_def)
    with 5 show False
      using located_sequence(1) [OF 5(1), of "length str + 1"] by (simp add: string_stop_def)
  qed
qed

definition array_stop :: "nat \<Rightarrow> nat \<Rightarrow> nat \<Rightarrow> nat" where
  "array_stop n k p = p + pad_to n p + k * n"

lemma located_array:
  assumes "located a ub" "n \<in> cdr_sizes"
  shows "array_fits n k ub \<longleftrightarrow> a + array_stop n k (ub_offset ub) \<le> ub_final ub"
    and "array_fits n k ub \<Longrightarrow> located a (array_place n k ub)"
    "ub_offset (array_place n k ub) = array_stop n k (ub_offset ub)"
proof -
  have al: "ucdr_buffer_alignment ub n = pad_to n (ub_offset ub)"
    using assms by (intro buffer_alignment_pad) (simp_all add: located_def)
  show "array_fits n k ub \<longleftrightarrow> a + array_stop n k (ub_offset ub) \<le> ub_final ub"
    using assms(1) by (simp add: array_fits_def located_def array_stop_def al item_at_def add.assoc)
  show "ub_offset (array_place n k ub) = array_stop n k (ub_offset ub)"
    by (simp add: array_place_def array_stop_def al)
  have "n dvd ub_offset ub + pad_to n (ub_offset ub)"
    using cdr_sizes_pos [OF assms(2)] by (rule pad_to_aligned)
  then have dvd: "n dvd ub_offset ub + (pad_to n (ub_offset ub) + k * n)"
    by (simp add: add.assoc [symmetric])
  show "located a (array_place n k ub)" if "array_fits n k ub"
    using that assms dvd
    by (auto simp: located_def array_fits_def array_place_def al item_at_def fixed_buffer_def ub_wf_def
        ub_aligned_def)
qed

interpretation array_layout: cdr_layout
  "\<lambda>v s. snd (ucdr_serialize_array cb ty v s)"
  "deser_array (ucdr_deserialize_array cb ty k) (type_size ty) k" "array_valid ty k"
  "\<lambda>v. array_stop (type_size ty) k" for cb ty k
proof (unfold_locales, goal_cases)
  case (1 p v)
  show ?case by (simp add: array_stop_def)
next
  case (2 a ub v m m' ub')
  then show ?case
    using located_array [OF 2(1) type_size_cdr_sizes, of ty k]
    by (auto simp: ucdr_serialize_array_def serialize_array_fits array_valid_def)
next
  case (3 a ub v m m' ub')
  show ?case
  proof (rule ccontr)
    assume ok: "\<not> ub_error ub'"
    have "array_fits (type_size ty) (length v) ub"
      using 3 ok array_ok_fits [of ub v ty cb ub_endianness m m' ub']
      by (simp add: ucdr_serialize_array_def array_valid_def located_def)
    with 3 show False
      using located_array(1) [OF 3(1) type_size_cdr_sizes, of ty k] by (simp add: array_valid_def)
  qed
qed

section \<open>Lists of items and the header\<close>

context cdr_layout
begin

lemma list_layout_fits:
  assumes "located a ub" "\<forall>x \<in> set xs. valid x" "list_ser ser xs (m, ub) = (m', ub')"
    and "a + fold stop xs (ub_offset ub) \<le> ub_final ub"
  shows "located a ub' \<and> ub_offset ub' = fold stop xs (ub_offset ub)"
  using assms
proof (induction xs arbitrary: m ub)
  case Nil
  then show ?case by (simp add: list_ser_def)
next
  case (Cons x xs)
  obtain m1 ub1 where s1: "ser x (m, ub) = (m1, ub1)" by fastforce
  have fin: "ub_final ub1 = ub_final ub"
    using ser_safe [of ub x m] Cons.prems s1 by (simp add: located_def safe_step_def)
  have ge: "p \<le> fold stop ys p" for ys p
    by (induction ys arbitrary: p) (auto intro: order_trans [OF stop_ge])
  have "located a ub1 \<and> ub_offset ub1 = stop x (ub_offset ub)"
    using Cons.prems s1 ge [of "stop x (ub_offset ub)" xs] by (intro layout_fits) auto
  with Cons.prems s1 fin Cons.IH [of ub1 m1] show ?case by (simp add: list_ser_def)
qed

lemma list_layout_short:
  assumes "located a ub" "\<forall>x \<in> set xs. valid x" "list_ser ser xs (m, ub) = (m', ub')"
    and "ub_final ub < a + fold stop xs (ub_offset ub)"
  shows "ub_error ub'"
  using assms
proof (induction xs arbitrary: m ub)
  case Nil
  then show ?case by (simp add: list_ser_def located_def fixed_buffer_def ub_wf_def)
next
  case (Cons x xs)
  obtain m1 ub1 where s1: "ser x (m, ub) = (m1, ub1)" by fastforce
  have st: "safe_step (m, ub) (m1, ub1)"
    using ser_safe [of ub x m] Cons.prems s1 by (simp add: located_def)
  have s2: "list_ser ser xs (m1, ub1) = (m', ub')" using Cons.prems(3) s1 by (simp add: list_ser_def)
  show ?case
  proof (cases "ub_error ub1")
    case True
    then show ?thesis
      using list_safe [OF safe_step_fixed [OF st], of xs m1] Cons.prems(2) s2 by (simp add: safe_step_def)
  next
    case False
    then have "located a ub1 \<and> ub_offset ub1 = stop x (ub_offset ub)"
      using Cons.prems s1 layout_iff [of a ub x m m1 ub1] layout_fits [of a ub x m m1 ub1] by simp
    with Cons.prems s2 st Cons.IH [of ub1 m1] show ?thesis by (simp add: safe_step_def)
  qed
qed

end

text \<open>The encapsulation header takes four bytes.\<close>

interpretation header_end: cdr_layout_pair "\<lambda>v s. snd (ucdr_serialize cb T_uint8_t v s)" "\<lambda>s. snd (ucdr_deserialize cb T_uint8_t s)"
  "basic_valid T_uint8_t" "\<lambda>v. prim_stop (type_size T_uint8_t)" "\<lambda>v s. snd (ucdr_serialize_array cb T_uint8_t v s)"
  "deser_array (ucdr_deserialize_array cb T_uint8_t 2) (type_size T_uint8_t) 2" "array_valid T_uint8_t 2"
  "\<lambda>v. array_stop (type_size T_uint8_t) 2" for cb
  by (intro cdr_layout_pair.intro basic_layout.cdr_layout_axioms array_layout.cdr_layout_axioms)

lemma header_layout:
  "cdr_layout (header_ser cb) (header_deser cb)
     (\<lambda>p. basic_valid T_uint8_t (fst p) \<and> basic_valid T_uint8_t (fst (snd p)) \<and> array_valid T_uint8_t 2 (snd (snd p)))
     (\<lambda>p q. array_stop (type_size T_uint8_t) 2 (prim_stop (type_size T_uint8_t) (prim_stop (type_size T_uint8_t) q)))"
  by (rule cdr_layout_pair.pair_layout [OF cdr_layout_pair.intro [OF basic_layout.cdr_layout_axioms header_end.pair_layout]])

lemma header_stop: "array_stop (type_size T_uint8_t) 2 (prim_stop (type_size T_uint8_t) (prim_stop (type_size T_uint8_t) q)) = q + 4"
  by (simp add: array_stop_def prim_stop_def pad_to_def)

end
