(* ===== verification/Generated_Messages.thy ===== *)
theory Generated_Messages
  imports Cdr_Layout
begin

text \<open>
  The serialisers that \<open>make_libraries.py\<close> generates for messages with fields that are messages themselves and
  for arrays, of a fixed and of a variable length. A variable-length field \<open>x\<close> is three members of the
  class: the static instance \<open>st_x\<close>, the number of elements \<open>x_length\<close> and the storage \<open>x\<close>, which the
  deserialiser reallocates. Elements are copied into the storage as plain memory. An element that holds
  storage of its own would then share it with \<open>st_x\<close>; objects of such types are not values of the kind
  used here, and deserialising one is \<open>None\<close>, as is an access outside the storage.
\<close>

section \<open>Types, objects, environment\<close>

datatype gen_type =
  G_prim ucdr_type | G_string | G_msg "gen_type list" | G_array gen_type nat | G_seq gen_type

text \<open>\<open>W_unterminated p\<close> is a pointer to characters whose terminator was not where the length says.\<close>

datatype gen_value =
  W_prim "u8 list" | W_string "u8 list" | W_unterminated nat | W_msg "gen_value list"
  | W_array "gen_value list" | W_seq gen_value u32 "gen_value list"

text \<open>
  The size of an object, whether an allocation of so many bytes
  succeeds, what an uninitialised variable holds, and what fresh memory holds.
\<close>

record gen_env =
  ge_sizeof :: "gen_type \<Rightarrow> nat"
  ge_realloc :: "nat \<Rightarrow> bool"
  ge_uninit :: u32
  ge_fresh :: gen_value

text \<open>The elements the generator supports, and the types without storage of their own.\<close>

definition element_type :: "gen_type \<Rightarrow> bool" where
  "element_type t \<longleftrightarrow> (case t of G_prim ty \<Rightarrow> True | G_msg ts \<Rightarrow> True | _ \<Rightarrow> False)"

primrec flat_type :: "gen_type \<Rightarrow> bool" where
  "flat_type (G_prim ty) \<longleftrightarrow> True"
| "flat_type G_string \<longleftrightarrow> True"
| "flat_type (G_msg ts) \<longleftrightarrow> list_all id (map flat_type ts)"
| "flat_type (G_array t n) \<longleftrightarrow> flat_type t"
| "flat_type (G_seq t) \<longleftrightarrow> False"

section \<open>Serialising\<close>

primrec write_members :: "('v \<Rightarrow> cdr_state \<Rightarrow> cdr_state) list \<Rightarrow> 'v list \<Rightarrow> cdr_state \<Rightarrow> cdr_state" where
  "write_members [] vs s = s"
| "write_members (f # fs) vs s = write_members fs (tl vs) (f (hd vs) s)"

primrec gen_serialize :: "on_full_env \<Rightarrow> gen_type \<Rightarrow> gen_value \<Rightarrow> cdr_state \<Rightarrow> cdr_state" where
  "gen_serialize cb (G_prim ty) v s = (case v of W_prim bs \<Rightarrow> snd (ucdr_serialize cb ty bs s) | _ \<Rightarrow> s)"
| "gen_serialize cb G_string v s = (case v of W_string str \<Rightarrow> snd (ucdr_serialize_string cb str s) | _ \<Rightarrow> s)"
| "gen_serialize cb (G_msg ts) v s =
     (case v of W_msg vs \<Rightarrow> write_members (map (gen_serialize cb) ts) vs s | _ \<Rightarrow> s)"
| "gen_serialize cb (G_array t n) v s =
     (case v of W_array vs \<Rightarrow> fold (gen_serialize cb t) (take n vs) s | _ \<Rightarrow> s)"
| "gen_serialize cb (G_seq t) v s =
     (case v of
        W_seq st len store \<Rightarrow>
          fold (gen_serialize cb t) (take (unat len) store) (snd (ucdr_serialize cb T_uint32_t (le_bytes 4 len) s))
      | _ \<Rightarrow> s)"

definition gen_cdr_serialize :: "on_full_env \<Rightarrow> gen_type list \<Rightarrow> gen_value list \<Rightarrow> cdr_state \<Rightarrow> bool \<times> cdr_state" where
  "gen_cdr_serialize cb ts vs s = (True, write_members (map (gen_serialize cb) ts) vs s)"

section \<open>Deserialising\<close>

text \<open>
  A reader gets the old value of a member, and gives whether the function goes on, the new value, and
  the buffer. \<open>read_members\<close> stops at the first member that makes the function return false.
\<close>

type_synonym gen_reader = "gen_value \<Rightarrow> cdr_state \<Rightarrow> (bool \<times> gen_value \<times> cdr_state) option"

primrec read_members ::
  "gen_reader list \<Rightarrow> gen_value list \<Rightarrow> cdr_state \<Rightarrow> (bool \<times> gen_value list \<times> cdr_state) option"
where
  "read_members [] olds s = Some (True, [], s)"
| "read_members (f # fs) olds s =
     (case f (hd olds) s of
        None \<Rightarrow> None
      | Some (ok, v, s1) \<Rightarrow>
          if \<not> ok then Some (False, v # tl olds, s1)
          else (case read_members fs (tl olds) s1 of
                  None \<Rightarrow> None
                | Some (ok', vs, s2) \<Rightarrow> Some (ok', v # vs, s2)))"

definition grow_storage :: "gen_env \<Rightarrow> gen_type \<Rightarrow> u32 \<Rightarrow> u32 \<Rightarrow> gen_value list \<Rightarrow> gen_value list" where
  "grow_storage K t lengthT len store =
     (if lengthT > len
      then (let bytes = unat (lengthT * of_nat (ge_sizeof K t)); k = bytes div ge_sizeof K t
            in if ge_realloc K bytes then take k store @ replicate (k - length store) (ge_fresh K) else [])
      else store)"

text \<open>The loop over the elements: into \<open>st_x\<close>, and from there into the storage.\<close>

primrec read_sequence ::
  "gen_reader \<Rightarrow> nat \<Rightarrow> nat \<Rightarrow> gen_value \<Rightarrow> gen_value list \<Rightarrow> cdr_state \<Rightarrow>
     (bool \<times> gen_value \<times> gen_value list \<times> cdr_state) option"
where
  "read_sequence f 0 i st store s = Some (True, st, store, s)"
| "read_sequence f (Suc n) i st store s =
     (case f st s of
        None \<Rightarrow> None
      | Some (ok, st1, s1) \<Rightarrow>
          if \<not> ok then Some (False, st1, store, s1)
          else if i < length store then read_sequence f n (Suc i) st1 (store[i := st1]) s1
          else None)"

definition read_string :: "on_full_env \<Rightarrow> gen_reader" where
  "read_string cb old s =
     (case string_deserialize cb s of
        (Some str, s') \<Rightarrow> Some (True, W_string str, s')
      | (None, s') \<Rightarrow>
          Some (False, (if fst (ucdr_deserialize cb T_uint32_t s) then W_unterminated (ub_iterator (snd s')) else old), s'))"

primrec gen_deserialize :: "on_full_env \<Rightarrow> gen_env \<Rightarrow> gen_type \<Rightarrow> gen_reader" where
  "gen_deserialize cb K (G_prim ty) old s =
     (case old of
        W_prim bs \<Rightarrow> (case prim_deserialize cb ty bs s of (x, s') \<Rightarrow> Some (True, W_prim x, s'))
      | _ \<Rightarrow> None)"
| "gen_deserialize cb K G_string old s = read_string cb old s"
| "gen_deserialize cb K (G_msg ts) old s =
     (case old of
        W_msg olds \<Rightarrow>
          (case read_members (map (gen_deserialize cb K) ts) olds s of
             None \<Rightarrow> None
           | Some (ok, vs, s') \<Rightarrow> Some (True, W_msg vs, s'))
      | _ \<Rightarrow> None)"
| "gen_deserialize cb K (G_array t n) old s =
     (case old of
        W_array olds \<Rightarrow>
          (case read_members (replicate n (gen_deserialize cb K t)) olds s of
             None \<Rightarrow> None
           | Some (ok, vs, s') \<Rightarrow> Some (ok, W_array vs, s'))
      | _ \<Rightarrow> None)"
| "gen_deserialize cb K (G_seq t) old s =
     (case old of
        W_seq st len store \<Rightarrow>
          if \<not> flat_type t then None
          else (case ucdr_deserialize cb T_uint32_t s of
                  (ok, v, s1) \<Rightarrow>
                    (let lengthT = (case v of Some bs \<Rightarrow> le_word bs | None \<Rightarrow> ge_uninit K)
                     in case read_sequence (gen_deserialize cb K t) (unat lengthT) 0 st (grow_storage K t lengthT len store) s1 of
                          None \<Rightarrow> None
                        | Some (ok', st', store', s') \<Rightarrow> Some (ok', W_seq st' lengthT store', s')))
      | _ \<Rightarrow> None)"

definition gen_cdr_deserialize ::
  "on_full_env \<Rightarrow> gen_env \<Rightarrow> gen_type list \<Rightarrow> gen_value list \<Rightarrow> cdr_state \<Rightarrow> (bool \<times> gen_value list \<times> cdr_state) option"
where
  "gen_cdr_deserialize cb K ts olds s = read_members (map (gen_deserialize cb K) ts) olds s"

section \<open>Values and objects\<close>

text \<open>
  The value of an object: of a variable-length array only the elements that count. A value is its own
  view; \<open>gen_valid\<close> also says that the sizes of the storage can be computed in 32 bits.
\<close>

primrec gen_view :: "gen_value \<Rightarrow> gen_value" where
  "gen_view (W_prim bs) = W_prim bs"
| "gen_view (W_string str) = W_string str"
| "gen_view (W_unterminated p) = W_unterminated p"
| "gen_view (W_msg vs) = W_msg (map gen_view vs)"
| "gen_view (W_array vs) = W_array (map gen_view vs)"
| "gen_view (W_seq st len store) = W_seq (W_prim []) len (take (unat len) (map gen_view store))"

primrec gen_valid :: "gen_env \<Rightarrow> gen_type \<Rightarrow> gen_value \<Rightarrow> bool" where
  "gen_valid K (G_prim ty) v = (case v of W_prim bs \<Rightarrow> basic_valid ty bs | _ \<Rightarrow> False)"
| "gen_valid K G_string v = (case v of W_string str \<Rightarrow> string_valid (2 ^ 32) str | _ \<Rightarrow> False)"
| "gen_valid K (G_msg ts) v =
     (case v of W_msg vs \<Rightarrow> list_all2 (\<lambda>p v. p v) (map (gen_valid K) ts) vs | _ \<Rightarrow> False)"
| "gen_valid K (G_array t n) v =
     (case v of W_array vs \<Rightarrow> element_type t \<and> length vs = n \<and> list_all (gen_valid K t) vs | _ \<Rightarrow> False)"
| "gen_valid K (G_seq t) v =
     (case v of
        W_seq st len vs \<Rightarrow>
          element_type t \<and> flat_type t \<and> st = W_prim [] \<and> length vs = unat len \<and> list_all (gen_valid K t) vs \<and>
          0 < ge_sizeof K t \<and> unat len * ge_sizeof K t < 2 ^ 32 \<and> ge_realloc K (unat len * ge_sizeof K t)
      | _ \<Rightarrow> False)"

text \<open>An object of a type, as its constructor makes it and every deserialisation leaves it.\<close>

primrec shaped :: "gen_type \<Rightarrow> gen_value \<Rightarrow> bool" where
  "shaped (G_prim ty) v = (case v of W_prim bs \<Rightarrow> True | _ \<Rightarrow> False)"
| "shaped G_string v = True"
| "shaped (G_msg ts) v = (case v of W_msg vs \<Rightarrow> list_all2 (\<lambda>p v. p v) (map shaped ts) vs | _ \<Rightarrow> False)"
| "shaped (G_array t n) v = (case v of W_array vs \<Rightarrow> length vs = n \<and> list_all (shaped t) vs | _ \<Rightarrow> False)"
| "shaped (G_seq t) v = (case v of W_seq st len store \<Rightarrow> element_type t \<and> shaped t st \<and> unat len \<le> length store | _ \<Rightarrow> False)"

text \<open>The elements of an array never make the function that reads them return.\<close>

lemma element_type_ok: "element_type t \<Longrightarrow> gen_deserialize cb K t old s = Some (ok, v, s') \<Longrightarrow> ok"
  by (cases t) (auto simp: element_type_def split: gen_value.splits option.splits prod.splits)

lemma read_sequence_ok:
  assumes "\<And>old s ok v s'. f old s = Some (ok, v, s') \<Longrightarrow> ok"
  shows "read_sequence f n i st store s = Some (ok, r) \<Longrightarrow> ok"
proof (induction n arbitrary: i st store s)
  case (Suc n)
  obtain ok1 st1 s1 where 1: "f st s = Some (ok1, st1, s1)" using Suc.prems by (auto split: option.splits)
  then have ok1 by (rule assms(1))
  then show ?case using Suc.IH [of "Suc i" st1 "store[i := st1]" s1] Suc.prems 1 by (auto split: if_splits)
qed simp

lemma list_all2_map_fun: "list_all2 (\<lambda>p v. p v) (map f xs) ys = list_all2 (\<lambda>x v. f x v) xs ys"
  by (simp add: list.rel_map)

lemma grow_storage_length:
  assumes "unat len \<le> length store" "0 < ge_sizeof K t" "unat lengthT * ge_sizeof K t < 2 ^ 32"
    and "ge_realloc K (unat lengthT * ge_sizeof K t)"
  shows "unat lengthT \<le> length (grow_storage K t lengthT len store)"
proof (cases "lengthT > len")
  case True
  have "lengthT * of_nat (ge_sizeof K t) = of_nat (unat lengthT * ge_sizeof K t)" by simp
  then have "unat (lengthT * of_nat (ge_sizeof K t)) = unat lengthT * ge_sizeof K t"
    using assms(3) unat_of_nat_less [of "unat lengthT * ge_sizeof K t", where ?'a = 32] by (simp only:) simp
  then show ?thesis using True assms by (simp add: grow_storage_def Let_def)
next
  case False
  then have "unat lengthT \<le> unat len" by (simp add: word_le_nat_alt not_less)
  moreover have "grow_storage K t lengthT len store = store" using False by (simp add: grow_storage_def)
  ultimately show ?thesis using assms(1) by simp
qed

lemma read_members_shaped:
  assumes "\<And>t old s ok v s'. t \<in> set ts \<Longrightarrow> gen_deserialize cb K t old s = Some (ok, v, s') \<Longrightarrow> shaped t old \<Longrightarrow> shaped t v"
    and "list_all2 shaped ts olds" "read_members (map (gen_deserialize cb K) ts) olds s = Some (ok, vs, s')"
  shows "list_all2 shaped ts vs"
  using assms
proof (induction ts arbitrary: olds s vs)
  case (Cons t ts)
  from Cons.prems(2) obtain old olds' where o: "olds = old # olds'" "shaped t old" "list_all2 shaped ts olds'"
    by (auto simp: list_all2_Cons1)
  obtain ok1 v s1 where 1: "gen_deserialize cb K t old s = Some (ok1, v, s1)"
    using Cons.prems(3) o(1) by (auto split: option.splits)
  have v: "shaped t v" using Cons.prems(1) [OF _ 1] o(2) by simp
  show ?case
  proof (cases ok1)
    case False
    then show ?thesis using Cons.prems(3) o 1 v by auto
  next
    case True
    then obtain ws where ws: "read_members (map (gen_deserialize cb K) ts) olds' s1 = Some (ok, ws, s')" "vs = v # ws"
      using Cons.prems(3) o 1 by (auto split: option.splits)
    have "list_all2 shaped ts ws" by (rule Cons.IH [OF _ o(3) ws(1)]) (use Cons.prems(1) in auto)
    then show ?thesis using v ws(2) by simp
  qed
qed simp

lemma read_sequence_shaped:
  assumes "\<And>old s ok v s'. f old s = Some (ok, v, s') \<Longrightarrow> P old \<Longrightarrow> P v"
    and "read_sequence f n i st store s = Some (ok, st', store', s')" "P st"
  shows "P st' \<and> length store' = length store \<and> (ok \<longrightarrow> i + n \<le> length store \<or> n = 0)"
  using assms(2,3)
proof (induction n arbitrary: i st store s)
  case (Suc n)
  obtain ok1 st1 s1 where 1: "f st s = Some (ok1, st1, s1)" using Suc.prems(1) by (auto split: option.splits)
  have "P st1" using assms(1) [OF 1] Suc.prems(2) .
  then show ?case using Suc.IH [of "Suc i" st1 "store[i := st1]" s1] Suc.prems(1) 1 by (auto split: if_splits)
qed simp

section \<open>The codec contract\<close>

text \<open>What a reader gives its caller, seen as a value.\<close>

definition viewed :: "gen_reader \<Rightarrow> gen_value \<Rightarrow> cdr_state \<Rightarrow> gen_value option \<times> cdr_state" where
  "viewed f old s =
     (case f old s of None \<Rightarrow> (None, s) | Some (ok, v, s') \<Rightarrow> (if ok then Some (gen_view v) else None, s'))"

definition viewed_members :: "gen_reader list \<Rightarrow> gen_value list \<Rightarrow> cdr_state \<Rightarrow> gen_value list option \<times> cdr_state" where
  "viewed_members fs olds s =
     (case read_members fs olds s of None \<Rightarrow> (None, s) | Some (ok, vs, s') \<Rightarrow> (if ok then Some (map gen_view vs) else None, s'))"

lemma viewed_SomeE:
  assumes "viewed f old s = (Some x, s')"
  obtains v where "f old s = Some (True, v, s')" "gen_view v = x"
  using assms by (auto simp: viewed_def split: option.splits if_splits)

lemma viewed_members_SomeE:
  assumes "viewed_members fs olds s = (Some xs, s')"
  obtains vs where "read_members fs olds s = Some (True, vs, s')" "map gen_view vs = xs"
  using assms by (auto simp: viewed_members_def split: option.splits if_splits)

text \<open>A codec for the same bytes under another representation of the values.\<close>

lemma codec_transport:
  assumes "cdr_codec ser deser valid"
    and "\<And>x. valid' x \<Longrightarrow> \<exists>y. x = g y \<and> valid y \<and> (\<forall>s. ser' x s = ser y s)"
    and "\<And>s y s'. deser s = (Some y, s') \<Longrightarrow> deser' s = (Some (g y), s')"
  shows "cdr_codec ser' deser' valid'"
proof (unfold_locales, goal_cases)
  case (1 ub x m)
  then show ?case using assms(2) [of x] cdr_codec.ser_safe [OF assms(1)] by fastforce
next
  case (2 ub x m m' ub' m'' ubr)
  then obtain y where y: "x = g y" "valid y" "ser y (m, ub) = (m', ub')" using assms(2) [of x] by auto
  show ?case unfolding y(1) by (rule assms(3) [OF cdr_codec.deser_ser [OF assms(1) 2(1) y(2,3) 2(4,5)]])
qed

lemma list_all2_single: "list_all2 P (t # ts) vs \<longleftrightarrow> vs \<noteq> [] \<and> P t (hd vs) \<and> list_all2 P ts (tl vs)"
  by (cases vs) auto

lemma write_members_codec:
  assumes "\<And>t old. t \<in> set ts \<Longrightarrow> shaped t old \<Longrightarrow>
      cdr_codec (gen_serialize cb t) (viewed (gen_deserialize cb K t) old) (gen_valid K t)"
    and "list_all2 shaped ts olds"
  shows "cdr_codec (write_members (map (gen_serialize cb) ts)) (viewed_members (map (gen_deserialize cb K) ts) olds)
    (list_all2 (gen_valid K) ts)"
  using assms
proof (induction ts arbitrary: olds)
  case Nil
  show ?case
    by unfold_locales (auto simp: moved_def transferred_def viewed_members_def intro: safe_step_refl)
next
  case (Cons t ts)
  let ?d1 = "viewed (gen_deserialize cb K t) (hd olds)" and ?d2 = "viewed_members (map (gen_deserialize cb K) ts) (tl olds)"
  have o: "shaped t (hd olds)" "list_all2 shaped ts (tl olds)" using Cons.prems(2) by (auto simp: list_all2_Cons1)
  have pair: "cdr_codec_pair (gen_serialize cb t) ?d1 (gen_valid K t) (write_members (map (gen_serialize cb) ts)) ?d2
      (list_all2 (gen_valid K) ts)"
    using Cons.prems(1) o by (intro cdr_codec_pair.intro Cons.IH) simp_all
  show ?case
  proof (rule codec_transport [OF cdr_codec_pair.pair_codec [OF pair], where g = "\<lambda>p. fst p # snd p"], goal_cases)
    case (1 vs)
    then show ?case
      by (intro exI [of _ "(hd vs, tl vs)"]) (auto simp: list_all2_single pair_ser_def)
  next
    case (2 s p s')
    then obtain s1 where "?d1 s = (Some (fst p), s1)" "?d2 s1 = (Some (snd p), s')"
      by (metis pair_deser_SomeE prod.collapse)
    then show ?case
      by (elim viewed_SomeE viewed_members_SomeE) (auto simp: viewed_members_def)
  qed
qed

text \<open>The elements of a variable-length array: each is read into the static instance and copied into the storage.\<close>

lemma read_sequence_elements:
  assumes cod: "\<And>old. P old \<Longrightarrow> cdr_codec ser (viewed f old) valid"
    and keep: "\<And>old s ok v s'. f old s = Some (ok, v, s') \<Longrightarrow> P old \<Longrightarrow> P v"
    and "P st" "fixed_buffer ub" "\<forall>x \<in> set xs. valid x" "list_ser ser xs (m, ub) = (m', ub')" "\<not> ub_error ub'"
    and "transferred ub (m', ub') (m'', ubr)" "i + length xs \<le> length store"
  shows "\<exists>st' store'. read_sequence f (length xs) i st store (m'', ubr) = Some (True, st', store', m'', moved ub ub' ubr) \<and>
    length store' = length store \<and> take i store' = take i store \<and> map gen_view (take (length xs) (drop i store')) = xs"
  using assms(3-)
proof (induction xs arbitrary: m ub ubr i st store)
  case Nil
  then show ?case by (simp add: list_ser_def moved_def transferred_def)
next
  case (Cons x xs)
  have c: "cdr_codec ser (viewed f st) valid" using cod Cons.prems(1) .
  obtain m1 ub1 where s1: "ser x (m, ub) = (m1, ub1)" by fastforce
  have st1: "safe_step (m, ub) (m1, ub1)" using cdr_codec.ser_safe [OF c, of ub x m] Cons.prems s1 by simp
  then have fix1: "fixed_buffer ub1" by (rule safe_step_fixed)
  have s2: "list_ser ser xs (m1, ub1) = (m', ub')" using Cons.prems(4) s1 by (simp add: list_ser_def)
  have st2: "safe_step (m1, ub1) (m', ub')" using cdr_codec.list_safe [OF c fix1, of xs m1] Cons.prems(3) s2 by simp
  have ok1: "\<not> ub_error ub1" using st2 Cons.prems(5) by (rule safe_step_error)
  have "viewed f st (m'', ubr) = (Some x, m'', moved ub ub1 ubr)"
    using Cons.prems(3) by (intro cdr_codec.deser_ser [OF c Cons.prems(2) _ s1 ok1 transferred_fst [OF st1 st2 Cons.prems(6)]]) simp
  then obtain v where v: "f st (m'', ubr) = Some (True, v, m'', moved ub ub1 ubr)" "gen_view v = x"
    by (rule viewed_SomeE)
  have i: "i < length store" "Suc i + length xs \<le> length (store[i := v])" using Cons.prems(7) by simp_all
  have "\<forall>y \<in> set xs. valid y" using Cons.prems(3) by simp
  from Cons.IH [OF keep [OF v(1) Cons.prems(1)] fix1 this s2 Cons.prems(5) transferred_snd [OF st1 st2 Cons.prems(6)] i(2)]
  obtain st' store' where r: "read_sequence f (length xs) (Suc i) v (store[i := v]) (m'', moved ub ub1 ubr) =
      Some (True, st', store', m'', moved ub1 ub' (moved ub ub1 ubr))"
    "length store' = length store" "take (Suc i) store' = take (Suc i) (store[i := v])"
    "map gen_view (take (length xs) (drop (Suc i) store')) = xs" by auto
  have "store' ! i = v" using r(3) i(1) by (metis lessI nth_list_update_eq nth_take)
  then have "drop i store' = v # drop (Suc i) store'" using r(2) i(1) by (metis Cons_nth_drop_Suc)
  moreover have "take i store' = take i store"
    using arg_cong [OF r(3), of "take i"] by simp
  ultimately show ?case
    using r v i(1) st1 st2 by (auto simp: moved_trans safe_step_def)
qed

lemma read_string_codec: "cdr_codec (gen_serialize cb G_string) (viewed (read_string cb) old) (gen_valid K G_string)"
proof (unfold_locales, goal_cases)
  case (1 ub x m)
  then show ?case by (auto intro: str.ser_safe split: gen_value.splits)
next
  case (2 ub x m m' ub' m'' ubr)
  then obtain s where s: "x = W_string s" "string_valid (2 ^ 32) s" by (auto split: gen_value.splits)
  then have "string_deserialize cb (m'', ubr) = (Some s, m'', moved ub ub' ubr)"
    using 2 by (intro string_deser_ser) simp_all
  then show ?case using s by (simp add: viewed_def read_string_def)
qed

lemma length_codec: "cdr_codec (\<lambda>len s. snd (ucdr_serialize cb T_uint32_t (le_bytes 4 len) s))
    (\<lambda>s. map_prod (map_option le_word) id (snd (ucdr_deserialize cb T_uint32_t s))) (\<lambda>len :: u32. True)"
proof (rule codec_transport [OF basic.cdr_codec_axioms [where ty = T_uint32_t and cb = cb], where g = le_word], goal_cases)
  case (1 len)
  then show ?case by (intro exI [of _ "le_bytes 4 len"]) (simp add: le_word_le_bytes basic_valid_def)
next
  case (2 s y s')
  then show ?case by simp
qed

lemma list_all2_replicate: "list_all2 P (replicate n t) vs \<longleftrightarrow> length vs = n \<and> list_all (P t) vs"
  by (auto simp: list_all2_conv_all_nth list_all_length)

lemma write_members_replicate:
  "write_members (replicate (length vs) f) vs s = fold f vs s"
  by (induction vs arbitrary: s) simp_all

text \<open>Every deserialisation leaves an object of the type.\<close>

lemma gen_deserialize_shaped:
  "gen_deserialize cb K t old s = Some (ok, v, s') \<Longrightarrow> shaped t old \<Longrightarrow> shaped t v"
proof (induction t arbitrary: old s ok v s')
  case (G_prim ty)
  then show ?case by (auto split: gen_value.splits prod.splits)
next
  case G_string
  show ?case by simp
next
  case (G_msg ts)
  obtain olds where o: "old = W_msg olds" "list_all2 shaped ts olds"
    using G_msg.prems(2) by (auto simp: list_all2_map_fun split: gen_value.splits)
  then obtain ok' vs where r: "read_members (map (gen_deserialize cb K) ts) olds s = Some (ok', vs, s')" "v = W_msg vs"
    using G_msg.prems(1) by (auto split: option.splits)
  have "list_all2 shaped ts vs" by (rule read_members_shaped [OF _ o(2) r(1)]) (use G_msg.IH in blast)
  then show ?case using r(2) by (simp add: list_all2_map_fun)
next
  case (G_array t n)
  obtain olds where o: "old = W_array olds" "list_all2 shaped (replicate n t) olds"
    using G_array.prems(2) by (auto simp: list_all2_replicate split: gen_value.splits)
  then obtain vs where r: "read_members (map (gen_deserialize cb K) (replicate n t)) olds s = Some (ok, vs, s')" "v = W_array vs"
    using G_array.prems(1) by (auto split: option.splits)
  have "list_all2 shaped (replicate n t) vs" by (rule read_members_shaped [OF _ o(2) r(1)]) (use G_array.IH in auto)
  then show ?case using r(2) by (simp add: list_all2_replicate)
next
  case (G_seq t)
  obtain st len store where o: "old = W_seq st len store" "shaped t st" "element_type t"
    using G_seq.prems(2) by (auto split: gen_value.splits)
  then obtain lengthT s1 st' store' where r: "v = W_seq st' lengthT store'"
    "read_sequence (gen_deserialize cb K t) (unat lengthT) 0 st (grow_storage K t lengthT len store) s1 = Some (ok, st', store', s')"
    using G_seq.prems(1) by (auto simp: Let_def split: option.splits prod.splits if_splits)
  have ok using read_sequence_ok [OF element_type_ok [OF o(3)] r(2)] .
  then show ?case
    using read_sequence_shaped [where P = "shaped t", OF _ r(2) o(2)] G_seq.IH r(1) o(3) by auto
qed

text \<open>Whatever the object held before, a serialised value is read back into it.\<close>

lemma seq_validE:
  assumes "gen_valid K (G_seq t) x"
  obtains len vs where "x = W_seq (W_prim []) len vs" "length vs = unat len" "\<forall>v \<in> set vs. gen_valid K t v"
    "flat_type t" "0 < ge_sizeof K t" "unat len * ge_sizeof K t < 2 ^ 32" "ge_realloc K (unat len * ge_sizeof K t)"
  using assms by (auto simp: list_all_iff split: gen_value.splits)

lemma seq_codec:
  assumes IH: "\<And>old. shaped t old \<Longrightarrow>
      cdr_codec (gen_serialize cb t) (viewed (gen_deserialize cb K t) old) (gen_valid K t)"
    and sh: "shaped (G_seq t) old"
  shows "cdr_codec (gen_serialize cb (G_seq t)) (viewed (gen_deserialize cb K (G_seq t)) old) (gen_valid K (G_seq t))"
proof -
  obtain st0 len0 store0 where o: "old = W_seq st0 len0 store0" "shaped t st0" "unat len0 \<le> length store0"
    using sh by (auto split: gen_value.splits)
  let ?len = "\<lambda>len s. snd (ucdr_serialize cb T_uint32_t (le_bytes 4 (len :: u32)) s)"
  have c: "cdr_codec (gen_serialize cb t) (viewed (gen_deserialize cb K t) st0) (gen_valid K t)"
    using IH o(2) .
  have l: "cdr_codec ?len (\<lambda>s. map_prod (map_option le_word) id (snd (ucdr_deserialize cb T_uint32_t s))) (\<lambda>len :: u32. True)"
    by (rule length_codec)
  have ser: "gen_serialize cb (G_seq t) (W_seq (W_prim []) len vs) s = list_ser (gen_serialize cb t) vs (?len len s)"
    if "length vs = unat len" for len vs s
    using that by (simp add: list_ser_def)
  show ?thesis
  proof (unfold_locales, goal_cases)
    case (1 ub x m)
    then obtain len vs where x: "x = W_seq (W_prim []) len vs" "length vs = unat len" "\<forall>v \<in> set vs. gen_valid K t v"
      by (elim seq_validE)
    obtain m1 ub1 where s1: "?len len (m, ub) = (m1, ub1)" by fastforce
    then have st: "safe_step (m, ub) (m1, ub1)" using cdr_codec.ser_safe [OF l 1(1) TrueI, of m len] by simp
    show ?case
      unfolding x(1) ser [OF x(2)] s1 by (rule safe_step_trans [OF st cdr_codec.list_safe [OF c safe_step_fixed [OF st] x(3)]])
  next
    case (2 ub x m m' ub' m'' ubr)
    then obtain len vs where x: "x = W_seq (W_prim []) len vs" "length vs = unat len" "\<forall>v \<in> set vs. gen_valid K t v"
      "flat_type t" "0 < ge_sizeof K t" "unat len * ge_sizeof K t < 2 ^ 32" "ge_realloc K (unat len * ge_sizeof K t)"
      by (elim seq_validE)
    obtain m1 ub1 where s1: "?len len (m, ub) = (m1, ub1)" by fastforce
    then have st1: "safe_step (m, ub) (m1, ub1)" using cdr_codec.ser_safe [OF l 2(1) TrueI, of m len] by simp
    then have fix1: "fixed_buffer ub1" by (rule safe_step_fixed)
    have s2: "list_ser (gen_serialize cb t) vs (m1, ub1) = (m', ub')"
      using 2(3) unfolding x(1) ser [OF x(2)] s1 .
    have st2: "safe_step (m1, ub1) (m', ub')" using cdr_codec.list_safe [OF c fix1 x(3), of m1] s2 by simp
    have ok1: "\<not> ub_error ub1" using st2 2(4) by (rule safe_step_error)
    have "map_prod (map_option le_word) id (snd (ucdr_deserialize cb T_uint32_t (m'', ubr))) =
        (Some len, m'', moved ub ub1 ubr)"
      by (rule cdr_codec.deser_ser [OF l 2(1) TrueI s1 ok1 transferred_fst [OF st1 st2 2(5)]])
    then obtain ok bs where d: "ucdr_deserialize cb T_uint32_t (m'', ubr) = (ok, Some bs, m'', moved ub ub1 ubr)"
      "le_word bs = len"
      by (cases "ucdr_deserialize cb T_uint32_t (m'', ubr)") auto
    let ?store = "grow_storage K t len len0 store0"
    have room: "0 + length vs \<le> length ?store" using grow_storage_length [OF o(3) x(5-7)] x(2) by simp
    have keep: "shaped t v" if "gen_deserialize cb K t old s = Some (ok, v, s')" "shaped t old" for old s ok v s'
      using that by (rule gen_deserialize_shaped)
    have "\<exists>st' store'. read_sequence (gen_deserialize cb K t) (length vs) 0 st0 ?store (m'', moved ub ub1 ubr) =
          Some (True, st', store', m'', moved ub1 ub' (moved ub ub1 ubr)) \<and> length store' = length ?store \<and>
        take 0 store' = take 0 ?store \<and> map gen_view (take (length vs) (drop 0 store')) = vs"
      by (rule read_sequence_elements [where P = "shaped t", OF _ _ o(2) fix1 x(3) s2 2(4) transferred_snd [OF st1 st2 2(5)] room])
        (erule IH, erule (1) keep)
    then obtain st' store' where r: "read_sequence (gen_deserialize cb K t) (unat len) 0 st0 ?store (m'', moved ub ub1 ubr) =
        Some (True, st', store', m'', moved ub1 ub' (moved ub ub1 ubr))"
      "map gen_view (take (unat len) store') = vs"
      by (auto simp: x(2))
    show ?case
      using r st1 st2 x(4) by (simp add: viewed_def o(1) d x(1) take_map moved_trans safe_step_def)
  qed
qed

theorem gen_codec:
  "shaped t old \<Longrightarrow> cdr_codec (gen_serialize cb t) (viewed (gen_deserialize cb K t) old) (gen_valid K t)"
proof (induction t arbitrary: old)
  case (G_prim ty)
  then obtain bs where o: "old = W_prim bs" by (auto split: gen_value.splits)
  show ?case
  proof (rule codec_transport [OF basic.cdr_codec_axioms [where ty = ty and cb = "cb"], where g = W_prim], goal_cases)
    case (1 x)
    then show ?case by (auto split: gen_value.splits)
  next
    case (2 s y s')
    then show ?case by (simp add: viewed_def o prim_deserialize_codec)
  qed
next
  case G_string
  have "viewed (gen_deserialize cb K G_string) old = viewed (read_string cb) old" by (simp add: viewed_def fun_eq_iff)
  then show ?case using read_string_codec [of "cb" old K] by (simp only:)
next
  case (G_msg ts)
  obtain olds where o: "old = W_msg olds" "list_all2 shaped ts olds"
    using G_msg.prems by (auto simp: list_all2_map_fun split: gen_value.splits)
  show ?case
  proof (rule codec_transport [OF write_members_codec [OF G_msg.IH o(2)], where g = W_msg], goal_cases)
    case (3 x)
    then show ?case by (auto simp: list_all2_map_fun split: gen_value.splits)
  next
    case (4 s y s')
    then show ?case by (elim viewed_members_SomeE) (auto simp: viewed_def o(1))
  qed
next
  case (G_array t n)
  obtain olds where o: "old = W_array olds" "list_all2 shaped (replicate n t) olds"
    using G_array.prems by (auto simp: list_all2_replicate split: gen_value.splits)
  show ?case
  proof (rule codec_transport [OF write_members_codec [OF _ o(2), of "cb" K], where g = W_array], goal_cases)
    case (1 t' old)
    then show ?case using G_array.IH by simp
  next
    case (2 x)
    then show ?case by (auto simp: list_all2_replicate write_members_replicate split: gen_value.splits)
  next
    case (3 s y s')
    then show ?case by (elim viewed_members_SomeE) (auto simp: viewed_def o(1))
  qed
next
  case (G_seq t)
  show ?case by (rule seq_codec [OF G_seq.IH G_seq.prems])
qed

section \<open>Layout\<close>

text \<open>The offset after a value that is laid out by the CDR rule.\<close>

primrec stop_members :: "('v \<Rightarrow> nat \<Rightarrow> nat) list \<Rightarrow> 'v list \<Rightarrow> nat \<Rightarrow> nat" where
  "stop_members [] vs p = p"
| "stop_members (f # fs) vs p = stop_members fs (tl vs) (f (hd vs) p)"

primrec gen_stop :: "gen_type \<Rightarrow> gen_value \<Rightarrow> nat \<Rightarrow> nat" where
  "gen_stop (G_prim ty) v p = prim_stop (type_size ty) p"
| "gen_stop G_string v p = (case v of W_string str \<Rightarrow> string_stop str p | _ \<Rightarrow> p)"
| "gen_stop (G_msg ts) v p = (case v of W_msg vs \<Rightarrow> stop_members (map gen_stop ts) vs p | _ \<Rightarrow> p)"
| "gen_stop (G_array t n) v p = (case v of W_array vs \<Rightarrow> fold (gen_stop t) (take n vs) p | _ \<Rightarrow> p)"
| "gen_stop (G_seq t) v p =
     (case v of W_seq st len store \<Rightarrow> fold (gen_stop t) (take (unat len) store) (prim_stop 4 p) | _ \<Rightarrow> p)"

lemma stop_members_ge: "(\<And>f v p. f \<in> set fs \<Longrightarrow> p \<le> f v p) \<Longrightarrow> p \<le> stop_members fs vs p"
proof (induction fs arbitrary: vs p)
  case (Cons f fs)
  have "p \<le> f (hd vs) p" "f (hd vs) p \<le> stop_members fs (tl vs) (f (hd vs) p)"
    using Cons.prems by (auto intro: Cons.IH)
  then show ?case by simp
qed simp

lemma fold_stop_ge: "(\<And>x p. p \<le> f x p) \<Longrightarrow> (p :: nat) \<le> fold f xs p"
  by (induction xs arbitrary: p) (auto intro: order_trans)

lemma gen_stop_ge: "p \<le> gen_stop t v p"
proof (induction t arbitrary: v p)
  case (G_prim ty)
  show ?case by (simp add: prim_stop_def)
next
  case G_string
  show ?case by (simp add: string_stop_def prim_stop_def split: gen_value.splits)
next
  case (G_msg ts)
  then have "p \<le> stop_members (map gen_stop ts) vs p" for vs by (intro stop_members_ge) auto
  then show ?case by (simp split: gen_value.splits)
next
  case (G_array t n)
  then show ?case by (auto intro: fold_stop_ge split: gen_value.splits)
next
  case (G_seq t)
  have "p \<le> fold (gen_stop t) xs (prim_stop 4 p)" for xs
    by (rule order_trans [OF _ fold_stop_ge [OF G_seq]]) (simp add: prim_stop_def)
  then show ?case by (simp split: gen_value.splits)
qed

text \<open>One value follows its layout: it is placed if it fits, and the error flag is raised if it does not.\<close>

definition laid_out :: "(cdr_state \<Rightarrow> cdr_state) \<Rightarrow> (nat \<Rightarrow> nat) \<Rightarrow> bool" where
  "laid_out w stop \<longleftrightarrow>
     (\<forall>a ub m m' ub'. located a ub \<longrightarrow> w (m, ub) = (m', ub') \<longrightarrow>
        (if a + stop (ub_offset ub) \<le> ub_final ub then located a ub' \<and> ub_offset ub' = stop (ub_offset ub) else ub_error ub'))"

lemma layout_laid_out:
  assumes "cdr_layout ser deser valid stop" "valid x"
  shows "laid_out (ser x) (stop x)"
  unfolding laid_out_def
proof (intro allI impI)
  fix a ub m m' ub'
  assume r: "located a ub" "ser x (m, ub) = (m', ub')"
  show "if a + stop x (ub_offset ub) \<le> ub_final ub then located a ub' \<and> ub_offset ub' = stop x (ub_offset ub) else ub_error ub'"
  proof (cases "a + stop x (ub_offset ub) \<le> ub_final ub")
    case True
    from cdr_layout.layout_fits [OF assms(1) r(1) assms(2) r(2) this] True show ?thesis by simp
  next
    case False
    then have "ub_final ub < a + stop x (ub_offset ub)" by simp
    from cdr_layout.layout_short [OF assms(1) r(1) assms(2) r(2) this] False show ?thesis by simp
  qed
qed

lemma laid_out_used:
  "laid_out w stop \<Longrightarrow> located a ub \<Longrightarrow> w (m, ub) = (m', ub') \<Longrightarrow>
   (if a + stop (ub_offset ub) \<le> ub_final ub then located a ub' \<and> ub_offset ub' = stop (ub_offset ub) else ub_error ub')"
  unfolding laid_out_def by blast

lemma laid_out_eq:
  assumes "laid_out w stop" "\<And>s. w' s = w s" "\<And>p. stop' p = stop p"
  shows "laid_out w' stop'"
proof -
  have "w' = w" "stop' = stop" using assms(2,3) by (auto intro!: ext)
  then show ?thesis using assms(1) by simp
qed

lemma layout_transport:
  assumes "cdr_codec ser deser valid" "\<And>x p. p \<le> stop x p" "\<And>x. valid x \<Longrightarrow> laid_out (ser x) (stop x)"
  shows "cdr_layout ser deser valid stop"
proof (intro cdr_layout.intro assms(1) cdr_layout_axioms.intro assms(2), goal_cases)
  case (1 a ub x m m' ub')
  then show ?case using laid_out_used [OF assms(3) [OF 1(2)] 1(1) 1(3)] by simp
next
  case (2 a ub x m m' ub')
  then show ?case using laid_out_used [OF assms(3) [OF 2(2)] 2(1) 2(3)] by simp
qed

lemma write_members_layout:
  assumes "\<And>t old. t \<in> set ts \<Longrightarrow> shaped t old \<Longrightarrow>
      cdr_layout (gen_serialize cb t) (viewed (gen_deserialize cb K t) old) (gen_valid K t) (gen_stop t)"
    and "list_all2 shaped ts olds"
  shows "cdr_layout (write_members (map (gen_serialize cb) ts)) (viewed_members (map (gen_deserialize cb K) ts) olds)
    (list_all2 (gen_valid K) ts) (stop_members (map gen_stop ts))"
  using assms
proof (induction ts arbitrary: olds)
  case Nil
  show ?case
  proof (intro cdr_layout.intro cdr_layout_axioms.intro, goal_cases)
    case 1
    show ?case by (rule write_members_codec) (use Nil in auto)
  qed (auto simp: located_def fixed_buffer_def ub_wf_def)
next
  case (Cons t ts)
  let ?d1 = "viewed (gen_deserialize cb K t) (hd olds)" and ?d2 = "viewed_members (map (gen_deserialize cb K) ts) (tl olds)"
  have o: "shaped t (hd olds)" "list_all2 shaped ts (tl olds)" using Cons.prems(2) by (auto simp: list_all2_Cons1)
  have pair: "cdr_layout_pair (gen_serialize cb t) ?d1 (gen_valid K t) (gen_stop t)
      (write_members (map (gen_serialize cb) ts)) ?d2 (list_all2 (gen_valid K) ts) (stop_members (map gen_stop ts))"
    using Cons.prems(1) o by (intro cdr_layout_pair.intro Cons.IH) simp_all
  have cod: "cdr_codec (write_members (map (gen_serialize cb) (t # ts)))
      (viewed_members (map (gen_deserialize cb K) (t # ts)) olds) (list_all2 (gen_valid K) (t # ts))"
    by (rule write_members_codec [OF _ Cons.prems(2)]) (erule gen_codec)
  show ?case
  proof (rule layout_transport [OF cod], goal_cases)
    case (1 vs p)
    show ?case by (rule stop_members_ge) (auto simp: gen_stop_ge)
  next
    case (2 vs)
    then show ?case
      by (intro laid_out_eq [OF layout_laid_out [OF cdr_layout_pair.pair_layout [OF pair], of "(hd vs, tl vs)"]])
        (simp_all add: list_all2_single pair_ser_def)
  qed
qed

lemma list_codec:
  assumes "cdr_codec ser deser valid"
  shows "cdr_codec (list_ser ser) (list_deser deser k) (\<lambda>xs. length xs = k \<and> (\<forall>x \<in> set xs. valid x))"
  using cdr_codec.list_safe [OF assms] cdr_codec.list_deser_ser [OF assms] by unfold_locales auto

lemma list_layout:
  assumes "cdr_layout ser deser valid stop"
  shows "cdr_layout (list_ser ser) (list_deser deser k) (\<lambda>xs. length xs = k \<and> (\<forall>x \<in> set xs. valid x)) (fold stop)"
proof (intro cdr_layout.intro list_codec cdr_layout.axioms(1) [OF assms] cdr_layout_axioms.intro, goal_cases)
  case (1 p xs)
  show ?case by (rule fold_stop_ge) (rule cdr_layout.stop_ge [OF assms])
next
  case (2 a ub xs m m' ub')
  then show ?case using cdr_layout.list_layout_fits [OF assms] by blast
next
  case (3 a ub xs m m' ub')
  then show ?case using cdr_layout.list_layout_short [OF assms] by blast
qed

lemma length_layout: "cdr_layout (\<lambda>len s. snd (ucdr_serialize cb T_uint32_t (le_bytes 4 len) s))
    (\<lambda>s. map_prod (map_option le_word) id (snd (ucdr_deserialize cb T_uint32_t s))) (\<lambda>len :: u32. True) (\<lambda>len. prim_stop 4)"
proof (rule layout_transport [OF length_codec], goal_cases)
  case (1 x p)
  show ?case by (simp add: prim_stop_def)
next
  case (2 len)
  show ?case
    using layout_laid_out [OF basic_layout.cdr_layout_axioms [where ty = T_uint32_t and cb = cb], of "le_bytes 4 len"]
    by (simp add: basic_valid_def)
qed

lemma stop_members_replicate: "stop_members (replicate (length vs) f) vs p = fold f vs p"
  by (induction vs arbitrary: p) simp_all

theorem gen_layout:
  "shaped t old \<Longrightarrow>
    cdr_layout (gen_serialize cb t) (viewed (gen_deserialize cb K t) old) (gen_valid K t) (gen_stop t)"
proof (induction t arbitrary: old)
  case (G_prim ty)
  show ?case
  proof (rule layout_transport [OF gen_codec [OF G_prim] gen_stop_ge])
    fix x assume "gen_valid K (G_prim ty) x"
    then obtain bs where "x = W_prim bs" "basic_valid ty bs" by (auto split: gen_value.splits)
    then show "laid_out (gen_serialize cb (G_prim ty) x) (gen_stop (G_prim ty) x)"
      by (intro laid_out_eq [OF layout_laid_out [OF basic_layout.cdr_layout_axioms [where ty = ty and cb = "cb"], of bs]])
        simp_all
  qed
next
  case G_string
  show ?case
  proof (rule layout_transport [OF gen_codec [OF G_string] gen_stop_ge])
    fix x assume "gen_valid K G_string x"
    then obtain str where "x = W_string str" "string_valid (2 ^ 32) str" by (auto split: gen_value.splits)
    then show "laid_out (gen_serialize cb G_string x) (gen_stop G_string x)"
      by (intro laid_out_eq [OF layout_laid_out [OF string_layout.cdr_layout_axioms [where cb = "cb"], of str]])
        simp_all
  qed
next
  case (G_msg ts)
  obtain olds where o: "old = W_msg olds" "list_all2 shaped ts olds"
    using G_msg.prems by (auto simp: list_all2_map_fun split: gen_value.splits)
  show ?case
  proof (rule layout_transport [OF gen_codec [OF G_msg.prems] gen_stop_ge])
    fix x assume "gen_valid K (G_msg ts) x"
    then obtain vs where "x = W_msg vs" "list_all2 (gen_valid K) ts vs"
      by (auto simp: list_all2_map_fun split: gen_value.splits)
    then show "laid_out (gen_serialize cb (G_msg ts) x) (gen_stop (G_msg ts) x)"
      by (intro laid_out_eq [OF layout_laid_out [OF write_members_layout [OF G_msg.IH o(2)], of vs]]) simp_all
  qed
next
  case (G_array t n)
  obtain olds where o: "list_all2 shaped (replicate n t) olds"
    using G_array.prems by (auto simp: list_all2_replicate split: gen_value.splits)
  have "cdr_layout (write_members (map (gen_serialize cb) (replicate n t)))
      (viewed_members (map (gen_deserialize cb K) (replicate n t)) olds) (list_all2 (gen_valid K) (replicate n t))
      (stop_members (map gen_stop (replicate n t)))"
    by (rule write_members_layout [OF _ o]) (use G_array.IH in auto)
  note lay = layout_laid_out [OF this]
  show ?case
  proof (rule layout_transport [OF gen_codec [OF G_array.prems] gen_stop_ge])
    fix x assume "gen_valid K (G_array t n) x"
    then obtain vs where vs: "x = W_array vs" "length vs = n" "list_all (gen_valid K t) vs"
      by (auto split: gen_value.splits)
    then show "laid_out (gen_serialize cb (G_array t n) x) (gen_stop (G_array t n) x)"
      by (intro laid_out_eq [OF lay [of vs]])
        (auto simp: list_all2_replicate write_members_replicate stop_members_replicate)
  qed
next
  case (G_seq t)
  obtain st where st: "shaped t st" using G_seq.prems by (auto split: gen_value.splits)
  show ?case
  proof (rule layout_transport [OF gen_codec [OF G_seq.prems] gen_stop_ge])
    fix x assume "gen_valid K (G_seq t) x"
    then obtain len vs where x: "x = W_seq (W_prim []) len vs" "length vs = unat len" "\<forall>v \<in> set vs. gen_valid K t v"
      by (elim seq_validE)
    then show "laid_out (gen_serialize cb (G_seq t) x) (gen_stop (G_seq t) x)"
      by (intro laid_out_eq [OF layout_laid_out [OF cdr_layout_pair.pair_layout
          [OF cdr_layout_pair.intro [OF length_layout [of "cb"] list_layout [OF G_seq.IH [OF st], of "unat len"]]], of "(len, vs)"]])
        (simp_all add: pair_ser_def list_ser_def)
  qed
qed

section \<open>Constructed objects\<close>

primrec gen_supported :: "gen_type \<Rightarrow> bool" where
  "gen_supported (G_prim ty) \<longleftrightarrow> True"
| "gen_supported G_string \<longleftrightarrow> True"
| "gen_supported (G_msg ts) \<longleftrightarrow> list_all id (map gen_supported ts)"
| "gen_supported (G_array t n) \<longleftrightarrow> element_type t \<and> gen_supported t"
| "gen_supported (G_seq t) \<longleftrightarrow> element_type t \<and> gen_supported t"

primrec gen_init :: "gen_type \<Rightarrow> gen_value" where
  "gen_init (G_prim ty) = W_prim (replicate (type_size ty) 0)"
| "gen_init G_string = W_string []"
| "gen_init (G_msg ts) = W_msg (map gen_init ts)"
| "gen_init (G_array t n) = W_array (replicate n (gen_init t))"
| "gen_init (G_seq t) = W_seq (gen_init t) 0 []"

lemma gen_init_shaped: "gen_supported t \<Longrightarrow> shaped t (gen_init t)"
proof (induction t)
  case (G_msg ts)
  then show ?case by (simp add: list_all2_map_fun list_all2_conv_all_nth list_all_length)
qed (simp_all add: list_all_length)

lemma gen_init_members: "list_all gen_supported ts \<Longrightarrow> list_all2 shaped ts (map gen_init ts)"
  by (simp add: list_all2_conv_all_nth list_all_length gen_init_shaped)

lemma gen_members_codec:
  "list_all2 shaped ts olds \<Longrightarrow> cdr_codec (write_members (map (gen_serialize cb) ts))
     (viewed_members (map (gen_deserialize cb K) ts) olds) (list_all2 (gen_valid K) ts)"
  by (rule write_members_codec) (erule gen_codec)

lemma gen_members_layout:
  "list_all2 shaped ts olds \<Longrightarrow> cdr_layout (write_members (map (gen_serialize cb) ts))
     (viewed_members (map (gen_deserialize cb K) ts) olds) (list_all2 (gen_valid K) ts) (stop_members (map gen_stop ts))"
  by (rule write_members_layout) (erule gen_layout)

section \<open>Messages with their header\<close>

text \<open>The messages of a class that a reader with the memory \<open>K\<close> can hold.\<close>

definition msg_valid :: "gen_env \<Rightarrow> gen_type list \<Rightarrow> gen_value list \<Rightarrow> bool" where
  "msg_valid K ts vs \<longleftrightarrow> list_all gen_supported ts \<and> list_all2 (gen_valid K) ts vs"

definition packet_serialize :: "on_full_env \<Rightarrow> gen_type list \<Rightarrow> gen_value list \<Rightarrow> cdr_state \<Rightarrow> cdr_state" where
  "packet_serialize cb ts vs s = snd (gen_cdr_serialize cb ts vs (snd (serialize_encapsulation cb s)))"

definition packet_deserialize ::
  "on_full_env \<Rightarrow> gen_env \<Rightarrow> gen_type list \<Rightarrow> gen_value list \<Rightarrow> cdr_state \<Rightarrow> (bool \<times> gen_value list \<times> cdr_state) option"
where
  "packet_deserialize cb K ts olds s = gen_cdr_deserialize cb K ts olds (snd (deserialize_encapsulation cb s))"

definition packet_viewed ::
  "on_full_env \<Rightarrow> gen_env \<Rightarrow> gen_type list \<Rightarrow> gen_value list \<Rightarrow> cdr_state \<Rightarrow> gen_value list option \<times> cdr_state"
where
  "packet_viewed cb K ts olds s = viewed_members (map (gen_deserialize cb K) ts) olds (snd (deserialize_encapsulation cb s))"

lemma packet_ser_pair:
  "packet_serialize cb ts vs s = pair_ser (header_ser cb) (write_members (map (gen_serialize cb) ts)) (header_value, vs) s"
  by (simp add: packet_serialize_def serialize_encapsulation_header gen_cdr_serialize_def pair_ser_def)

lemma packet_deser_pair:
  assumes "pair_deser (header_deser cb) (viewed_members (map (gen_deserialize cb K) ts) olds) s = (Some (header_value, vs), s')"
  shows "packet_viewed cb K ts olds s = (Some vs, s')"
proof -
  obtain s1 where h: "header_deser cb s = (Some header_value, s1)"
    "viewed_members (map (gen_deserialize cb K) ts) olds s1 = (Some vs, s')"
    using assms by (rule pair_deser_SomeE)
  then show ?thesis by (simp add: packet_viewed_def deserialize_encapsulation_header [OF h(1)])
qed

lemma packet_layout:
  assumes "list_all2 shaped ts olds"
  shows "cdr_layout (packet_serialize cb ts) (packet_viewed cb K ts olds) (msg_valid K ts)
    (\<lambda>vs p. stop_members (map gen_stop ts) vs (p + 4))"
proof -
  note lay = cdr_layout_pair.pair_layout [OF cdr_layout_pair.intro [OF header_layout [of cb] gen_members_layout [OF assms, of cb K]]]
  note cod = cdr_layout.axioms(1) [OF lay]
  have v: "msg_valid K ts vs \<Longrightarrow> list_all2 (gen_valid K) ts vs" for vs by (simp add: msg_valid_def)
  have ge: "p \<le> stop_members (map gen_stop ts) vs (p + 4)" for vs p
    by (rule order_trans [OF _ stop_members_ge]) (auto simp: gen_stop_ge)
  have c: "cdr_codec (packet_serialize cb ts) (packet_viewed cb K ts olds) (msg_valid K ts)"
  proof (unfold_locales, goal_cases)
    case (1 ub vs m)
    then show ?case
      using cdr_codec.ser_safe [OF cod, of ub "(header_value, vs)" m] v header_valid by (simp add: packet_ser_pair)
  next
    case (2 ub vs m m' ub' m'' ubr)
    then show ?case
      using cdr_codec.deser_ser [OF cod, of ub "(header_value, vs)" m m' ub' m'' ubr] v header_valid
      by (intro packet_deser_pair) (simp add: packet_ser_pair)
  qed
  show ?thesis
  proof (rule layout_transport [OF c ge])
    fix vs assume "msg_valid K ts vs"
    then show "laid_out (packet_serialize cb ts vs) (\<lambda>p. stop_members (map gen_stop ts) vs (p + 4))"
      using v header_valid
      by (intro laid_out_eq [OF layout_laid_out [OF lay, of "(header_value, vs)"]]) (simp_all add: packet_ser_pair header_stop [simplified])
  qed
qed

text \<open>Reading into a new object of the class gives the contract without a condition on the object.\<close>

definition packet_into_new :: "on_full_env \<Rightarrow> gen_env \<Rightarrow> gen_type list \<Rightarrow> cdr_state \<Rightarrow> gen_value list option \<times> cdr_state" where
  "packet_into_new cb K ts s =
     (if list_all gen_supported ts then packet_viewed cb K ts (map gen_init ts) s else (None, s))"

interpretation packet: cdr_layout "packet_serialize cb ts" "packet_into_new cb K ts" "msg_valid K ts"
  "\<lambda>vs p. stop_members (map gen_stop ts) vs (p + 4)" for cb K ts
proof (cases "list_all gen_supported ts")
  case True
  then show "cdr_layout (packet_serialize cb ts) (packet_into_new cb K ts) (msg_valid K ts)
      (\<lambda>vs p. stop_members (map gen_stop ts) vs (p + 4))"
    using packet_layout [OF gen_init_members [OF True], of cb K] by (simp add: packet_into_new_def [abs_def])
next
  case False
  have "p \<le> stop_members (map gen_stop ts) vs (p + 4)" for vs p
    by (rule order_trans [OF _ stop_members_ge]) (auto simp: gen_stop_ge)
  with False show "cdr_layout (packet_serialize cb ts) (packet_into_new cb K ts) (msg_valid K ts)
      (\<lambda>vs p. stop_members (map gen_stop ts) vs (p + 4))"
    by unfold_locales (simp_all add: msg_valid_def)
qed

lemma packet_fits:
  assumes "located a ub" "msg_valid K ts vs" "packet_serialize cb ts vs (m, ub) = (m', ub')"
  shows "\<not> ub_error ub' \<longleftrightarrow> a + stop_members (map gen_stop ts) vs (ub_offset ub + 4) \<le> ub_final ub"
    and "\<not> ub_error ub' \<Longrightarrow> located a ub' \<and> ub_offset ub' = stop_members (map gen_stop ts) vs (ub_offset ub + 4)"
  using packet.layout_iff [OF assms] packet.layout_fits [OF assms] by auto

lemma packet_deser_ser:
  assumes "fixed_buffer ub" "msg_valid K ts vs" "list_all2 shaped ts olds" "packet_serialize cb ts vs (m, ub) = (m', ub')"
    and "\<not> ub_error ub'" "transferred ub (m', ub') (m'', ubr)"
  shows "\<exists>vs'. packet_deserialize cb K ts olds (m'', ubr) = Some (True, vs', m'', moved ub ub' ubr) \<and>
    map gen_view vs' = vs \<and> list_all2 shaped ts vs'"
proof -
  have "packet_viewed cb K ts olds (m'', ubr) = (Some vs, m'', moved ub ub' ubr)"
    by (rule cdr_codec.deser_ser [OF cdr_layout.axioms(1) [OF packet_layout [OF assms(3)]] assms(1,2,4-6)])
  then obtain vs' where r: "packet_deserialize cb K ts olds (m'', ubr) = Some (True, vs', m'', moved ub ub' ubr)"
    "map gen_view vs' = vs"
    unfolding packet_viewed_def packet_deserialize_def gen_cdr_deserialize_def by (rule viewed_members_SomeE)
  have "list_all2 shaped ts vs'"
    using r(1) unfolding packet_deserialize_def gen_cdr_deserialize_def
    by (intro read_members_shaped [OF _ assms(3)]) (erule (1) gen_deserialize_shaped)
  with r show ?thesis by blast
qed

end
