(* ===== verification/Cdr_Properties.thy ===== *)
theory Cdr_Properties
  imports Cdr_Layout
begin

text \<open>
  The properties of the CDR library that its users rely on, stated on its routines. The proofs
  apply the interpretations of the codec and layout contracts and the branch lemmas of each
  routine.
\<close>

section \<open>Sample buffers\<close>

definition sample_buffer :: ucdrBuffer where
  "sample_buffer = ucdr_init_buffer 16 64"

lemma sample_located: "located 16 sample_buffer" "fixed_buffer sample_buffer" "ub_offset sample_buffer = 0"
  "ub_final sample_buffer = 80" "ub_iterator sample_buffer = 16" "ub_init sample_buffer = 16"
  "\<not> ub_error sample_buffer" "ub_last_data_size sample_buffer = 0"
  by (simp_all add: sample_buffer_def located_def fixed_buffer_def ub_wf_def ub_aligned_def
      ucdr_init_buffer_def ucdr_init_buffer_origin_def ucdr_init_buffer_origin_offset_def
      ucdr_init_buffer_origin_offset_endian_def)

section \<open>Alignment\<close>

text \<open>
  For the sizes of the CDR types the alignment routine gives the least number of padding bytes
  that makes the position a multiple of the size.
\<close>

theorem alignment_is_least:
  assumes "n \<in> cdr_sizes"
  shows "ucdr_alignment p n < n \<and> n dvd p + ucdr_alignment p n \<and>
    (\<forall>k. n dvd p + k \<longrightarrow> ucdr_alignment p n \<le> k)"
proof -
  have pos: "0 < n" using assms by (rule cdr_sizes_pos)
  have "ucdr_alignment p n = pad_to n p" using cdr_sizes_power [OF assms] ucdr_alignment_pow2 by auto
  then show ?thesis using pad_to_less [OF pos] pad_to_aligned [OF pos] pad_to_least [OF pos] by simp
qed

theorem alignment_is_least_witness: "ucdr_alignment 13 8 = 3 \<and> 8 dvd 13 + ucdr_alignment 13 8"
  using alignment_is_least [of 8 13] by (simp add: cdr_sizes_def ucdr_alignment_def)

section \<open>Round trips\<close>

text \<open>
  A value of a basic type, serialised in either byte order, is read back by the deserialiser of
  the same byte order; in big-endian order the bytes in the buffer are the reversed object
  representation, in little-endian order the representation itself.
\<close>

theorem basic_round_trip:
  assumes "fixed_buffer ub" "basic_valid ty v" "ucdr_serialize_endian cb ty e v (m, ub) = (True, m', ub')"
  shows "ucdr_deserialize_endian cb ty e (m', ub) = (True, Some v, m', ub') \<and>
    mem_read (item_at (type_size ty) ub) (type_size ty) m' = (if e = UCDR_MACHINE_ENDIANNESS then v else rev v)"
proof -
  have len: "length v = type_size ty" using assms(2) by (simp add: basic_valid_def)
  have step: "UCDR_SERIALIZE_BYTE cb ty (\<lambda>_. e) v (m, ub) = (True, m', ub')"
    using assms(3) by (simp add: ucdr_serialize_endian_def)
  have fit: "fits (type_size ty) ub" and ub': "ub' = place (type_size ty) ub"
    and m': "m' = mem_write (item_at (type_size ty) ub) (cdr_bytes e v) m"
    using step assms(1) len serialize_step [of ub v ty "\<lambda>_. e" cb m]
    by (auto simp: fixed_buffer_def next_buffer_fits split: if_splits)
  have "mem_read (item_at (type_size ty) ub) (type_size ty) m' = cdr_bytes e v"
    using len by (simp add: m' mem_read_write_same)
  moreover from this have "ucdr_deserialize_endian cb ty e (m', ub) = (True, Some v, m', ub')"
    using fit assms(2) deserialize_fits [of ty ub "\<lambda>_. e" cb m']
    by (simp add: ucdr_deserialize_endian_def ub' stored_cdr_bytes)
  ultimately show ?thesis by (simp add: cdr_bytes_def)
qed

theorem basic_round_trip_witness:
  "\<exists>m' ub'. ucdr_serialize_endian no_callback T_uint32_t UCDR_BIG_ENDIANNESS [1, 2, 3, 4] (\<lambda>_. 0, sample_buffer) = (True, m', ub') \<and>
     ucdr_deserialize_endian no_callback T_uint32_t UCDR_BIG_ENDIANNESS (m', sample_buffer) = (True, Some [1, 2, 3, 4], m', ub') \<and>
     mem_read 16 4 m' = [4, 3, 2, 1]"
proof -
  have v: "basic_valid T_uint32_t [1, 2, 3, 4]" by (simp add: basic_valid_def)
  have al: "ucdr_buffer_alignment sample_buffer 4 = 0"
    by (simp add: ucdr_buffer_alignment_def sample_located)
  have "fits 4 sample_buffer" by (simp add: fits_def al sample_located)
  then have "ucdr_serialize_endian no_callback T_uint32_t UCDR_BIG_ENDIANNESS [1, 2, 3, 4] (\<lambda>_. 0, sample_buffer) =
      (True, mem_write 16 (cdr_bytes UCDR_BIG_ENDIANNESS [1, 2, 3, 4]) (\<lambda>_. 0), place 4 sample_buffer)"
    using serialize_fits [of T_uint32_t sample_buffer "[1, 2, 3, 4]" "\<lambda>_. UCDR_BIG_ENDIANNESS" no_callback "\<lambda>_. 0"]
    by (simp add: ucdr_serialize_endian_def item_at_def al sample_located)
  from basic_round_trip [OF sample_located(2) v this] this show ?thesis
    by (auto simp: item_at_def al sample_located UCDR_MACHINE_ENDIANNESS_def)
qed

text \<open>
  An array is laid out the same way by the block copy the code uses in the machine's byte order
  and by the loop over the elements it uses in the other one: padding, then the elements one after
  the other, each in the byte order asked for; and it is read back element by element.
\<close>

theorem array_copy_is_element_loop:
  assumes "array_fits (type_size ty) (length array) ub" "array_valid ty (length array) array"
  shows "ucdr_serialize_endian_array cb ty e array (m, ub) =
    (True, serialize_elements cb ty (\<lambda>_. e) array
       (m, move_iterator (ucdr_buffer_alignment ub (type_size ty)) ub))"
    (is "?lhs = _")
proof -
  let ?n = "type_size ty" and ?a = "ucdr_buffer_alignment ub (type_size ty)"
  have ne: "array \<noteq> []" and v: "\<forall>v \<in> set array. length v = ?n" using assms(2) by (auto simp: array_valid_def)
  have lhs: "?lhs = (True, mem_write (item_at ?n ub) (array_bytes e array) m, array_place ?n (length array) ub)"
    using serialize_array_fits [OF assms(1) ne v, of "\<lambda>_. e" cb m] by (simp add: ucdr_serialize_endian_array_def)
  have al: "ucdr_buffer_alignment (move_iterator ?a ub) ?n = 0"
    by (simp add: alignment_after_padding type_size_cdr_sizes)
  have "serialize_elements cb ty (\<lambda>_. e) array (m, move_iterator ?a ub) =
      (mem_write (item_at ?n ub) (array_bytes e array) m, array_place ?n (length array) ub)"
    using serialize_elements_fits [of "move_iterator ?a ub" array ty "\<lambda>_. e" cb m] assms(1) ne v al
    by (simp add: array_fits_def item_at_def array_place_def move_iterator_def add.assoc)
  then show ?thesis by (simp only: lhs)
qed

theorem array_copy_is_element_loop_witness:
  "ucdr_serialize_endian_array no_callback T_uint16_t UCDR_LITTLE_ENDIANNESS [[1, 2], [3, 4]] (\<lambda>_. 0, sample_buffer) =
    (True, serialize_elements no_callback T_uint16_t (\<lambda>_. UCDR_LITTLE_ENDIANNESS) [[1, 2], [3, 4]]
       (\<lambda>_. 0, move_iterator 0 sample_buffer))"
proof -
  have al: "ucdr_buffer_alignment sample_buffer 2 = 0" by (simp add: ucdr_buffer_alignment_def sample_located)
  have "array_fits 2 2 sample_buffer" by (simp add: array_fits_def item_at_def al sample_located)
  then show ?thesis
    using array_copy_is_element_loop [of T_uint16_t "[[1, 2], [3, 4]]" sample_buffer no_callback UCDR_LITTLE_ENDIANNESS "\<lambda>_. 0"]
    by (simp add: array_valid_def al [unfolded numeral_2_eq_2] sample_located numeral_2_eq_2)
qed

text \<open>
  A sequence, or a string with its terminating null, that was serialised without an error is read
  back exactly, with its length, by a reader whose capacity suffices, in either byte order.
\<close>

theorem sequence_round_trip:
  assumes "fixed_buffer ub" "sequence_valid ty capacity array"
    and "snd (ucdr_serialize_endian_sequence cb ty e array (of_nat (length array)) (m, ub)) = (m', ub')"
    and "\<not> ub_error ub'" "transferred ub (m', ub') (m'', ubr)"
  shows "ucdr_deserialize_endian_sequence cb ty e capacity length0 (m'', ubr) =
    (True, map Some (concat array), of_nat (length array), m'', moved ub ub' ubr)"
  using assms sequence_deser_ser [of ub ty capacity array "\<lambda>_. e" cb m m' ub' m'' ubr length0]
  by (simp add: ucdr_serialize_endian_sequence_def ucdr_deserialize_endian_sequence_def)

theorem sequence_round_trip_witness:
  "\<exists>m' ub'. snd (ucdr_serialize_endian_sequence no_callback T_uint16_t UCDR_BIG_ENDIANNESS [[1, 2]] 1 (\<lambda>_. 0, sample_buffer)) = (m', ub') \<and>
     ucdr_deserialize_endian_sequence no_callback T_uint16_t UCDR_BIG_ENDIANNESS 5 0 (m', sample_buffer) =
       (True, [Some 1, Some 2], 1, m', ub')"
proof -
  let ?E = "\<lambda>_. UCDR_BIG_ENDIANNESS"
  have v: "sequence_valid T_uint16_t 5 [[1, 2]]" by (simp add: sequence_valid_def)
  have al: "ucdr_buffer_alignment sample_buffer 4 = 0" by (simp add: ucdr_buffer_alignment_def sample_located)
  have fit: "sequence_fits 2 1 sample_buffer"
    by (simp add: sequence_fits_def array_fits_def fits_def al sample_located item_at_def buffer_alignment_large)
  have s: "snd (ucdr_serialize_endian_sequence no_callback T_uint16_t UCDR_BIG_ENDIANNESS [[1, 2]]
      (of_nat (length [[1 :: u8, 2]])) (\<lambda>_. 0, sample_buffer)) =
      (sequence_mem UCDR_BIG_ENDIANNESS 2 [[1, 2]] sample_buffer (\<lambda>_. 0), sequence_place 2 1 sample_buffer)"
    using serialize_sequence_fits [of T_uint16_t "[[1, 2]]" sample_buffer ?E no_callback "\<lambda>_. 0"] fit
    by (simp add: ucdr_serialize_endian_sequence_def)
  have ok: "\<not> ub_error (sequence_place 2 1 sample_buffer)"
    by (simp add: sequence_place_def array_place_def sample_located)
  have st: "safe_step (\<lambda>_. 0, sample_buffer)
      (sequence_mem UCDR_BIG_ENDIANNESS 2 [[1, 2]] sample_buffer (\<lambda>_. 0), sequence_place 2 1 sample_buffer)"
    using sequence_endian.ser_safe [OF sample_located(2) v, of "\<lambda>_. 0" no_callback UCDR_BIG_ENDIANNESS] s by simp
  show ?thesis
    using sequence_round_trip [OF sample_located(2) v s ok transferred_self [OF st ok], of 0] s
      moved_self [OF st ok sample_located(2)] by auto
qed

section \<open>Errors\<close>

text \<open>
  The error flag is sticky. Once it is raised no routine writes or stores anything and the
  position stays where it is, whatever the full-buffer callback would do.
\<close>

theorem error_is_sticky:
  assumes "ub_error ub"
  shows "ucdr_serialize cb ty v (m, ub) = (False, m, after_error (type_size ty) ub) \<and>
    ucdr_deserialize cb ty (m, ub) = (False, None, m, after_error (type_size ty) ub) \<and>
    ub_error (after_error (type_size ty) ub) \<and> ub_iterator (after_error (type_size ty) ub) = ub_iterator ub \<and>
    (\<exists>ub'. ucdr_deserialize_array cb ty k (m, ub) = (False, replicate (k * type_size ty) None, m, ub') \<and> ub_error ub')"
  using assms deserialize_array_error [OF assms, of cb ty ub_endianness k m]
  by (simp add: ucdr_serialize_def ucdr_deserialize_def serialize_error deserialize_error
      ucdr_deserialize_array_def)

theorem error_is_sticky_witness:
  "ucdr_serialize no_callback T_uint32_t [1, 2, 3, 4] (\<lambda>_. 0, sample_buffer\<lparr>ub_error := True\<rparr>) =
     (False, \<lambda>_. 0, sample_buffer\<lparr>ub_error := True\<rparr>)"
  using error_is_sticky [of "sample_buffer\<lparr>ub_error := True\<rparr>" no_callback T_uint32_t "[1, 2, 3, 4]" "\<lambda>_. 0" 0]
  by (simp add: after_error_def sample_located)

text \<open>
  A sequence whose length field announces more elements than the destination can hold stores
  nothing in it and fails, for every element type, byte order and full-buffer callback.
\<close>

theorem sequence_respects_capacity:
  assumes "UCDR_DESERIALIZE_SEQUENCE cb ty E capacity length0 s = (ok, array, len, s')" "capacity < unat len"
  shows "\<not> ok \<and> array = replicate (unat len * type_size ty) None \<and> ub_error (snd s')"
proof -
  obtain len1 m1 ub1 where h: "ucdr_deserialize_sequence_header cb (E (snd s)) capacity length0 s = (len1, m1, ub1)"
    by (metis prod_cases3)
  have len: "len1 = len" using assms(1) h
    by (auto simp: UCDR_DESERIALIZE_SEQUENCE_def split: prod.splits if_splits)
  have err: "ub_error ub1"
    using h assms(2) len by (auto simp: ucdr_deserialize_sequence_header_def Let_def split: prod.splits if_splits)
  have "len \<noteq> 0" using assms(2) by auto
  then show ?thesis
    using assms(1) h len deserialize_array_error [OF err, of cb ty "\<lambda>_. E ub1" "unat len" m1]
    by (auto simp: UCDR_DESERIALIZE_SEQUENCE_def ucdr_deserialize_endian_array_def)
qed

theorem sequence_respects_capacity_witness:
  "\<exists>s'. UCDR_DESERIALIZE_SEQUENCE no_callback T_uint8_t ub_endianness 3 0 (mem_write 16 [4, 0, 0, 0] (\<lambda>_. 0), sample_buffer) =
     (False, replicate 4 None, 4, s')"
proof -
  let ?m = "mem_write 16 [4, 0, 0, 0] (\<lambda>_. 0)"
  have al: "ucdr_buffer_alignment sample_buffer 4 = 0" by (simp add: ucdr_buffer_alignment_def sample_located)
  have "mem_read 16 4 ?m = [4, 0, 0, 0]" by (rule mem_read_write_same) simp
  moreover have "ub_endianness sample_buffer = UCDR_MACHINE_ENDIANNESS"
    by (simp add: sample_buffer_def ucdr_init_buffer_def ucdr_init_buffer_origin_def
        ucdr_init_buffer_origin_offset_def ucdr_init_buffer_origin_offset_endian_def)
  ultimately have "fst (ucdr_deserialize_sequence_header no_callback (ub_endianness sample_buffer) 3 0 (?m, sample_buffer)) = 4"
    using deserialize_fits [of T_uint32_t sample_buffer "\<lambda>_. ub_endianness sample_buffer" no_callback ?m]
    by (simp add: ucdr_deserialize_sequence_header_def ucdr_deserialize_endian_def fits_def al sample_located
        item_at_def stored_def byte_cast_def cdr_bytes_def Let_def)
  moreover obtain ok array len s' where
    d: "UCDR_DESERIALIZE_SEQUENCE no_callback T_uint8_t ub_endianness 3 0 (?m, sample_buffer) = (ok, array, len, s')"
    by (metis prod_cases4)
  ultimately have "len = 4"
    by (auto simp: UCDR_DESERIALIZE_SEQUENCE_def split: prod.splits if_splits)
  with sequence_respects_capacity [OF d] d show ?thesis by auto
qed

text \<open>
  When an item is split between two buffers in the byte order that is not the machine's, the loop
  changes to the second buffer one byte late: with two bytes left it writes three bytes at the end
  of the first buffer, one of them past its end, and only one into the second.
\<close>

theorem split_write_is_late:
  "serialize_split 4 UCDR_BIG_ENDIANNESS [b0, b1, b2, b3] p 2 q m =
     m(p := b3, p + 1 := b2, p + 2 := b1, q := b0)"
  by (simp add: serialize_split_def UCDR_MACHINE_ENDIANNESS_def upt_conv_Cons numeral_3_eq_3 numeral_2_eq_2)

text \<open>
  A sequence without elements is reported as serialised even when its length field did not fit:
  the routine answers true although the buffer's error flag was raised and nothing was written.
\<close>

theorem empty_sequence_hides_error:
  assumes "fixed_buffer ub" "\<not> ub_error ub" "ub_iterator ub = ub_final ub"
  shows "\<exists>ub'. ucdr_serialize_sequence cb ty [] 0 (m, ub) = (True, m, ub') \<and> ub_error ub'"
proof -
  have nf: "\<not> fits 4 ub" using assms(3) by (simp add: fits_def)
  then have "UCDR_SERIALIZE_BYTE cb T_uint32_t (\<lambda>_. ub_endianness ub) (le_bytes 4 (0 :: u32)) (m, ub) =
      (False, m, overrun 4 ub)"
    using assms serialize_overrun [of ub T_uint32_t cb "\<lambda>_. ub_endianness ub" "le_bytes 4 (0 :: u32)" m]
    by (simp add: fixed_buffer_def)
  then show ?thesis
    by (simp add: ucdr_serialize_sequence_def UCDR_SERIALIZE_SEQUENCE_def ucdr_serialize_endian_def Let_def
        del: le_bytes.simps)
qed

theorem empty_sequence_hides_error_witness:
  "\<exists>ub'. ucdr_serialize_sequence no_callback T_double [] 0 (\<lambda>_. 0, sample_buffer\<lparr>ub_iterator := 80\<rparr>) = (True, \<lambda>_. 0, ub') \<and> ub_error ub'"
  using empty_sequence_hides_error [of "sample_buffer\<lparr>ub_iterator := 80\<rparr>" no_callback T_double "\<lambda>_. 0"] sample_located
  by (simp add: fixed_buffer_def ub_wf_def)

end
