(* ===== verification/Message_Properties.thy ===== *)
theory Message_Properties
  imports Generated_Messages Cdr_Properties
begin

text \<open>
  What the users of a generated message rely on: the layout, that nothing outside the buffer changes, the round
  trip into any object of the class, and what is reported of a failure.
\<close>

section \<open>A sample message\<close>

definition rich_memory :: gen_env where
  "rich_memory = \<lparr>ge_sizeof = (\<lambda>t. 2), ge_realloc = (\<lambda>n. n \<le> 64), ge_uninit = 0, ge_fresh = W_prim []\<rparr>"

abbreviation rich_types :: "gen_type list" where
  "rich_types \<equiv> [G_msg [G_prim T_uint8_t, G_string], G_seq (G_prim T_uint16_t), G_array (G_msg [G_prim T_uint32_t]) 2]"

abbreviation rich_values :: "gen_value list" where
  "rich_values \<equiv>
     [W_msg [W_prim [7], W_string [65, 66]], W_seq (W_prim []) 2 [W_prim [1, 2], W_prim [3, 4]],
      W_array [W_msg [W_prim [1, 0, 0, 0]], W_msg [W_prim [2, 0, 0, 0]]]]"

lemma rich_types_supported: "list_all gen_supported rich_types"
  by (simp add: element_type_def)

lemma rich_message_valid: "msg_valid rich_memory rich_types rich_values"
  by (simp add: msg_valid_def basic_valid_def string_valid_def rich_memory_def element_type_def)

lemma rich_stop: "stop_members (map gen_stop rich_types) rich_values p = prim_stop 4 (prim_stop 4 (prim_stop 2 (prim_stop 2
    (prim_stop 4 (string_stop [65, 66] (prim_stop 1 p))))))"
  by simp

section \<open>Layout\<close>



text \<open>
  C18: serialising a message, whatever its fields and whether it fits or not, changes no byte of
  memory outside the buffer, moves only forward inside it and never clears an error.
\<close>

theorem message_stays_in_buffer:
  assumes "fixed_buffer ub" "msg_valid K ts vs" "gen_cdr_serialize cb ts vs (m, ub) = (ok, m', ub')"
  shows "(\<forall>a. a < ub_iterator ub \<or> ub_final ub \<le> a \<longrightarrow> m' a = m a) \<and>
    ub_iterator ub \<le> ub_iterator ub' \<and> ub_iterator ub' \<le> ub_final ub \<and> (ub_error ub \<longrightarrow> ub_error ub')"
proof -
  have v: "list_all gen_supported ts" "list_all2 (gen_valid K) ts vs" using assms(2) by (simp_all add: msg_valid_def)
  have "safe_step (m, ub) (m', ub')"
    using cdr_codec.ser_safe [OF gen_members_codec [OF gen_init_members [OF v(1)], of cb K] assms(1) v(2), of m] assms(3)
    by (simp add: gen_cdr_serialize_def)
  then show ?thesis by (auto simp: safe_step_def fixed_buffer_def ub_wf_def)
qed

theorem message_stays_in_buffer_witness:
  "fst (snd (gen_cdr_serialize no_callback [G_array (G_prim T_uint8_t) 100] [W_array (replicate 100 (W_prim [1]))] (\<lambda>_. 0, sample_buffer))) 80 = 0"
proof -
  let ?ts = "[G_array (G_prim T_uint8_t) 100]" and ?vs = "[W_array (replicate 100 (W_prim [1]))]"
  have v: "msg_valid rich_memory ?ts ?vs" by (simp add: msg_valid_def element_type_def basic_valid_def list_all_length)
  obtain ok m' ub' where s: "gen_cdr_serialize no_callback ?ts ?vs (\<lambda>_. 0, sample_buffer) = (ok, m', ub')"
    by (metis prod_cases3)
  show ?thesis using message_stays_in_buffer [OF sample_located(2) v s] s by (simp add: sample_located)
qed

section \<open>Round trip\<close>

text \<open>
  C12: a message that was serialised without an error, encapsulation included, nested messages and arrays of a
  fixed or variable length included, is read back from wherever its bytes were copied to, into any object of its
  class whatever that held before: the object has the values that were written and the reader stops where the
  writer stopped.
\<close>

theorem message_round_trip:
  assumes "fixed_buffer ub" "msg_valid K ts vs" "list_all2 shaped ts olds" "packet_serialize cb ts vs (m, ub) = (m', ub')"
    and "\<not> ub_error ub'" "transferred ub (m', ub') (m'', ubr)"
  shows "\<exists>vs'. packet_deserialize cb K ts olds (m'', ubr) = Some (True, vs', m'', moved ub ub' ubr) \<and>
    map gen_view vs' = vs \<and> list_all2 shaped ts vs'"
  using assms by (rule packet_deser_ser)

theorem message_round_trip_witness:
  "\<exists>m' ub' vs'. packet_serialize no_callback rich_types rich_values (\<lambda>_. 0, sample_buffer) = (m', ub') \<and>
    packet_deserialize no_callback rich_memory rich_types (map gen_init rich_types) (m', sample_buffer) = Some (True, vs', m', ub') \<and>
    map gen_view vs' = rich_values"
proof -
  obtain m' ub' where s: "packet_serialize no_callback rich_types rich_values (\<lambda>_. 0, sample_buffer) = (m', ub')"
    by (metis prod.exhaust)
  have "16 + stop_members (map gen_stop rich_types) rich_values (ub_offset sample_buffer + 4) \<le> ub_final sample_buffer"
    unfolding sample_located rich_stop by (simp add: prim_stop_def string_stop_def pad_to_def)
  then have ok: "\<not> ub_error ub'" using packet_fits(1) [OF sample_located(1) rich_message_valid s] by blast
  have st: "safe_step (\<lambda>_. 0, sample_buffer) (m', ub')"
    using packet.ser_safe [OF sample_located(2) rich_message_valid, of "\<lambda>_. 0" no_callback] unfolding s .
  note r = message_round_trip [OF sample_located(2) rich_message_valid gen_init_members [OF rich_types_supported] s ok
      transferred_self [OF st ok], unfolded moved_self [OF st ok sample_located(2)]]
  show ?thesis
  proof (intro exI conjI)
    show "packet_serialize no_callback rich_types rich_values (\<lambda>_. 0, sample_buffer) = (m', ub')" by (rule s)
  qed (rule someI_ex [OF r, THEN conjunct1], rule someI_ex [OF r, THEN conjunct2, THEN conjunct1])
qed

section \<open>Failures\<close>

text \<open>A message without a string among its own members is always read with success, whatever the buffer holds.\<close>

lemma supported_ok:
  "gen_supported t \<Longrightarrow> t \<noteq> G_string \<Longrightarrow> gen_deserialize cb K t old s = Some (ok, v, s') \<Longrightarrow> ok"
proof (cases t)
  case (G_array t' n)
  have members: "read_members (replicate k (gen_deserialize cb K t')) olds s = Some (ok, vs, s') \<Longrightarrow> element_type t' \<Longrightarrow> ok" for k olds s vs
  proof (induction k arbitrary: olds s vs)
    case (Suc k)
    obtain ok1 v1 s1 where 1: "gen_deserialize cb K t' (hd olds) s = Some (ok1, v1, s1)"
      using Suc.prems(1) by (auto split: option.splits)
    have ok1 by (rule element_type_ok [OF Suc.prems(2) 1])
    then show ?case using Suc.IH [of "tl olds" s1] Suc.prems 1 by (auto split: option.splits)
  qed simp
  assume a: "gen_supported t" "gen_deserialize cb K t old s = Some (ok, v, s')"
  then obtain olds vs where "read_members (replicate n (gen_deserialize cb K t')) olds s = Some (ok, vs, s')"
    using G_array by (auto split: gen_value.splits option.splits)
  then show ?thesis using members a(1) G_array by simp
next
  case (G_seq t')
  assume a: "gen_supported t" "gen_deserialize cb K t old s = Some (ok, v, s')"
  then have el: "element_type t'" using G_seq by simp
  obtain f n i st store s1 r where "read_sequence f n i st store s1 = Some (ok, r)" "f = gen_deserialize cb K t'"
    using a(2) G_seq by (auto simp: Let_def split: gen_value.splits option.splits prod.splits if_splits)
  then show ?thesis using read_sequence_ok [of "gen_deserialize cb K t'"] element_type_ok [OF el] by blast
qed (auto split: gen_value.splits option.splits prod.splits)

theorem only_strings_fail:
  assumes "list_all gen_supported ts" "gen_cdr_deserialize cb K ts olds s = Some (False, vs, s')"
  shows "G_string \<in> set ts"
  using assms unfolding gen_cdr_deserialize_def
proof (induction ts arbitrary: olds s vs)
  case (Cons t ts)
  obtain ok1 v1 s1 where 1: "gen_deserialize cb K t (hd olds) s = Some (ok1, v1, s1)"
    using Cons.prems(2) by (auto split: option.splits)
  show ?case
  proof (cases ok1)
    case False
    then show ?thesis using supported_ok [of t cb K "hd olds" s ok1 v1 s1] 1 Cons.prems(1) by auto
  next
    case True
    then obtain ws where "read_members (map (gen_deserialize cb K) ts) (tl olds) s1 = Some (False, ws, s')"
      using Cons.prems(2) 1 by (auto split: option.splits)
    then show ?thesis using Cons.IH [of "tl olds" s1 ws] Cons.prems(1) by simp
  qed
qed simp

text \<open>What a nested message says about its own string is dropped: the message around it is read with success.\<close>

theorem nested_failure_dropped:
  "gen_cdr_deserialize cb K ts olds s = Some (False, vs, s') \<Longrightarrow>
   gen_cdr_deserialize cb K [G_msg ts] [W_msg olds] s = Some (True, [W_msg vs], s')"
  by (simp add: gen_cdr_deserialize_def)

text \<open>
  The size of the storage is computed in 32 bits. With eight bytes per element, a length of \<open>2 ^ 29 + 1\<close> asks for
  eight bytes, and the second element is copied outside of them.
\<close>

theorem sequence_size_wraps:
  assumes "ge_sizeof K (G_prim T_double) = 8" "ge_realloc K 8"
    and "ucdr_deserialize cb T_uint32_t s = (True, Some (le_bytes 4 (0x20000001 :: u32)), s1)"
  shows "grow_storage K (G_prim T_double) 0x20000001 0 [] = [ge_fresh K] \<and>
    gen_cdr_deserialize cb K [G_seq (G_prim T_double)] [W_seq (W_prim st) 0 []] s = None"
proof -
  have w: "unat (0x20000001 :: u32) = Suc (Suc 0x1FFFFFFF)" by simp
  have g: "grow_storage K (G_prim T_double) 0x20000001 0 [] = [ge_fresh K]"
    using assms(1,2) by (simp add: grow_storage_def)
  have b: "le_word (le_bytes 4 (0x20000001 :: u32)) = (0x20000001 :: u32)" by (simp add: le_word_le_bytes)
  have r: "read_sequence (gen_deserialize cb K (G_prim T_double)) (Suc (Suc n)) 0 (W_prim st) [v] s1 = None" for n v
    by (simp split: prod.splits)
  have "gen_deserialize cb K (G_seq (G_prim T_double)) (W_seq (W_prim st) 0 []) s = None"
    by (subst gen_deserialize.simps)
      (simp only: gen_value.case flat_type.simps assms(3) prod.case option.case b Let_def g w r not_True_eq_False if_False)
  then show ?thesis using g by (simp add: gen_cdr_deserialize_def del: gen_deserialize.simps)
qed

end
