(* ===== verification/Tiva_Hardware.thy ===== *)
theory Tiva_Hardware
  imports Prelude
begin

text \<open>
  The UART of the Tiva C targets, \<open>tivac_hardware.h\<close>. The ring buffers come from the vendor's utility
  library: their operations are the record \<open>ringbuf_ops\<close>, and \<open>ringbuf_ok\<close> states what the library
  documents of them. The transmitter, run without a FIFO, has a holding register and a shift register:
  a character is accepted while fewer than two are under way, and the transmit interrupt, in the mode the
  driver selects, comes when all of them have left. \<open>tv_line\<close> has the characters the transmitter accepted.
  Interrupts come between the calls of \<open>write\<close> to the library; taking a character from the ring and handing
  it to the transmitter counts as one such call. Both LEDs are configured.
\<close>

record 'r ringbuf_ops =
  RingBufEmpty :: "'r \<Rightarrow> bool"
  RingBufReadOne :: "'r \<Rightarrow> u8 \<times> 'r"
  RingBufWriteOne :: "'r \<Rightarrow> u8 \<Rightarrow> 'r"
  RingBufWrite :: "'r \<Rightarrow> u8 list \<Rightarrow> 'r"

record 'r tiva =
  tv_rx :: 'r
  tv_tx :: 'r
  tv_under_way :: nat
  tv_line :: "u8 list"
  tv_milliseconds :: u32
  tv_heartbeat :: u32
  tv_led1 :: bool
  tv_led2 :: bool

definition new_tiva :: "'r \<Rightarrow> 'r \<Rightarrow> u32 \<Rightarrow> 'r tiva" where
  "new_tiva rx tx heartbeat =
     \<lparr>tv_rx = rx, tv_tx = tx, tv_under_way = 0, tv_line = [], tv_milliseconds = 0, tv_heartbeat = heartbeat,
      tv_led1 = False, tv_led2 = False\<rparr>"

definition uart_put :: "u8 \<Rightarrow> 'r tiva \<Rightarrow> 'r tiva" where
  "uart_put c s =
     (if tv_under_way s < 2 then s\<lparr>tv_under_way := tv_under_way s + 1, tv_line := tv_line s @ [c]\<rparr> else s)"

definition tiva_read :: "'r ringbuf_ops \<Rightarrow> 'r tiva \<Rightarrow> int \<times> 'r tiva" where
  "tiva_read L s =
     (if \<not> RingBufEmpty L (tv_rx s)
      then (case RingBufReadOne L (tv_rx s) of (c, r) \<Rightarrow> (uint c, s\<lparr>tv_rx := r\<rparr>))
      else (- 1, s))"

definition tiva_send_next :: "'r ringbuf_ops \<Rightarrow> 'r tiva \<Rightarrow> 'r tiva" where
  "tiva_send_next L s = (case RingBufReadOne L (tv_tx s) of (c, r) \<Rightarrow> uart_put c (s\<lparr>tv_tx := r\<rparr>))"

text \<open>The interrupt: a received character, if any, and whether everything under way has left.\<close>

definition UARTIntHandler :: "'r ringbuf_ops \<Rightarrow> u8 option \<Rightarrow> bool \<Rightarrow> 'r tiva \<Rightarrow> 'r tiva" where
  "UARTIntHandler L received transmitted s =
     (let s1 = (case received of None \<Rightarrow> s | Some c \<Rightarrow> s\<lparr>tv_rx := RingBufWriteOne L (tv_rx s) c\<rparr>);
          s2 = (if transmitted then s1\<lparr>tv_under_way := 0\<rparr> else s1);
          s3 = (if transmitted \<and> \<not> RingBufEmpty L (tv_tx s2) then tiva_send_next L s2 else s2)
      in s3\<lparr>tv_led2 := \<not> tv_led2 s3\<rparr>)"

text \<open>
  \<open>write\<close>, with the number of transmit interrupts that come between storing the data and sending the first
  character of it.
\<close>

definition tiva_write :: "'r ringbuf_ops \<Rightarrow> nat \<Rightarrow> u8 list \<Rightarrow> 'r tiva \<Rightarrow> 'r tiva" where
  "tiva_write L interrupts data s =
     (let idle = RingBufEmpty L (tv_tx s);
          s1 = s\<lparr>tv_tx := RingBufWrite L (tv_tx s) data\<rparr>
      in if idle then tiva_send_next L ((UARTIntHandler L None True ^^ interrupts) s1) else s1)"

definition SYSTICKHZ :: u32 where "SYSTICKHZ = 1000"

definition SystickIntHandler :: "'r tiva \<Rightarrow> 'r tiva" where
  "SystickIntHandler s =
     (let s1 = s\<lparr>tv_milliseconds := tv_milliseconds s + 1, tv_heartbeat := tv_heartbeat s + 1\<rparr>
      in if tv_heartbeat s1 \<ge> SYSTICKHZ then s1\<lparr>tv_led1 := \<not> tv_led1 s1, tv_heartbeat := 0\<rparr> else s1)"

definition tiva_time :: "'r tiva \<Rightarrow> u32" where
  "tiva_time s = tv_milliseconds s"

text \<open>The arguments of the calls of the delay routine.\<close>

function tiva_delay :: "u32 \<Rightarrow> u32 \<Rightarrow> u32 list" where
  "tiva_delay freq ms =
     (if ms > 500 then (freq div 3 div SYSTICKHZ * 500) # tiva_delay freq (ms - 500)
      else [freq div 3 div SYSTICKHZ * ms])"
  by pat_completeness auto
termination tiva_delay
proof (relation "measure (\<lambda>(freq, ms). unat ms)")
  fix freq ms :: u32 assume "ms > 500"
  then show "((freq, ms - 500), freq, ms) \<in> measure (\<lambda>(freq, ms). unat ms)"
    by (simp add: word_less_nat_alt unat_sub_if')
qed simp

declare tiva_delay.simps [simp del]

section \<open>What the library promises\<close>

definition ringbuf_ok :: "'r ringbuf_ops \<Rightarrow> ('r \<Rightarrow> u8 list) \<Rightarrow> nat \<Rightarrow> bool" where
  "ringbuf_ok L cont cap \<longleftrightarrow>
     (\<forall>r. RingBufEmpty L r \<longleftrightarrow> cont r = []) \<and>
     (\<forall>r x xs. cont r = x # xs \<longrightarrow> (\<exists>r'. RingBufReadOne L r = (x, r') \<and> cont r' = xs)) \<and>
     (\<forall>r c. length (cont r) < cap \<longrightarrow> cont (RingBufWriteOne L r c) = cont r @ [c]) \<and>
     (\<forall>r bs. length (cont r) + length bs \<le> cap \<longrightarrow> cont (RingBufWrite L r bs) = cont r @ bs)"

text \<open>
  Nothing is lost while the transmitter never has two characters under way unless the ring has more,
  and the interrupt that sends the ring's next character is on its way whenever the ring is not empty.
\<close>

definition tiva_inv :: "('r \<Rightarrow> u8 list) \<Rightarrow> 'r tiva \<Rightarrow> bool" where
  "tiva_inv cont s \<longleftrightarrow> tv_under_way s \<le> 2 \<and> (tv_under_way s = 2 \<longrightarrow> cont (tv_tx s) \<noteq> []) \<and>
     (cont (tv_tx s) \<noteq> [] \<longrightarrow> 0 < tv_under_way s)"

definition tiva_handed :: "('r \<Rightarrow> u8 list) \<Rightarrow> 'r tiva \<Rightarrow> u8 list" where
  "tiva_handed cont s = tv_line s @ cont (tv_tx s)"

lemma send_next:
  assumes "ringbuf_ok L cont cap" "cont (tv_tx s) = x # xs" "tv_under_way s < 2"
  shows "cont (tv_tx (tiva_send_next L s)) = xs" "tv_line (tiva_send_next L s) = tv_line s @ [x]"
    "tv_under_way (tiva_send_next L s) = tv_under_way s + 1" "tv_rx (tiva_send_next L s) = tv_rx s"
proof -
  obtain r' where "RingBufReadOne L (tv_tx s) = (x, r')" "cont r' = xs"
    using assms(1,2) unfolding ringbuf_ok_def by blast
  then show "cont (tv_tx (tiva_send_next L s)) = xs" "tv_line (tiva_send_next L s) = tv_line s @ [x]"
    "tv_under_way (tiva_send_next L s) = tv_under_way s + 1" "tv_rx (tiva_send_next L s) = tv_rx s"
    using assms(3) by (simp_all add: tiva_send_next_def uart_put_def)
qed

lemma empty_iff: "ringbuf_ok L cont cap \<Longrightarrow> RingBufEmpty L r \<longleftrightarrow> cont r = []"
  by (simp add: ringbuf_ok_def)

lemma transmitted:
  assumes "ringbuf_ok L cont cap"
  shows "tiva_inv cont (UARTIntHandler L None True s)"
    "tiva_handed cont (UARTIntHandler L None True s) = tiva_handed cont s"
    "cont (tv_tx (UARTIntHandler L None True s)) = tl (cont (tv_tx s))"
    "tv_under_way (UARTIntHandler L None True s) = (if cont (tv_tx s) = [] then 0 else 1)"
    "tv_rx (UARTIntHandler L None True s) = tv_rx s"
proof -
  let ?s = "s\<lparr>tv_under_way := 0\<rparr>" and ?t = "UARTIntHandler L None True s"
  have "tiva_inv cont ?t \<and> tiva_handed cont ?t = tiva_handed cont s \<and> cont (tv_tx ?t) = tl (cont (tv_tx s)) \<and>
    tv_under_way ?t = (if cont (tv_tx s) = [] then 0 else 1) \<and> tv_rx ?t = tv_rx s"
  proof (cases "cont (tv_tx s)")
    case Nil
    then show ?thesis
      by (simp add: UARTIntHandler_def Let_def empty_iff [OF assms] tiva_inv_def tiva_handed_def)
  next
    case (Cons x xs)
    then have t: "?t = (tiva_send_next L ?s)\<lparr>tv_led2 := \<not> tv_led2 (tiva_send_next L ?s)\<rparr>"
      by (simp add: UARTIntHandler_def Let_def empty_iff [OF assms])
    show ?thesis
      using send_next [OF assms, of ?s x xs] Cons unfolding t by (simp add: tiva_inv_def tiva_handed_def)
  qed
  then show "tiva_inv cont (UARTIntHandler L None True s)"
    "tiva_handed cont (UARTIntHandler L None True s) = tiva_handed cont s"
    "cont (tv_tx (UARTIntHandler L None True s)) = tl (cont (tv_tx s))"
    "tv_under_way (UARTIntHandler L None True s) = (if cont (tv_tx s) = [] then 0 else 1)"
    "tv_rx (UARTIntHandler L None True s) = tv_rx s"
    by blast+
qed

lemma transmitted_many:
  assumes "ringbuf_ok L cont cap"
  shows "tiva_handed cont ((UARTIntHandler L None True ^^ k) s) = tiva_handed cont s"
    "cont (tv_tx ((UARTIntHandler L None True ^^ k) s)) = drop k (cont (tv_tx s))"
    "tv_under_way s \<le> 1 \<Longrightarrow> tv_under_way ((UARTIntHandler L None True ^^ k) s) \<le> 1"
    "tv_rx ((UARTIntHandler L None True ^^ k) s) = tv_rx s"
  by (induction k) (simp_all add: transmitted [OF assms] drop_Suc tl_drop)

lemma tiva_write_keeps:
  assumes L: "ringbuf_ok L cont cap" and i: "tiva_inv cont s"
    and fit: "length (cont (tv_tx s)) + length data \<le> cap" "k + 2 \<le> length data"
  shows "tiva_inv cont (tiva_write L k data s)" "tiva_handed cont (tiva_write L k data s) = tiva_handed cont s @ data"
    "tv_rx (tiva_write L k data s) = tv_rx s"
proof -
  let ?s = "s\<lparr>tv_tx := RingBufWrite L (tv_tx s) data\<rparr>"
  let ?t = "(UARTIntHandler L None True ^^ k) ?s"
  have c: "cont (tv_tx ?s) = cont (tv_tx s) @ data" using L fit(1) by (simp add: ringbuf_ok_def)
  have "tiva_inv cont (tiva_write L k data s) \<and> tiva_handed cont (tiva_write L k data s) = tiva_handed cont s @ data \<and>
      tv_rx (tiva_write L k data s) = tv_rx s"
  proof (cases "cont (tv_tx s) = []")
    case False
    then show ?thesis using i c by (auto simp: tiva_write_def empty_iff [OF L] tiva_inv_def tiva_handed_def)
  next
    case True
    have u: "tv_under_way ?t \<le> 1"
      using transmitted_many(3) [OF L, of ?s k] i True by (auto simp: tiva_inv_def)
    have "length (drop k data) \<ge> 2" using fit(2) by simp
    then obtain x y ys where d: "drop k data = x # y # ys"
      by (metis One_nat_def Suc_1 Suc_le_length_iff)
    have t: "cont (tv_tx ?t) = x # y # ys" using transmitted_many(2) [OF L, of k ?s] c True d by simp
    have "tv_under_way ?t < 2" using u by simp
    note n = send_next [OF L t this]
    have h: "tv_line ?t @ x # y # ys = tv_line s @ data"
      using transmitted_many(1) [OF L, of k ?s] c True t by (simp add: tiva_handed_def)
    show ?thesis
      using n u h True transmitted_many(4) [OF L, of k ?s]
      by (simp add: tiva_write_def empty_iff [OF L] Let_def tiva_inv_def tiva_handed_def)
  qed
  then show "tiva_inv cont (tiva_write L k data s)" "tiva_handed cont (tiva_write L k data s) = tiva_handed cont s @ data"
    "tv_rx (tiva_write L k data s) = tv_rx s" by simp_all
qed

section \<open>Events in any order\<close>

datatype tiva_event = Tv_write nat "u8 list" | Tv_read | Tv_received u8 | Tv_transmitted | Tv_tick

fun tiva_step :: "'r ringbuf_ops \<Rightarrow> tiva_event \<Rightarrow> 'r tiva \<Rightarrow> int list \<times> 'r tiva" where
  "tiva_step L (Tv_write k data) s = ([], tiva_write L k data s)"
| "tiva_step L Tv_read s = (case tiva_read L s of (c, s') \<Rightarrow> (if c < 0 then [] else [c], s'))"
| "tiva_step L (Tv_received c) s = ([], UARTIntHandler L (Some c) False s)"
| "tiva_step L Tv_transmitted s = ([], UARTIntHandler L None True s)"
| "tiva_step L Tv_tick s = ([], SystickIntHandler s)"

text \<open>The bytes the application has read and the port afterwards.\<close>

fun tiva_run :: "'r ringbuf_ops \<Rightarrow> tiva_event list \<Rightarrow> 'r tiva \<Rightarrow> int list \<times> 'r tiva" where
  "tiva_run L [] s = ([], s)"
| "tiva_run L (e # es) s =
     (case tiva_step L e s of (out, s1) \<Rightarrow> case tiva_run L es s1 of (outs, s2) \<Rightarrow> (out @ outs, s2))"

text \<open>An event finds room in the rings, and a message is longer than the interrupts that come while it is started.\<close>

fun tiva_room :: "('r \<Rightarrow> u8 list) \<Rightarrow> nat \<Rightarrow> tiva_event \<Rightarrow> 'r tiva \<Rightarrow> bool" where
  "tiva_room cont cap (Tv_write k data) s \<longleftrightarrow> length (cont (tv_tx s)) + length data \<le> cap \<and> k + 2 \<le> length data"
| "tiva_room cont cap (Tv_received c) s \<longleftrightarrow> length (cont (tv_rx s)) < cap"
| "tiva_room cont cap e s \<longleftrightarrow> True"

fun tiva_room_all :: "'r ringbuf_ops \<Rightarrow> ('r \<Rightarrow> u8 list) \<Rightarrow> nat \<Rightarrow> tiva_event list \<Rightarrow> 'r tiva \<Rightarrow> bool" where
  "tiva_room_all L cont cap [] s \<longleftrightarrow> True"
| "tiva_room_all L cont cap (e # es) s \<longleftrightarrow>
     tiva_room cont cap e s \<and> tiva_room_all L cont cap es (snd (tiva_step L e s))"

fun tiva_written :: "tiva_event list \<Rightarrow> u8 list" where
  "tiva_written [] = []"
| "tiva_written (Tv_write k data # es) = data @ tiva_written es"
| "tiva_written (e # es) = tiva_written es"

fun tiva_arrived :: "tiva_event list \<Rightarrow> u8 list" where
  "tiva_arrived [] = []"
| "tiva_arrived (Tv_received c # es) = c # tiva_arrived es"
| "tiva_arrived (e # es) = tiva_arrived es"

lemma tiva_read_next:
  assumes "ringbuf_ok L cont cap"
  shows "fst (tiva_step L Tv_read s) @ map uint (cont (tv_rx (snd (tiva_step L Tv_read s)))) = map uint (cont (tv_rx s))"
    "tv_tx (snd (tiva_step L Tv_read s)) = tv_tx s" "tv_line (snd (tiva_step L Tv_read s)) = tv_line s"
    "tv_under_way (snd (tiva_step L Tv_read s)) = tv_under_way s"
proof -
  have "fst (tiva_step L Tv_read s) @ map uint (cont (tv_rx (snd (tiva_step L Tv_read s)))) = map uint (cont (tv_rx s)) \<and>
    tv_tx (snd (tiva_step L Tv_read s)) = tv_tx s \<and> tv_line (snd (tiva_step L Tv_read s)) = tv_line s \<and>
    tv_under_way (snd (tiva_step L Tv_read s)) = tv_under_way s"
  proof (cases "cont (tv_rx s)")
    case Nil
    then show ?thesis by (simp add: tiva_read_def empty_iff [OF assms])
  next
    case (Cons x xs)
    then obtain r' where "RingBufReadOne L (tv_rx s) = (x, r')" "cont r' = xs"
      using assms unfolding ringbuf_ok_def by blast
    then show ?thesis using Cons by (simp add: tiva_read_def empty_iff [OF assms] not_less)
  qed
  then show "fst (tiva_step L Tv_read s) @ map uint (cont (tv_rx (snd (tiva_step L Tv_read s)))) = map uint (cont (tv_rx s))"
    "tv_tx (snd (tiva_step L Tv_read s)) = tv_tx s" "tv_line (snd (tiva_step L Tv_read s)) = tv_line s"
    "tv_under_way (snd (tiva_step L Tv_read s)) = tv_under_way s" by blast+
qed

lemma tick_keeps [simp]:
  "tv_rx (SystickIntHandler s) = tv_rx s" "tv_tx (SystickIntHandler s) = tv_tx s" "tv_line (SystickIntHandler s) = tv_line s"
  "tv_under_way (SystickIntHandler s) = tv_under_way s"
  by (simp_all add: SystickIntHandler_def Let_def)

lemma tiva_step_keeps:
  assumes L: "ringbuf_ok L cont cap" and i: "tiva_inv cont s" and room: "tiva_room cont cap e s"
    and r: "tiva_step L e s = (out, s')"
  shows "tiva_inv cont s'" "tiva_handed cont s' = tiva_handed cont s @ tiva_written [e]"
    "out @ map uint (cont (tv_rx s')) = map uint (cont (tv_rx s)) @ map uint (tiva_arrived [e])"
proof -
  have "tiva_inv cont s' \<and> tiva_handed cont s' = tiva_handed cont s @ tiva_written [e] \<and>
    out @ map uint (cont (tv_rx s')) = map uint (cont (tv_rx s)) @ map uint (tiva_arrived [e])"
  proof (cases e)
    case (Tv_write k data)
    then show ?thesis using tiva_write_keeps [OF L i] room r by auto
  next
    case Tv_read
    then show ?thesis using tiva_read_next [OF L, of s] r i by (simp add: tiva_inv_def tiva_handed_def)
  next
    case (Tv_received c)
    then have "s' = s\<lparr>tv_rx := RingBufWriteOne L (tv_rx s) c, tv_led2 := \<not> tv_led2 s\<rparr>" "out = []" using r by (auto simp: UARTIntHandler_def)
    moreover have "cont (RingBufWriteOne L (tv_rx s) c) = cont (tv_rx s) @ [c]"
      using L room Tv_received by (simp add: ringbuf_ok_def)
    ultimately show ?thesis using i Tv_received by (simp add: tiva_inv_def tiva_handed_def)
  next
    case Tv_transmitted
    then show ?thesis using transmitted [OF L, of s] r by auto
  next
    case Tv_tick
    then show ?thesis using r i by (auto simp: tiva_inv_def tiva_handed_def)
  qed
  then show "tiva_inv cont s'" "tiva_handed cont s' = tiva_handed cont s @ tiva_written [e]"
    "out @ map uint (cont (tv_rx s')) = map uint (cont (tv_rx s)) @ map uint (tiva_arrived [e])" by blast+
qed

lemma tiva_written_cons: "tiva_written (e # es) = tiva_written [e] @ tiva_written es"
  "tiva_arrived (e # es) = tiva_arrived [e] @ tiva_arrived es"
  by (cases e; simp)+

lemma tiva_run_in_order:
  assumes "ringbuf_ok L cont cap" "tiva_inv cont s" "tiva_room_all L cont cap es s" "tiva_run L es s = (out, s')"
  shows "tiva_inv cont s' \<and> tiva_handed cont s' = tiva_handed cont s @ tiva_written es \<and>
    out @ map uint (cont (tv_rx s')) = map uint (cont (tv_rx s)) @ map uint (tiva_arrived es)"
  using assms(2-4)
proof (induction es arbitrary: s out)
  case (Cons e es)
  obtain o1 s1 where 1: "tiva_step L e s = (o1, s1)" by fastforce
  obtain o2 where 2: "tiva_run L es s1 = (o2, s')" "out = o1 @ o2" using Cons.prems(3) 1 by (auto split: prod.splits)
  note st = tiva_step_keeps [OF assms(1) Cons.prems(1) _ 1]
  have "tiva_room cont cap e s" "tiva_room_all L cont cap es s1" using Cons.prems(2) 1 by auto
  note st' = st [OF this(1)] and ih = Cons.IH [OF st(1) [OF this(1)] this(2) 2(1)]
  show ?case
    using ih st'(2,3) tiva_written_cons [of e es] 2(2)
    by (metis append.assoc map_append)
qed simp

section \<open>Properties\<close>


definition list_ringbuf :: "u8 list ringbuf_ops" where
  "list_ringbuf =
     \<lparr>RingBufEmpty = (\<lambda>r. r = []), RingBufReadOne = (\<lambda>r. (hd r, tl r)), RingBufWriteOne = (\<lambda>r c. r @ [c]),
      RingBufWrite = (\<lambda>r bs. r @ bs)\<rparr>"


end
