(* ===== verification/Tiva_Usb.thy ===== *)
theory Tiva_Usb
  imports Tiva_Hardware
begin

text \<open>
  The USB port of the Tiva C targets, \<open>tivac_hardware_usb.h\<close> and \<open>usb_serial_structs.c\<close>: a serial device with
  one buffer in each direction. The buffers come from the vendor's USB library: their operations are the
  record \<open>usbbuf_ops\<close>, with the transfers the library makes by itself when the host polls, and \<open>usbbuf_ok\<close> states
  what the library documents of them. \<open>tu_host\<close> has the bytes the host got. Both LEDs are configured. The
  event handlers of a debug build do not return from an event they do not expect: then the result is \<open>None\<close>.
\<close>

section \<open>The port\<close>

record 'r usbbuf_ops =
  USBBufferInit :: "'r \<Rightarrow> 'r"
  USBBufferRead :: "'r \<Rightarrow> nat \<Rightarrow> u8 list \<times> 'r"
  USBBufferWrite :: "'r \<Rightarrow> u8 list \<Rightarrow> nat \<times> 'r"
  USBBufferFlush :: "'r \<Rightarrow> 'r"
  USBBufferDataAvailable :: "'r \<Rightarrow> u32"
  usb_packet_in :: "'r \<Rightarrow> u8 list \<Rightarrow> 'r"
  usb_packet_out :: "'r \<Rightarrow> nat \<Rightarrow> u8 list \<times> 'r"

record 'r tiva_usb =
  tu_rx :: 'r
  tu_tx :: 'r
  tu_host :: "u8 list"
  g_bUSBConfigured :: bool
  tu_milliseconds :: u32
  tu_heartbeat :: u32
  tu_led1 :: bool
  tu_led2 :: bool

definition UART_BUFFER_SIZE :: nat where "UART_BUFFER_SIZE = 256"

definition usb_init :: "'r usbbuf_ops \<Rightarrow> 'r tiva_usb \<Rightarrow> 'r tiva_usb" where
  "usb_init L s =
     s\<lparr>tu_milliseconds := 0, tu_tx := USBBufferInit L (tu_tx s), tu_rx := USBBufferInit L (tu_rx s)\<rparr>"

definition usb_read :: "'r usbbuf_ops \<Rightarrow> 'r tiva_usb \<Rightarrow> int \<times> 'r tiva_usb" where
  "usb_read L s =
     (case USBBufferRead L (tu_rx s) 1 of (bs, r) \<Rightarrow>
        if length bs = 1 then (uint (hd bs), s\<lparr>tu_rx := r, tu_led2 := \<not> tu_led2 s\<rparr>) else (- 1, s\<lparr>tu_rx := r\<rparr>))"

definition usb_write :: "'r usbbuf_ops \<Rightarrow> u8 list \<Rightarrow> 'r tiva_usb \<Rightarrow> 'r tiva_usb" where
  "usb_write L data s =
     (let s1 = s\<lparr>tu_led2 := \<not> tu_led2 s\<rparr>
      in case USBBufferWrite L (tu_tx s1) data of (n, r) \<Rightarrow> s1\<lparr>tu_tx := r\<rparr>)"

definition usb_time :: "'r tiva_usb \<Rightarrow> u32" where
  "usb_time s = tu_milliseconds s"

definition usb_SystickIntHandler :: "'r tiva_usb \<Rightarrow> 'r tiva_usb" where
  "usb_SystickIntHandler s =
     (let s1 = s\<lparr>tu_milliseconds := tu_milliseconds s + 1, tu_heartbeat := tu_heartbeat s + 1\<rparr>
      in if tu_heartbeat s1 \<ge> SYSTICKHZ then s1\<lparr>tu_led1 := \<not> tu_led1 s1, tu_heartbeat := 0\<rparr> else s1)"

text \<open>The delay is the same loop as the one of the UART port.\<close>

definition usb_delay :: "u32 \<Rightarrow> u32 \<Rightarrow> u32 list" where
  "usb_delay freq ms = tiva_delay freq ms"

section \<open>The handlers of USB events\<close>

datatype usb_event =
  USB_EVENT_CONNECTED | USB_EVENT_DISCONNECTED | USB_EVENT_RX_AVAILABLE | USB_EVENT_DATA_REMAINING
  | USB_EVENT_REQUEST_BUFFER | USB_EVENT_TX_COMPLETE | USB_EVENT_SUSPEND | USB_EVENT_RESUME
  | USBD_CDC_EVENT_GET_LINE_CODING | USBD_CDC_EVENT_SET_LINE_CODING | USBD_CDC_EVENT_SET_CONTROL_LINE_STATE
  | USBD_CDC_EVENT_SEND_BREAK | USBD_CDC_EVENT_CLEAR_BREAK | USB_EVENT_OTHER nat

definition unexpected_event :: "bool \<Rightarrow> u32 option" where
  "unexpected_event debug = (if debug then None else Some 0)"

fun TxHandler :: "bool \<Rightarrow> usb_event \<Rightarrow> u32 option" where
  "TxHandler debug USB_EVENT_TX_COMPLETE = Some 0"
| "TxHandler debug e = unexpected_event debug"

fun RxHandler :: "'r usbbuf_ops \<Rightarrow> bool \<Rightarrow> usb_event \<Rightarrow> 'r tiva_usb \<Rightarrow> u32 option" where
  "RxHandler L debug USB_EVENT_RX_AVAILABLE s = Some 0"
| "RxHandler L debug USB_EVENT_DATA_REMAINING s = Some (USBBufferDataAvailable L (tu_rx s))"
| "RxHandler L debug USB_EVENT_REQUEST_BUFFER s = Some 0"
| "RxHandler L debug e s = unexpected_event debug"

fun ControlHandler :: "'r usbbuf_ops \<Rightarrow> bool \<Rightarrow> usb_event \<Rightarrow> 'r tiva_usb \<Rightarrow> (u32 \<times> 'r tiva_usb) option" where
  "ControlHandler L debug USB_EVENT_CONNECTED s =
     (let s1 = s\<lparr>g_bUSBConfigured := True\<rparr>;
          s2 = s1\<lparr>tu_tx := USBBufferFlush L (tu_tx s1)\<rparr>;
          s3 = s2\<lparr>tu_rx := USBBufferFlush L (tu_rx s2)\<rparr>
      in Some (0, s3))"
| "ControlHandler L debug USB_EVENT_DISCONNECTED s = Some (0, s\<lparr>g_bUSBConfigured := False\<rparr>)"
| "ControlHandler L debug USBD_CDC_EVENT_GET_LINE_CODING s = Some (0, s)"
| "ControlHandler L debug USBD_CDC_EVENT_SET_LINE_CODING s = Some (0, s)"
| "ControlHandler L debug USBD_CDC_EVENT_SET_CONTROL_LINE_STATE s = Some (0, s)"
| "ControlHandler L debug USBD_CDC_EVENT_SEND_BREAK s = Some (0, s)"
| "ControlHandler L debug USBD_CDC_EVENT_CLEAR_BREAK s = Some (0, s)"
| "ControlHandler L debug USB_EVENT_SUSPEND s = Some (0, s)"
| "ControlHandler L debug USB_EVENT_RESUME s = Some (0, s)"
| "ControlHandler L debug e s = map_option (\<lambda>r. (r, s)) (unexpected_event debug)"

section \<open>What the library promises\<close>

text \<open>\<open>USBBufferWrite\<close> stores as many bytes as there is room for.\<close>

definition usbbuf_ok :: "'r usbbuf_ops \<Rightarrow> ('r \<Rightarrow> u8 list) \<Rightarrow> nat \<Rightarrow> bool" where
  "usbbuf_ok L cont cap \<longleftrightarrow>
     (\<forall>r. cont (USBBufferInit L r) = []) \<and> (\<forall>r. cont (USBBufferFlush L r) = []) \<and>
     (\<forall>r n. fst (USBBufferRead L r n) = take n (cont r) \<and> cont (snd (USBBufferRead L r n)) = drop n (cont r)) \<and>
     (\<forall>r bs. cont (snd (USBBufferWrite L r bs)) = cont r @ take (cap - length (cont r)) bs) \<and>
     (\<forall>r. USBBufferDataAvailable L r = of_nat (length (cont r))) \<and>
     (\<forall>r bs. length (cont r) + length bs \<le> cap \<longrightarrow> cont (usb_packet_in L r bs) = cont r @ bs) \<and>
     (\<forall>r n. fst (usb_packet_out L r n) = take n (cont r) \<and> cont (snd (usb_packet_out L r n)) = drop n (cont r))"

lemma usbbuf_facts:
  assumes "usbbuf_ok L cont cap"
  shows "cont (USBBufferInit L r) = []" "cont (USBBufferFlush L r) = []"
    "fst (USBBufferRead L r n) = take n (cont r)" "cont (snd (USBBufferRead L r n)) = drop n (cont r)"
    "cont (snd (USBBufferWrite L r bs)) = cont r @ take (cap - length (cont r)) bs"
    "USBBufferDataAvailable L r = of_nat (length (cont r))"
    "length (cont r) + length bs \<le> cap \<Longrightarrow> cont (usb_packet_in L r bs) = cont r @ bs"
    "fst (usb_packet_out L r n) = take n (cont r)" "cont (snd (usb_packet_out L r n)) = drop n (cont r)"
  using assms unfolding usbbuf_ok_def by blast+

section \<open>Events in any order\<close>

datatype tiva_usb_event =
  Tu_write "u8 list" | Tu_read | Tu_tick | Tu_control usb_event | Tu_rx usb_event | Tu_tx usb_event
  | Tu_packet_in "u8 list" | Tu_packet_out nat

fun tu_step :: "'r usbbuf_ops \<Rightarrow> bool \<Rightarrow> tiva_usb_event \<Rightarrow> 'r tiva_usb \<Rightarrow> (int list \<times> 'r tiva_usb) option" where
  "tu_step L debug (Tu_write data) s = Some ([], usb_write L data s)"
| "tu_step L debug Tu_read s = (case usb_read L s of (c, s') \<Rightarrow> Some (if c < 0 then [] else [c], s'))"
| "tu_step L debug Tu_tick s = Some ([], usb_SystickIntHandler s)"
| "tu_step L debug (Tu_control e) s = map_option (\<lambda>(r, s'). ([], s')) (ControlHandler L debug e s)"
| "tu_step L debug (Tu_rx e) s = map_option (\<lambda>r. ([], s)) (RxHandler L debug e s)"
| "tu_step L debug (Tu_tx e) s = map_option (\<lambda>r. ([], s)) (TxHandler debug e)"
| "tu_step L debug (Tu_packet_in bs) s = Some ([], s\<lparr>tu_rx := usb_packet_in L (tu_rx s) bs\<rparr>)"
| "tu_step L debug (Tu_packet_out n) s =
     (case usb_packet_out L (tu_tx s) n of (bs, r) \<Rightarrow> Some ([], s\<lparr>tu_tx := r, tu_host := tu_host s @ bs\<rparr>))"

text \<open>The bytes the application has read and the port afterwards.\<close>

fun tu_run :: "'r usbbuf_ops \<Rightarrow> bool \<Rightarrow> tiva_usb_event list \<Rightarrow> 'r tiva_usb \<Rightarrow> (int list \<times> 'r tiva_usb) option" where
  "tu_run L debug [] s = Some ([], s)"
| "tu_run L debug (e # es) s =
     (case tu_step L debug e s of
        None \<Rightarrow> None
      | Some (out, s1) \<Rightarrow> map_option (\<lambda>(outs, s2). (out @ outs, s2)) (tu_run L debug es s1))"

text \<open>The library takes a packet from the host when the receive buffer has room for it; \<open>write\<close> asks for room.\<close>

fun tu_room :: "('r \<Rightarrow> u8 list) \<Rightarrow> nat \<Rightarrow> tiva_usb_event \<Rightarrow> 'r tiva_usb \<Rightarrow> bool" where
  "tu_room cont cap (Tu_write data) s \<longleftrightarrow> length (cont (tu_tx s)) + length data \<le> cap"
| "tu_room cont cap (Tu_packet_in bs) s \<longleftrightarrow> length (cont (tu_rx s)) + length bs \<le> cap"
| "tu_room cont cap e s \<longleftrightarrow> True"

fun tu_room_all :: "'r usbbuf_ops \<Rightarrow> ('r \<Rightarrow> u8 list) \<Rightarrow> nat \<Rightarrow> bool \<Rightarrow> tiva_usb_event list \<Rightarrow> 'r tiva_usb \<Rightarrow> bool" where
  "tu_room_all L cont cap debug [] s \<longleftrightarrow> True"
| "tu_room_all L cont cap debug (e # es) s \<longleftrightarrow>
     tu_room cont cap e s \<and>
     (case tu_step L debug e s of None \<Rightarrow> True | Some (out, s1) \<Rightarrow> tu_room_all L cont cap debug es s1)"

fun tu_written :: "tiva_usb_event \<Rightarrow> u8 list" where
  "tu_written (Tu_write data) = data"
| "tu_written e = []"

fun tu_arrived :: "tiva_usb_event \<Rightarrow> u8 list" where
  "tu_arrived (Tu_packet_in bs) = bs"
| "tu_arrived e = []"

lemma control_keeps:
  assumes "ControlHandler L debug e s = Some (r, s')" "e \<noteq> USB_EVENT_CONNECTED"
  shows "tu_rx s' = tu_rx s" "tu_tx s' = tu_tx s" "tu_host s' = tu_host s" "r = 0"
  using assms by (cases e; auto simp: unexpected_event_def split: if_splits)+

lemma tu_step_keeps:
  assumes L: "usbbuf_ok L cont cap" and "e \<noteq> Tu_control USB_EVENT_CONNECTED" "tu_room cont cap e s"
    and r: "tu_step L debug e s = Some (out, s')"
  shows "tu_host s' @ cont (tu_tx s') = tu_host s @ cont (tu_tx s) @ tu_written e \<and>
    out @ map uint (cont (tu_rx s')) = map uint (cont (tu_rx s)) @ map uint (tu_arrived e) \<and>
    (\<exists>h. tu_host s' = tu_host s @ h)"
proof (cases e)
  case (Tu_write data)
  then show ?thesis
    using assms usbbuf_facts(5) [OF L, of "tu_tx s" data] by (auto simp: usb_write_def Let_def split: prod.splits)
next
  case Tu_read
  show ?thesis
  proof (cases "cont (tu_rx s)")
    case Nil
    then show ?thesis
      using Tu_read r usbbuf_facts(3,4) [OF L, of "tu_rx s" 1] by (auto simp: usb_read_def split: prod.splits if_splits)
  next
    case (Cons x xs)
    then show ?thesis
      using Tu_read r usbbuf_facts(3,4) [OF L, of "tu_rx s" 1]
      by (auto simp: usb_read_def not_less split: prod.splits if_splits)
  qed
next
  case Tu_tick
  then show ?thesis using r by (auto simp: usb_SystickIntHandler_def Let_def)
next
  case (Tu_control c)
  then obtain x where x: "ControlHandler L debug c s = Some (x, s')" "out = []" using r by auto
  have "c \<noteq> USB_EVENT_CONNECTED" using assms(2) Tu_control by simp
  then show ?thesis using control_keeps [OF x(1)] x(2) Tu_control by simp
next
  case (Tu_packet_in bs)
  then show ?thesis using r assms(3) usbbuf_facts(7) [OF L] by auto
next
  case (Tu_packet_out n)
  then show ?thesis using r usbbuf_facts(8,9) [OF L, of "tu_tx s" n] by (auto split: prod.splits)
qed (use r in auto)

lemma tu_run_in_order:
  assumes L: "usbbuf_ok L cont cap"
  shows "Tu_control USB_EVENT_CONNECTED \<notin> set es \<Longrightarrow> tu_room_all L cont cap debug es s \<Longrightarrow>
    tu_run L debug es s = Some (out, s') \<Longrightarrow>
    tu_host s' @ cont (tu_tx s') = tu_host s @ cont (tu_tx s) @ concat (map tu_written es) \<and>
    out @ map uint (cont (tu_rx s')) = map uint (cont (tu_rx s)) @ map uint (concat (map tu_arrived es)) \<and>
    (\<exists>h. tu_host s' = tu_host s @ h)"
proof (induction es arbitrary: s out)
  case (Cons e es)
  obtain o1 s1 where 1: "tu_step L debug e s = Some (o1, s1)" using Cons.prems(3) by (auto split: option.splits)
  obtain o2 where 2: "tu_run L debug es s1 = Some (o2, s')" "out = o1 @ o2" using Cons.prems(3) 1 by auto
  have st: "tu_host s1 @ cont (tu_tx s1) = tu_host s @ cont (tu_tx s) @ tu_written e"
    "o1 @ map uint (cont (tu_rx s1)) = map uint (cont (tu_rx s)) @ map uint (tu_arrived e)" "\<exists>h. tu_host s1 = tu_host s @ h"
    using tu_step_keeps [OF L _ _ 1] Cons.prems by auto
  have ih: "tu_host s' @ cont (tu_tx s') = tu_host s1 @ cont (tu_tx s1) @ concat (map tu_written es)"
    "o2 @ map uint (cont (tu_rx s')) = map uint (cont (tu_rx s1)) @ map uint (concat (map tu_arrived es))"
    "\<exists>h. tu_host s' = tu_host s1 @ h"
    using Cons.IH [OF _ _ 2(1)] Cons.prems 1 by auto
  have "tu_host s' @ cont (tu_tx s') = tu_host s @ cont (tu_tx s) @ concat (map tu_written (e # es))"
    using ih(1) st(1) by (simp del: append_assoc add: append_assoc [symmetric])
  moreover have "out @ map uint (cont (tu_rx s')) = o1 @ map uint (cont (tu_rx s1)) @ map uint (concat (map tu_arrived es))"
    using ih(2) 2(2) by simp
  then have "out @ map uint (cont (tu_rx s')) = map uint (cont (tu_rx s)) @ map uint (concat (map tu_arrived (e # es)))"
    using st(2) by (simp del: append_assoc add: append_assoc [symmetric])
  ultimately show ?case using st(3) ih(3) by auto
qed simp

lemma release_runs: "\<exists>out s'. tu_run L False es s = Some (out, s')"
proof (induction es arbitrary: s)
  case (Cons e es)
  have c: "ControlHandler L False x s \<noteq> None" "RxHandler L False x s \<noteq> None" "TxHandler False x \<noteq> None" for x
    by (cases x; simp add: unexpected_event_def Let_def)+
  have "tu_step L False e s \<noteq> None" using c by (cases e) (auto split: prod.splits)
  then obtain o1 s1 where "tu_step L False e s = Some (o1, s1)" by auto
  then show ?case using Cons.IH [of s1] by auto
qed simp


section \<open>Properties\<close>

text \<open>
  C40: Whatever happened before, once the host connects nothing old is sent or read any more: from then on, however
  the events are interleaved and as long as the buffers have room, what the host gets followed by what is still in
  the transmit buffer is what was written, and what the application reads followed by the receive buffer is what
  the host sent. In a release build no event makes a handler hang.
\<close>

theorem usb_streams_since_connection:
  assumes "usbbuf_ok L cont cap" "Tu_control USB_EVENT_CONNECTED \<notin> set es"
    and "tu_room_all L cont cap False (Tu_control USB_EVENT_CONNECTED # es) s"
  shows "\<exists>out s' h. tu_run L False (Tu_control USB_EVENT_CONNECTED # es) s = Some (out, s') \<and> tu_host s' = tu_host s @ h \<and>
    h @ cont (tu_tx s') = concat (map tu_written es) \<and>
    out @ map uint (cont (tu_rx s')) = map uint (concat (map tu_arrived es))"
proof -
  obtain s1 where s1: "tu_step L False (Tu_control USB_EVENT_CONNECTED) s = Some ([], s1)" "cont (tu_tx s1) = []"
    "cont (tu_rx s1) = []" "tu_host s1 = tu_host s"
    using usbbuf_facts(2) [OF assms(1)] by (simp add: Let_def)
  obtain out s' where r: "tu_run L False es s1 = Some (out, s')" using release_runs by blast
  have room: "tu_room_all L cont cap False es s1"
    using assms(3) unfolding tu_room_all.simps(2) s1(1) by simp
  note o = tu_run_in_order [OF assms(1,2) room r]
  then obtain h where "tu_host s' = tu_host s @ h" using s1(4) by auto
  moreover have "tu_run L False (Tu_control USB_EVENT_CONNECTED # es) s = Some (out, s')"
    unfolding tu_run.simps(2) s1(1) by (simp add: r)
  ultimately show ?thesis using o s1 by auto
qed

definition list_usbbuf :: "nat \<Rightarrow> u8 list usbbuf_ops" where
  "list_usbbuf cap =
     \<lparr>USBBufferInit = (\<lambda>r. []), USBBufferRead = (\<lambda>r n. (take n r, drop n r)),
      USBBufferWrite = (\<lambda>r bs. (min (length bs) (cap - length r), r @ take (cap - length r) bs)), USBBufferFlush = (\<lambda>r. []),
      USBBufferDataAvailable = (\<lambda>r. of_nat (length r)), usb_packet_in = (\<lambda>r bs. r @ bs),
      usb_packet_out = (\<lambda>r n. (take n r, drop n r))\<rparr>"

lemma list_usbbuf_ok: "usbbuf_ok (list_usbbuf cap) id cap"
  by (simp add: usbbuf_ok_def list_usbbuf_def)

definition sample_usb :: "u8 list tiva_usb" where
  "sample_usb = \<lparr>tu_rx = [9], tu_tx = [8], tu_host = [], g_bUSBConfigured = False, tu_milliseconds = 0, tu_heartbeat = 0,
     tu_led1 = False, tu_led2 = False\<rparr>"

theorem usb_streams_since_connection_witness:
  "\<exists>out s' h. tu_run (list_usbbuf 256) False [Tu_control USB_EVENT_CONNECTED, Tu_write [1, 2, 3], Tu_packet_in [7], Tu_packet_out 2, Tu_read]
      sample_usb = Some (out, s') \<and> tu_host s' = tu_host sample_usb @ h \<and> h @ tu_tx s' = [1, 2, 3] \<and> out @ map uint (tu_rx s') = [7]"
proof -
  let ?es = "[Tu_write [1, 2, 3], Tu_packet_in [7], Tu_packet_out 2, Tu_read] :: tiva_usb_event list"
  have "tu_room_all (list_usbbuf 256) id 256 False (Tu_control USB_EVENT_CONNECTED # ?es) sample_usb"
    by (simp add: list_usbbuf_def sample_usb_def usb_write_def usb_read_def Let_def)
  from usb_streams_since_connection [OF list_usbbuf_ok _ this] show ?thesis by simp
qed

text \<open>What does not fit is lost: \<open>write\<close> ignores the number of bytes the buffer took.\<close>

theorem usb_write_cut:
  assumes "usbbuf_ok L cont cap"
  shows "cont (tu_tx (usb_write L data s)) = cont (tu_tx s) @ take (cap - length (cont (tu_tx s))) data"
  using usbbuf_facts(5) [OF assms, of "tu_tx s" data] by (simp add: usb_write_def Let_def case_prod_beta)

text \<open>The largest message the node may send does not fit into the buffer even when that is empty.\<close>

theorem usb_large_message_cut:
  assumes "usbbuf_ok L cont UART_BUFFER_SIZE" "cont (tu_tx s) = []" "length data = 512"
  shows "cont (tu_tx (usb_write L data s)) = take 256 data" "length (cont (tu_tx (usb_write L data s))) < length data"
  using usb_write_cut [OF assms(1), of data s] assms(2,3) by (simp_all add: UART_BUFFER_SIZE_def)

text \<open>The library learns how many bytes the application has not read yet.\<close>

theorem usb_data_remaining:
  assumes "usbbuf_ok L cont cap" "cap < 2 ^ 32" "length (cont (tu_rx s)) \<le> cap"
  shows "map_option unat (RxHandler L debug USB_EVENT_DATA_REMAINING s) = Some (length (cont (tu_rx s)))"
  using assms(2,3) usbbuf_facts(6) [OF assms(1)] by (simp add: unat_of_nat_less)

end
