(* ===== verification/Frame.thy ===== *)
theory Frame
  imports Prelude
begin

text \<open>
  The rosserial frame, as both ends of the link document it: two sync bytes (the second one the
  protocol version), the payload size and its checksum, the topic id, the payload, and a checksum
  over the topic id and the payload. This is the abstract specification that the device's
  \<open>publish\<close> and \<open>spinOnce\<close> and the server's session are related to.
\<close>

definition PROTOCOL_VER1 :: u8 where "PROTOCOL_VER1 = 0xff"
definition PROTOCOL_VER2 :: u8 where "PROTOCOL_VER2 = 0xfe"
definition PROTOCOL_VER :: u8 where "PROTOCOL_VER = PROTOCOL_VER2"

definition lo_byte :: "nat \<Rightarrow> u8" where "lo_byte n = of_nat (n mod 256)"
definition hi_byte :: "nat \<Rightarrow> u8" where "hi_byte n = of_nat (n div 256 mod 256)"

definition checksum_of :: "u8 list \<Rightarrow> u8" where
  "checksum_of bs = 255 - sum_list bs"

definition frame :: "nat \<Rightarrow> u8 list \<Rightarrow> u8 list" where
  "frame topic payload =
     [0xff, PROTOCOL_VER, lo_byte (length payload), hi_byte (length payload),
      checksum_of [lo_byte (length payload), hi_byte (length payload)],
      lo_byte topic, hi_byte topic] @ payload @
     [checksum_of ([lo_byte topic, hi_byte topic] @ payload)]"

lemma length_frame: "length (frame topic payload) = length payload + 8"
  by (simp add: frame_def)

lemma unat_lo_byte: "unat (lo_byte n) = n mod 256"
  by (simp add: lo_byte_def unat_of_nat)

lemma unat_hi_byte: "unat (hi_byte n) = n div 256 mod 256"
  by (simp add: hi_byte_def unat_of_nat)

lemma lo_hi_unat: "n < 65536 \<Longrightarrow> unat (lo_byte n) + unat (hi_byte n) * 256 = n"
  by (simp add: unat_lo_byte unat_hi_byte)

lemma lo_byte_u16: "ucast ((of_nat l :: u16) AND 255) = lo_byte l"
proof -
  have "(of_nat l :: u16) AND 255 = take_bit 8 (of_nat l)"
    by (simp add: take_bit_eq_mask mask_eq_exp_minus_1)
  then have "unat (ucast ((of_nat l :: u16) AND 255) :: u8) = l mod 256"
    by (simp add: unsigned_ucast_eq unat_mod unat_of_nat take_bit_eq_mod mod_mod_cancel)
  then show ?thesis by (simp add: word_unat_eq_iff unat_lo_byte)
qed

lemma hi_byte_u16: "ucast (drop_bit 8 (of_nat l :: u16)) = hi_byte l"
proof -
  have "l mod 65536 div 256 = l div 256 mod 256"
    using div_mult2_eq [of l 256 256] mod_mult2_eq [of l 256 256] by simp
  then have "unat (ucast (drop_bit 8 (of_nat l :: u16)) :: u8) = l div 256 mod 256"
    by (simp add: unsigned_ucast_eq unat_div unat_of_nat take_bit_eq_mod drop_bit_eq_div)
  then show ?thesis by (simp add: word_unat_eq_iff unat_hi_byte)
qed

text \<open>The receivers add up the bytes as integers and look at the last byte of the sum.\<close>

definition byte_sum :: "u8 list \<Rightarrow> nat" where
  "byte_sum bs = sum_list (map unat bs)"

lemma byte_sum_simps [simp]:
  "byte_sum [] = 0" "byte_sum (b # bs) = unat b + byte_sum bs"
  "byte_sum (as @ bs) = byte_sum as + byte_sum bs"
  by (simp_all add: byte_sum_def)

lemma of_nat_byte_sum: "of_nat (byte_sum bs) = sum_list bs"
  by (induction bs) simp_all

lemma byte_sum_bound: "byte_sum bs \<le> 255 * length bs"
proof (induction bs)
  case (Cons b bs)
  have "unat b \<le> 255" using unsigned_less [of b, where ?'a = nat] by simp
  with Cons show ?case by simp
qed simp

lemma checksum_word: "s + checksum_of bs = 255 \<longleftrightarrow> s = sum_list bs"
  by (auto simp: checksum_of_def algebra_simps)

lemma checksum_ok:
  "(byte_sum bs + unat c) mod 256 = 255 \<longleftrightarrow> c = checksum_of bs"
proof -
  have "(byte_sum bs + unat c) mod 256 = 255 \<longleftrightarrow> (of_nat (byte_sum bs + unat c) :: u8) = of_nat 255"
    unfolding word_of_nat_eq_iff by (simp add: take_bit_eq_mod)
  also have "\<dots> \<longleftrightarrow> sum_list bs + c = 255"
    by (simp add: of_nat_byte_sum)
  also have "\<dots> \<longleftrightarrow> c = checksum_of bs"
    by (auto simp: checksum_of_def algebra_simps)
  finally show ?thesis .
qed

lemma checksum_ok_int: "(int (byte_sum bs) + uint c) mod 256 = 255 \<longleftrightarrow> c = checksum_of bs"
proof -
  obtain n where n: "n = (byte_sum bs + unat c) mod 256" by blast
  then have "(int (byte_sum bs) + uint c) mod 256 = int n" by (simp add: zmod_int)
  moreover have "n = 255 \<longleftrightarrow> c = checksum_of bs" unfolding n by (rule checksum_ok)
  ultimately show ?thesis by auto
qed

end
