(* ===== verification/Server_Wire.thy ===== *)
theory Server_Wire
  imports Frame "HOL-Library.Monad_Syntax"
begin

text \<open>
  How the server puts a message on the line: the byte stream of \<open>rosserial_server/simplecdr.h\<close>, the
  checksums and \<open>write_message\<close> of \<open>session.h\<close>. A \<open>SimpleCdr\<close> is the contents of the memory it was
  given and a 32-bit offset; writing past the end throws (\<open>None\<close>), reading past the end is not
  checked by the code and is a fault here (\<open>None\<close> as well). A loop that does not end is \<open>None\<close> of the
  partial function that models it.
\<close>

section \<open>SimpleCdr\<close>

record SimpleCdr =
  sc_buffer :: "u8 list"
  sc_offset :: u32

definition new_SimpleCdr :: "u8 list \<Rightarrow> SimpleCdr" where
  "new_SimpleCdr buffer = \<lparr>sc_buffer = buffer, sc_offset = 0\<rparr>"

definition getLength :: "SimpleCdr \<Rightarrow> u32" where
  "getLength sc = of_nat (length (sc_buffer sc))"

definition check_space :: "nat \<Rightarrow> SimpleCdr \<Rightarrow> SimpleCdr option" where
  "check_space num_bytes sc =
     (if getLength sc - sc_offset sc < of_nat num_bytes then None else Some sc)"

definition store_byte :: "u8 \<Rightarrow> SimpleCdr \<Rightarrow> SimpleCdr" where
  "store_byte b sc =
     sc\<lparr>sc_buffer := (sc_buffer sc)[unat (sc_offset sc) := b], sc_offset := sc_offset sc + 1\<rparr>"

definition put_u8 :: "u8 \<Rightarrow> SimpleCdr \<Rightarrow> SimpleCdr option" where
  "put_u8 value sc = do { sc1 \<leftarrow> check_space 1 sc; Some (store_byte value sc1) }"

definition put_u16 :: "u16 \<Rightarrow> SimpleCdr \<Rightarrow> SimpleCdr option" where
  "put_u16 value sc =
     do { sc1 \<leftarrow> check_space 2 sc;
          Some (store_byte (ucast (drop_bit 8 value)) (store_byte (ucast (value AND 0xff)) sc1)) }"

definition put_bytes :: "u8 list \<Rightarrow> SimpleCdr \<Rightarrow> SimpleCdr option" where
  "put_bytes bs sc =
     do { sc1 \<leftarrow> check_space (length bs) sc;
          let o1 = unat (sc_offset sc1);
          Some (sc1\<lparr>sc_buffer := take o1 (sc_buffer sc1) @ bs @ drop (o1 + length bs) (sc_buffer sc1),
                    sc_offset := sc_offset sc1 + of_nat (length bs)\<rparr>) }"

definition get_u8 :: "SimpleCdr \<Rightarrow> (u8 \<times> SimpleCdr) option" where
  "get_u8 sc =
     (if unat (sc_offset sc) < length (sc_buffer sc)
      then Some (sc_buffer sc ! unat (sc_offset sc), sc\<lparr>sc_offset := sc_offset sc + 1\<rparr>) else None)"

definition get_u16 :: "SimpleCdr \<Rightarrow> (u16 \<times> SimpleCdr) option" where
  "get_u16 sc =
     do { (lo, sc1) \<leftarrow> get_u8 sc;
          (hi, sc2) \<leftarrow> get_u8 sc1;
          Some (ucast lo OR push_bit 8 (ucast hi), sc2) }"

definition sc_advance :: "nat \<Rightarrow> SimpleCdr \<Rightarrow> SimpleCdr option" where
  "sc_advance num_bytes sc =
     do { sc1 \<leftarrow> check_space num_bytes sc; Some (sc1\<lparr>sc_offset := sc_offset sc1 + of_nat num_bytes\<rparr>) }"

definition sc_reset :: "SimpleCdr \<Rightarrow> SimpleCdr" where
  "sc_reset sc = sc\<lparr>sc_offset := 0\<rparr>"

section \<open>Checksums\<close>

partial_function (option) checksum_loop :: "u8 list \<Rightarrow> u16 \<Rightarrow> u8 \<Rightarrow> u8 option" where
  "checksum_loop stream i acc =
     (if unat i < length stream then checksum_loop stream (i + 1) (acc + stream ! unat i) else Some acc)"

definition checksum_buffer :: "u8 list \<Rightarrow> u8 option" where
  "checksum_buffer stream = checksum_loop stream 0 0"

definition checksum_u16 :: "u16 \<Rightarrow> u8" where
  "checksum_u16 val = ucast (drop_bit 8 val + val)"

lemma checksum_loop_sum:
  assumes "unat i \<le> length stream" "length stream < 65536"
  shows "checksum_loop stream i acc = Some (acc + sum_list (drop (unat i) stream))"
  using assms
proof (induction "length stream - unat i" arbitrary: i acc)
  case 0
  then show ?case by (simp add: checksum_loop.simps)
next
  case (Suc k)
  then have lt: "unat i < length stream" by simp
  have i1: "unat (i + 1) = Suc (unat i)"
    using lt Suc.prems(2) by (subst unat_word_ariths) (simp add: take_bit_eq_mod)
  have "checksum_loop stream (i + 1) (acc + stream ! unat i) =
      Some (acc + stream ! unat i + sum_list (drop (unat (i + 1)) stream))"
    using Suc.hyps(2) lt i1 Suc.prems(2) by (intro Suc.hyps(1)) simp_all
  then show ?case
    using lt by (subst checksum_loop.simps) (simp add: i1 Cons_nth_drop_Suc [symmetric] add.assoc)
qed

lemma checksum_buffer_sum: "length stream < 65536 \<Longrightarrow> checksum_buffer stream = Some (sum_list stream)"
  using checksum_loop_sum [of 0 stream 0] by (simp add: checksum_buffer_def)

lemma checksum_loop_endless:
  assumes "checksum_loop stream i acc = Some r"
  shows "length stream < 65536"
proof (rule checksum_loop.raw_induct [OF _ assms])
  fix f :: "u8 list \<Rightarrow> u16 \<Rightarrow> u8 \<Rightarrow> u8 option" and stream :: "u8 list" and i :: u16 and acc r
  assume IH: "\<And>st j c q. f st j c = Some q \<Longrightarrow> length st < 65536"
    and step: "(if unat i < length stream then f stream (i + 1) (acc + stream ! unat i) else Some acc) = Some r"
  have "unat i < 65536" using unsigned_less [of i, where ?'a = nat] by simp
  with IH step show "length stream < 65536" by (cases "unat i < length stream") auto
qed

section \<open>Writing a message\<close>

datatype wire_error = Out_of_range | Endless_loop

definition stream_message :: "u8 list \<Rightarrow> u16 \<Rightarrow> u8 \<Rightarrow> u8 \<Rightarrow> SimpleCdr \<Rightarrow> SimpleCdr option" where
  "stream_message message topic_id msg_len_checksum msg_checksum stream =
     do { s1 \<leftarrow> put_u16 0xfeff stream;
          s2 \<leftarrow> put_u16 (of_nat (length message)) s1;
          s3 \<leftarrow> put_u8 msg_len_checksum s2;
          s4 \<leftarrow> put_u16 topic_id s3;
          s5 \<leftarrow> put_bytes message s4;
          put_u8 msg_checksum s5 }"

definition write_message :: "u8 list \<Rightarrow> u16 \<Rightarrow> wire_error + u8 list" where
  "write_message message topic_id =
     (let overhead_bytes = 8;
          len = of_nat (overhead_bytes + length message) :: u16;
          buffer = replicate (unat len) 0
      in case checksum_buffer message of
           None \<Rightarrow> Inl Endless_loop
         | Some c \<Rightarrow>
             (let msg_checksum = 255 - (c + checksum_u16 topic_id);
                  msg_len_checksum = 255 - checksum_u16 (of_nat (length message))
              in case stream_message message topic_id msg_len_checksum msg_checksum (new_SimpleCdr buffer) of
                   None \<Rightarrow> Inl Out_of_range
                 | Some s \<Rightarrow> Inr (sc_buffer s)))"

section \<open>What is on the line\<close>

text \<open>A stream in which \<open>pre\<close> has been written and \<open>rest\<close> is still to be filled.\<close>

definition sc_at :: "u8 list \<Rightarrow> u8 list \<Rightarrow> SimpleCdr" where
  "sc_at pre rest = \<lparr>sc_buffer = pre @ rest, sc_offset = of_nat (length pre)\<rparr>"

lemma sc_buffer_sc_at [simp]: "sc_buffer (sc_at pre rest) = pre @ rest"
  by (simp add: sc_at_def)

lemma new_SimpleCdr_sc_at: "new_SimpleCdr buffer = sc_at [] buffer"
  by (simp add: new_SimpleCdr_def sc_at_def)

lemma space_word:
  assumes "length pre + length rest < 2 ^ 32" "n < 2 ^ 32"
  shows "(of_nat (length pre + length rest) :: u32) - of_nat (length pre) < of_nat n \<longleftrightarrow> length rest < n"
proof -
  have "(of_nat (length pre + length rest) :: u32) - of_nat (length pre) = of_nat (length rest)" by simp
  then show ?thesis using assms by (simp add: word_less_nat_alt unat_of_nat_less)
qed

lemma check_space_at:
  "length pre + length rest < 2 ^ 32 \<Longrightarrow> n < 2 ^ 32 \<Longrightarrow>
   check_space n (sc_at pre rest) = (if length rest < n then None else Some (sc_at pre rest))"
  using space_word [of pre rest n] by (simp add: check_space_def getLength_def sc_at_def)

lemma store_byte_at:
  "length pre + length rest < 2 ^ 32 \<Longrightarrow> rest \<noteq> [] \<Longrightarrow> store_byte b (sc_at pre rest) = sc_at (pre @ [b]) (tl rest)"
  by (cases rest) (simp_all add: store_byte_def sc_at_def unat_of_nat_less list_update_append)

lemma put_u8_at:
  "length pre + length rest < 2 ^ 32 \<Longrightarrow>
   put_u8 b (sc_at pre rest) = (if rest = [] then None else Some (sc_at (pre @ [b]) (tl rest)))"
  by (simp add: put_u8_def check_space_at store_byte_at Suc_le_eq not_less)

lemma put_u16_at:
  assumes "length pre + length rest < 2 ^ 32"
  shows "put_u16 v (sc_at pre rest) =
    (if length rest < 2 then None
     else Some (sc_at (pre @ [ucast (v AND 0xff), ucast (drop_bit 8 v)]) (drop 2 rest)))"
proof (cases "length rest < 2")
  case True
  then show ?thesis using assms by (simp add: put_u16_def check_space_at)
next
  case False
  then obtain a b rs where "rest = a # b # rs" by (cases rest; cases "tl rest") auto
  then show ?thesis using assms by (simp add: put_u16_def check_space_at store_byte_at)
qed

lemma put_bytes_at:
  "length pre + length rest < 2 ^ 32 \<Longrightarrow> length bs < 2 ^ 32 \<Longrightarrow>
   put_bytes bs (sc_at pre rest) =
     (if length rest < length bs then None else Some (sc_at (pre @ bs) (drop (length bs) rest)))"
  by (simp add: put_bytes_def check_space_at) (simp add: sc_at_def unat_of_nat_less)

lemma checksum_u16_of_nat: "n < 65536 \<Longrightarrow> checksum_u16 (of_nat n) = sum_list [lo_byte n, hi_byte n]"
proof -
  assume n: "n < 65536"
  have d: "unat (drop_bit 8 (of_nat n :: u16)) = n div 256"
    using n by (simp add: drop_bit_eq_div unat_div unat_of_nat_less)
  have "unat (drop_bit 8 (of_nat n :: u16) + of_nat n) = (n div 256 + n) mod 65536"
    unfolding unat_word_ariths d using n by (simp add: unat_of_nat_less)
  then have "unat (checksum_u16 (of_nat n)) = (n div 256 + n) mod 65536 mod 256"
    by (simp add: checksum_u16_def unsigned_ucast_eq take_bit_eq_mod)
  also have "\<dots> = (n mod 256 + n div 256 mod 256) mod 256"
    by (simp add: mod_mod_cancel mod_add_eq add.commute)
  also have "\<dots> = unat (lo_byte n + hi_byte n)"
    unfolding unat_word_ariths unat_lo_byte unat_hi_byte by simp
  finally show ?thesis by (simp add: word_unat_eq_iff)
qed

lemma write_message_frame:
  fixes message :: "u8 list"
  assumes "length message \<le> 65527" "topic < 65536"
  shows "write_message message (of_nat topic) = Inr (frame topic message)"
proof -
  let ?l = "length message"
  have len: "unat (of_nat (8 + ?l) :: u16) = 8 + ?l"
    using assms(1) by (subst unat_of_nat_less) simp_all
  have sum: "checksum_buffer message = Some (sum_list message)"
    using assms(1) by (intro checksum_buffer_sum) simp
  have magic: "(ucast ((0xfeff :: u16) AND 0xff) :: u8) = 0xff" "(ucast (drop_bit 8 (0xfeff :: u16)) :: u8) = 0xfe"
    by simp_all
  have fr: "[0xff, 0xfe, lo_byte ?l, hi_byte ?l, 255 - checksum_u16 (of_nat ?l), lo_byte topic, hi_byte topic] @
      message @ [255 - (sum_list message + checksum_u16 (of_nat topic))] = frame topic message"
    using assms
    by (simp add: frame_def checksum_of_def checksum_u16_of_nat PROTOCOL_VER_def PROTOCOL_VER2_def algebra_simps)
  show ?thesis
    unfolding write_message_def Let_def len sum option.case stream_message_def new_SimpleCdr_sc_at
    using assms(1) fr
    by (simp add: put_u16_at put_u8_at put_bytes_at lo_byte_u16 hi_byte_u16 del: replicate.simps)
qed

lemma write_message_wraps:
  assumes "65527 < length message" "length message < 65536"
  shows "write_message message topic = Inl Out_of_range"
proof -
  define k where "k = length message - 65528"
  have k: "length message = k + 65528" "k < 8" using assms by (simp_all add: k_def)
  have "(of_nat (8 + length message) :: u16) = of_nat k"
    by (simp add: word_of_nat_eq_iff k take_bit_eq_mod)
  then have len: "unat (of_nat (8 + length message) :: u16) = k"
    using k(2) by (simp add: unat_of_nat_less)
  have sum: "checksum_buffer message = Some (sum_list message)"
    using assms(2) by (rule checksum_buffer_sum)
  show ?thesis
    unfolding write_message_def Let_def len sum option.case stream_message_def new_SimpleCdr_sc_at
    using k by (simp add: put_u16_at put_u8_at put_bytes_at bind_eq_None_conv del: replicate.simps)
qed

lemma write_message_endless: "65536 \<le> length message \<Longrightarrow> write_message message topic = Inl Endless_loop"
  using checksum_loop_endless [of message 0 0]
  by (cases "checksum_loop message 0 0") (auto simp: write_message_def checksum_buffer_def)

text \<open>
  C22: \<open>write_message\<close> puts exactly one rosserial frame for the topic and the message on the line when
  the message has at most 65527 bytes. For 65528 to 65535 bytes the 16-bit buffer length wraps round,
  the stream runs out of space and \<open>std::out_of_range\<close> is thrown; from 65536 bytes on the 16-bit loop
  counter of the checksum never reaches the size and the call does not return.
\<close>

theorem write_message_outcome:
  "write_message message topic_id =
     (if length message \<le> 65527 then Inr (frame (unat topic_id) message)
      else if length message < 65536 then Inl Out_of_range else Inl Endless_loop)"
proof -
  have "unat topic_id < 65536" using unsigned_less [of topic_id, where ?'a = nat] by simp
  then show ?thesis
    using write_message_frame [of message "unat topic_id"]
    by (simp add: write_message_wraps write_message_endless)
qed

section \<open>Reading from a received stretch of bytes\<close>

lemma get_u8_at:
  "length pre + length rest < 2 ^ 32 \<Longrightarrow>
   get_u8 (sc_at pre rest) = (case rest of [] \<Rightarrow> None | b # bs \<Rightarrow> Some (b, sc_at (pre @ [b]) bs))"
  by (cases rest) (simp_all add: get_u8_def sc_at_def unat_of_nat_less)

lemma get_u16_at:
  "length pre + length rest < 2 ^ 32 \<Longrightarrow> rest = lo # hi # bs \<Longrightarrow>
   get_u16 (sc_at pre rest) = Some (ucast lo OR push_bit 8 (ucast hi), sc_at (pre @ [lo, hi]) bs)"
  by (simp add: get_u16_def get_u8_at)

lemma u16_from_bytes:
  assumes "n < 65536"
  shows "(ucast (lo_byte n) OR push_bit 8 (ucast (hi_byte n)) :: u16) = of_nat n"
proof -
  have lo: "lo_byte n = ucast (of_nat n :: u16)" "hi_byte n = ucast (drop_bit 8 (of_nat n :: u16))"
    by (simp_all add: hi_byte_u16) (simp add: word_unat_eq_iff unat_lo_byte unsigned_ucast_eq unat_of_nat take_bit_eq_mod mod_mod_cancel)
  show ?thesis unfolding lo by (rule bit_word_eqI) (auto simp: bit_simps)
qed

end
