(* ===== verification/Async_Read_Buffer.thy ===== *)
theory Async_Read_Buffer
  imports Server_Wire
begin

text \<open>
  The server's receive buffer, \<open>rosserial_server/async_read_buffer.h\<close>. The class talks to the outside
  in three ways, which are the events an operation returns: it calls the error callback, it starts
  an \<open>async_read\<close> of at least some and at most so many bytes into its memory, or it posts the success
  callback together with the bytes it asked for. A success callback is a value of type \<open>'k\<close> (the
  session's continuations).

  The posted \<open>SimpleCdr\<close> points into \<open>mem_\<close>; here it carries the bytes themselves. Only \<open>read\<close> and the
  transfer it starts write to \<open>mem_\<close>, and the session calls \<open>read\<close> from the posted callback only.
\<close>

section \<open>State and operations\<close>

datatype errc =
    Operation_not_permitted | Invalid_argument | No_buffer_space | Operation_aborted | End_of_file | Io_error

record 'k async_read_buffer =
  arb_mem :: "u8 list"
  write_index :: nat
  read_index :: nat
  read_success_callback :: "'k option"
  read_requested_bytes :: nat
  read_count :: nat

datatype 'k arb_event =
    Error_callback errc
  | Async_read nat nat
  | Post 'k "u8 list"
  | Quiet

definition arb_reset :: "'k async_read_buffer \<Rightarrow> 'k async_read_buffer" where
  "arb_reset b = b\<lparr>read_index := 0, write_index := 0\<rparr>"

definition new_AsyncReadBuffer :: "nat \<Rightarrow> 'k async_read_buffer" where
  "new_AsyncReadBuffer capacity =
     \<lparr>arb_mem = replicate capacity 0, write_index = 0, read_index = 0, read_success_callback = None,
      read_requested_bytes = 0, read_count = 0\<rparr>"

definition bytesAvailable :: "'k async_read_buffer \<Rightarrow> nat" where
  "bytesAvailable b = write_index b - read_index b"

definition bytesHeadroom :: "'k async_read_buffer \<Rightarrow> nat" where
  "bytesHeadroom b = length (arb_mem b) - write_index b"

definition arb_shift :: "'k async_read_buffer \<Rightarrow> 'k async_read_buffer" where
  "arb_shift b =
     b\<lparr>arb_mem := take (bytesAvailable b) (drop (read_index b) (arb_mem b)) @ drop (bytesAvailable b) (arb_mem b),
       write_index := bytesAvailable b, read_index := 0\<rparr>"

definition callSuccessCallback :: "'k async_read_buffer \<Rightarrow> 'k async_read_buffer \<times> 'k arb_event" where
  "callSuccessCallback b =
     (let stream = take (read_requested_bytes b) (drop (read_index b) (arb_mem b));
          b1 = b\<lparr>read_index := read_index b + read_requested_bytes b\<rparr>;
          ev = (case read_success_callback b1 of None \<Rightarrow> Quiet | Some k \<Rightarrow> Post k stream);
          b2 = b1\<lparr>read_requested_bytes := 0, read_success_callback := None\<rparr>
      in (if bytesAvailable b2 = 0 then arb_reset b2 else b2, ev))"

definition arb_read ::
  "nat \<Rightarrow> 'k option \<Rightarrow> 'k async_read_buffer \<Rightarrow> 'k async_read_buffer \<times> 'k arb_event" where
  "arb_read requested_bytes callback b =
     (if read_requested_bytes b \<noteq> 0
      then (let b1 = b\<lparr>read_count := read_count b + 1\<rparr>;
                b2 = (if read_count b1 > 3 then arb_reset (b1\<lparr>read_requested_bytes := 0\<rparr>) else b1)
            in (b2, Error_callback Operation_not_permitted))
      else if callback = None then (b, Error_callback Invalid_argument)
      else
        (let b1 = b\<lparr>read_count := 0, read_success_callback := callback,
                    read_requested_bytes := requested_bytes\<rparr>
         in if read_requested_bytes b1 > length (arb_mem b1) then (b1, Error_callback No_buffer_space)
            else
              (let transfer_bytes = int (read_requested_bytes b1) - int (bytesAvailable b1)
               in if transfer_bytes > 0
                  then (let b2 = (if int (bytesHeadroom b1) < transfer_bytes then arb_shift b1 else b1)
                        in (b2, Async_read (nat transfer_bytes) (bytesHeadroom b2)))
                  else callSuccessCallback b1)))"

definition arb_callback ::
  "errc option \<Rightarrow> nat \<Rightarrow> 'k async_read_buffer \<Rightarrow> 'k async_read_buffer \<times> 'k arb_event" where
  "arb_callback error bytes_transferred b =
     (case error of
        Some e \<Rightarrow>
          (let b1 = b\<lparr>read_requested_bytes := 0, read_success_callback := None\<rparr>
           in (b1, if e = Operation_aborted then Quiet else Error_callback e))
      | None \<Rightarrow> callSuccessCallback (b\<lparr>write_index := write_index b + bytes_transferred\<rparr>))"

text \<open>
  A transfer that \<open>async_read\<close> completes: the bytes are in memory from \<open>write_index_\<close> on when the
  callback runs.
\<close>

definition arb_transfer :: "u8 list \<Rightarrow> 'k async_read_buffer \<Rightarrow> 'k async_read_buffer \<times> 'k arb_event" where
  "arb_transfer data b =
     arb_callback None (length data)
       (b\<lparr>arb_mem := take (write_index b) (arb_mem b) @ data @ drop (write_index b + length data) (arb_mem b)\<rparr>)"

section \<open>The invariant and the queue it represents\<close>

definition arb_inv :: "'k async_read_buffer \<Rightarrow> bool" where
  "arb_inv b \<longleftrightarrow> read_index b \<le> write_index b \<and> write_index b \<le> length (arb_mem b)"

definition content :: "'k async_read_buffer \<Rightarrow> u8 list" where
  "content b = take (bytesAvailable b) (drop (read_index b) (arb_mem b))"

definition idle :: "'k async_read_buffer \<Rightarrow> bool" where
  "idle b \<longleftrightarrow> arb_inv b \<and> read_requested_bytes b = 0"

definition waiting :: "nat \<Rightarrow> 'k \<Rightarrow> 'k async_read_buffer \<Rightarrow> bool" where
  "waiting n k b \<longleftrightarrow>
     arb_inv b \<and> read_requested_bytes b = n \<and> read_success_callback b = Some k \<and>
     length (content b) < n \<and> n \<le> length (arb_mem b) \<and> read_index b + n \<le> length (arb_mem b)"

lemma length_content [simp]: "arb_inv b \<Longrightarrow> length (content b) = bytesAvailable b"
  by (auto simp: content_def arb_inv_def bytesAvailable_def min_def)

lemma new_idle: "idle (new_AsyncReadBuffer capacity)" "content (new_AsyncReadBuffer capacity) = []"
  by (simp_all add: idle_def arb_inv_def new_AsyncReadBuffer_def content_def bytesAvailable_def)

lemma new_capacity [simp]: "length (arb_mem (new_AsyncReadBuffer capacity)) = capacity"
  by (simp add: new_AsyncReadBuffer_def)

lemma content_reset [simp]: "content (arb_reset b) = []" "arb_inv (arb_reset b)"
  by (simp_all add: content_def arb_reset_def bytesAvailable_def arb_inv_def)

lemma shift_content:
  assumes "arb_inv b"
  shows "content (arb_shift b) = content b" "arb_inv (arb_shift b)"
    "length (arb_mem (arb_shift b)) = length (arb_mem b)"
  using assms by (auto simp: content_def arb_shift_def bytesAvailable_def arb_inv_def min_def)

lemma callSuccessCallback_outcome:
  assumes inv: "arb_inv b" and n: "read_requested_bytes b \<le> length (content b)"
    and k: "read_success_callback b = Some k"
  obtains b' where "callSuccessCallback b = (b', Post k (take (read_requested_bytes b) (content b)))"
    "idle b'" "content b' = drop (read_requested_bytes b) (content b)" "length (arb_mem b') = length (arb_mem b)"
proof -
  let ?n = "read_requested_bytes b"
  let ?b2 = "b\<lparr>read_index := read_index b + ?n, read_requested_bytes := 0, read_success_callback := None\<rparr>"
  have c2: "content ?b2 = drop ?n (content b)" "arb_inv ?b2"
    using inv n by (auto simp: content_def bytesAvailable_def arb_inv_def take_drop drop_drop add.commute)
  have st: "take ?n (drop (read_index b) (arb_mem b)) = take ?n (content b)"
    using inv n unfolding length_content [OF inv] by (simp add: content_def min_def)
  have e: "bytesAvailable ?b2 = 0 \<Longrightarrow> content ?b2 = []"
    by (simp add: content_def)
  show thesis
  proof (rule that)
    show "callSuccessCallback b =
        (if bytesAvailable ?b2 = 0 then arb_reset ?b2 else ?b2, Post k (take ?n (content b)))"
      by (simp add: callSuccessCallback_def Let_def k st)
  qed (use c2 e in \<open>auto simp: idle_def arb_reset_def arb_inv_def content_def bytesAvailable_def\<close>)
qed

text \<open>The three ways a request can go, on a buffer with no request pending.\<close>

lemma read_available:
  assumes "idle b" "n \<le> length (content b)"
  obtains b' where "arb_read n (Some k) b = (b', Post k (take n (content b)))"
    "idle b'" "content b' = drop n (content b)" "length (arb_mem b') = length (arb_mem b)"
proof -
  let ?b1 = "b\<lparr>read_count := 0, read_success_callback := Some k, read_requested_bytes := n\<rparr>"
  have c1: "content ?b1 = content b" "arb_inv ?b1" "arb_mem ?b1 = arb_mem b"
    using assms(1) by (simp_all add: content_def bytesAvailable_def idle_def arb_inv_def)
  have av: "length (content b) = bytesAvailable b" "bytesAvailable b \<le> length (arb_mem b)"
      "bytesAvailable ?b1 = bytesAvailable b"
    using assms(1) by (auto simp: idle_def arb_inv_def bytesAvailable_def content_def min_def)
  obtain b' where b': "callSuccessCallback ?b1 = (b', Post k (take n (content b)))"
      "idle b'" "content b' = drop n (content b)" "length (arb_mem b') = length (arb_mem b)"
    using callSuccessCallback_outcome [of ?b1 k] c1 assms(2) by auto
  then show thesis
    using assms av by (intro that [of b']) (simp_all add: arb_read_def idle_def Let_def)
qed

lemma read_transfers:
  assumes "idle b" "length (content b) < n" "n \<le> length (arb_mem b)"
  obtains b' room where "arb_read n (Some k) b = (b', Async_read (n - length (content b)) room)"
    "waiting n k b'" "content b' = content b" "length (arb_mem b') = length (arb_mem b)"
    "room = bytesHeadroom b'" "n - length (content b) \<le> room"
proof -
  let ?b1 = "b\<lparr>read_count := 0, read_success_callback := Some k, read_requested_bytes := n\<rparr>"
  let ?b2 = "if int (bytesHeadroom ?b1) < int n - int (bytesAvailable ?b1) then arb_shift ?b1 else ?b1"
  have c1: "content ?b1 = content b" "arb_inv ?b1"
    using assms(1) by (simp_all add: content_def bytesAvailable_def idle_def arb_inv_def)
  have av: "length (content b) = bytesAvailable b" "bytesAvailable ?b1 = bytesAvailable b"
    using assms(1) by (auto simp: idle_def arb_inv_def bytesAvailable_def content_def min_def)
  have c2: "content ?b2 = content b" "arb_inv ?b2" "length (arb_mem ?b2) = length (arb_mem b)"
    using c1 shift_content [of ?b1] by simp_all
  have sel: "read_requested_bytes ?b2 = n" "read_success_callback ?b2 = Some k"
    by (simp_all add: arb_shift_def)
  have room: "read_index ?b2 + n \<le> length (arb_mem ?b2)" "n - length (content b) \<le> bytesHeadroom ?b2"
    using assms c1(2) by (auto simp: arb_shift_def bytesHeadroom_def bytesAvailable_def arb_inv_def av min_def)
  have "nat (int n - int (bytesAvailable b)) = n - length (content b)" using av by simp
  then have "arb_read n (Some k) b = (?b2, Async_read (n - length (content b)) (bytesHeadroom ?b2))"
    using assms av by (simp add: arb_read_def idle_def Let_def)
  moreover have "waiting n k ?b2"
    using c2 sel room assms(2,3) by (simp add: waiting_def)
  ultimately show thesis using that c2 room(2) by blast
qed

lemma read_too_large:
  assumes "idle b" "length (arb_mem b) < n"
  obtains b' where "arb_read n (Some k) b = (b', Error_callback No_buffer_space)"
    "read_requested_bytes b' = n" "content b' = content b" "read_count b' = 0"
  using assms by (simp add: arb_read_def idle_def Let_def content_def bytesAvailable_def)

lemma transfer_delivers:
  assumes w: "waiting n k b" and need: "n - length (content b) \<le> length data" "length data \<le> bytesHeadroom b"
  obtains b' where "arb_transfer data b = (b', Post k (take n (content b @ data)))"
    "idle b'" "content b' = drop n (content b @ data)" "length (arb_mem b') = length (arb_mem b)"
proof -
  let ?m = "take (write_index b) (arb_mem b) @ data @ drop (write_index b + length data) (arb_mem b)"
  let ?b1 = "b\<lparr>arb_mem := ?m, write_index := write_index b + length data\<rparr>"
  have inv: "read_index b \<le> write_index b" "write_index b \<le> length (arb_mem b)"
      "write_index b + length data \<le> length (arb_mem b)"
    using w need(2) by (auto simp: waiting_def arb_inv_def bytesHeadroom_def)
  then have m: "length ?m = length (arb_mem b)" by simp
  have c1: "content ?b1 = content b @ data"
    using inv by (cases data) (auto simp: content_def bytesAvailable_def drop_take min_def)
  have i1: "arb_inv ?b1" using inv by (simp add: arb_inv_def)
  have r: "read_requested_bytes ?b1 = n" "read_success_callback ?b1 = Some k" using w by (simp_all add: waiting_def)
  have "n \<le> length (content b @ data)" using need(1) by simp
  then obtain b' where "callSuccessCallback ?b1 = (b', Post k (take n (content b @ data)))"
      "idle b'" "content b' = drop n (content b @ data)" "length (arb_mem b') = length (arb_mem ?b1)"
    using callSuccessCallback_outcome [OF i1 _ r(2)] unfolding r c1 by metis
  moreover have "arb_mem ?b1 = ?m" by simp
  ultimately show thesis
    using that m by (simp only: arb_transfer_def arb_callback_def option.case) simp
qed

section \<open>What a client may rely on\<close>

text \<open>
  The contract of a byte source with one request at a time: a request is served at once from the bytes
  held, or waits for a transfer that is large enough to serve it and small enough to fit; either way
  the client gets the oldest bytes and the source keeps the rest.
\<close>

locale byte_source =
  fixes ready :: "'b \<Rightarrow> bool"
    and pending :: "nat \<Rightarrow> 'k \<Rightarrow> 'b \<Rightarrow> bool"
    and held :: "'b \<Rightarrow> u8 list"
    and room :: "'b \<Rightarrow> nat"
    and capacity :: "'b \<Rightarrow> nat"
    and request :: "nat \<Rightarrow> 'k option \<Rightarrow> 'b \<Rightarrow> 'b \<times> 'k arb_event"
    and provide :: "u8 list \<Rightarrow> 'b \<Rightarrow> 'b \<times> 'k arb_event"
  assumes request_served: "ready b \<Longrightarrow> n \<le> length (held b) \<Longrightarrow>
      \<exists>b'. request n (Some k) b = (b', Post k (take n (held b))) \<and> ready b' \<and> held b' = drop n (held b) \<and>
        capacity b' = capacity b"
    and request_waits: "ready b \<Longrightarrow> length (held b) < n \<Longrightarrow> n \<le> capacity b \<Longrightarrow>
      \<exists>b'. request n (Some k) b = (b', Async_read (n - length (held b)) (room b')) \<and> pending n k b' \<and>
        held b' = held b \<and> capacity b' = capacity b \<and> n - length (held b) \<le> room b'"
    and provide_served: "pending n k b \<Longrightarrow> n - length (held b) \<le> length d \<Longrightarrow> length d \<le> room b \<Longrightarrow>
      \<exists>b'. provide d b = (b', Post k (take n (held b @ d))) \<and> ready b' \<and> held b' = drop n (held b @ d) \<and>
        capacity b' = capacity b"
    and pending_short: "pending n k b \<Longrightarrow> length (held b) < n"
    and room_bound: "pending n k b \<Longrightarrow> length (held b) + room b \<le> capacity b"

text \<open>A client that makes a sequence of requests, the hardware delivering a chunk whenever one waits.\<close>

fun fetch_all :: "(nat \<Rightarrow> 'k option \<Rightarrow> 'b \<Rightarrow> 'b \<times> 'k arb_event) \<Rightarrow> (u8 list \<Rightarrow> 'b \<Rightarrow> 'b \<times> 'k arb_event) \<Rightarrow>
    (nat \<times> 'k) list \<Rightarrow> u8 list list \<Rightarrow> 'b \<Rightarrow> ((u8 list \<times> 'k) list \<times> u8 list list \<times> 'b) option" where
  "fetch_all req prov [] ds b = Some ([], ds, b)"
| "fetch_all req prov ((n, k) # rs) ds b =
     (case req n (Some k) b of
        (b1, Post k1 bs) \<Rightarrow>
          do { (outs, ds', b') \<leftarrow> fetch_all req prov rs ds b1; Some ((bs, k1) # outs, ds', b') }
      | (b1, Async_read least most) \<Rightarrow>
          (case ds of
             [] \<Rightarrow> None
           | d # ds1 \<Rightarrow>
               if length d < least \<or> most < length d then None
               else (case prov d b1 of
                       (b2, Post k1 bs) \<Rightarrow>
                         do { (outs, ds', b') \<leftarrow> fetch_all req prov rs ds1 b2; Some ((bs, k1) # outs, ds', b') }
                     | _ \<Rightarrow> None))
      | _ \<Rightarrow> None)"

context byte_source
begin

lemma fetch_all_fifo:
  assumes "ready b" "fetch_all request provide rs ds b = Some (outs, ds', b')" "\<forall>(n, k)\<in>set rs. n \<le> capacity b"
  shows "concat (map fst outs) @ held b' @ concat ds' = held b @ concat ds \<and>
    map (\<lambda>(bs, k). (length bs, k)) outs = rs \<and> ready b'"
  using assms
proof (induction rs arbitrary: ds b outs)
  case Nil
  then show ?case by simp
next
  case (Cons r rs)
  obtain n k where r [simp]: "r = (n, k)" by (cases r)
  show ?case
  proof (cases "n \<le> length (held b)")
    case True
    obtain b1 where b1: "request n (Some k) b = (b1, Post k (take n (held b)))" "ready b1"
        "held b1 = drop n (held b)" "capacity b1 = capacity b"
      using request_served [OF Cons.prems(1) True] by blast
    from Cons.prems(2) obtain outs1 where o1: "fetch_all request provide rs ds b1 = Some (outs1, ds', b')"
        "outs = (take n (held b), k) # outs1"
      by (auto simp: b1 bind_eq_Some_conv)
    show ?thesis
      using Cons.IH [OF b1(2) o1(1)] Cons.prems(3) True
      by (auto simp: o1(2) b1(3,4))
  next
    case False
    have "n \<le> capacity b" using Cons.prems(3) by simp
    with False obtain b1 where b1: "request n (Some k) b = (b1, Async_read (n - length (held b)) (room b1))"
        "pending n k b1" "held b1 = held b" "capacity b1 = capacity b"
      using request_waits [OF Cons.prems(1), of n k] by (auto simp: not_le)
    from Cons.prems(2) obtain d ds1 where d: "ds = d # ds1" "n - length (held b) \<le> length d" "length d \<le> room b1"
      by (auto simp: b1 split: list.splits if_splits)
    obtain b2 where b2: "provide d b1 = (b2, Post k (take n (held b @ d)))" "ready b2"
        "held b2 = drop n (held b @ d)" "capacity b2 = capacity b"
      using provide_served [OF b1(2), of d] d b1 by metis
    from Cons.prems(2) obtain outs1 where o1: "fetch_all request provide rs ds1 b2 = Some (outs1, ds', b')"
        "outs = (take n (held b @ d), k) # outs1"
      using d by (auto simp: b1 b2 bind_eq_Some_conv)
    have "concat (map fst outs1) @ held b' @ concat ds' = drop n (held b @ d) @ concat ds1"
        "map (\<lambda>(bs, k). (length bs, k)) outs1 = rs" "ready b'"
      using Cons.IH [OF b2(2) o1(1)] Cons.prems(3) by (simp_all add: b2)
    moreover have "length (take n (held b @ d)) = n" using d(2) by simp
    ultimately show ?thesis
      unfolding o1(2) d(1) by (simp del: take_append drop_append)
  qed
qed

end

interpretation arb: byte_source idle waiting content bytesHeadroom "\<lambda>b. length (arb_mem b)" arb_read arb_transfer
proof (unfold_locales, goal_cases)
  case (1 b n k)
  then show ?case using read_available [of b n k] by metis
next
  case (2 b n k)
  then show ?case using read_transfers [of b n k] by metis
next
  case (3 n k b d)
  then show ?case using transfer_delivers [of n k b d] by metis
next
  case (4 n k b)
  then show ?case by (auto simp: waiting_def)
next
  case (5 n k b)
  then show ?case by (auto simp: waiting_def bytesHeadroom_def arb_inv_def bytesAvailable_def)
qed

text \<open>
  C21: The receive buffer is a FIFO of bytes. Whatever requests a client makes (none larger than the
  capacity) and however the hardware cuts the stream into transfers, every request is answered to its
  own callback with exactly as many bytes as it asked for, and the answers, what the buffer still
  holds and what has not been transferred yet are together the bytes sent, in order.
\<close>

theorem read_buffer_fifo:
  assumes "fetch_all arb_read arb_transfer requests chunks (new_AsyncReadBuffer capacity) = Some (answers, chunks', b)"
    and "\<forall>(n, k)\<in>set requests. n \<le> capacity"
  shows "concat (map fst answers) @ content b @ concat chunks' = concat chunks \<and>
    map (\<lambda>(bs, k). (length bs, k)) answers = requests"
  using arb.fetch_all_fifo [OF new_idle(1) assms(1)] assms(2) by (simp add: new_idle)

theorem read_buffer_fifo_witness:
  "\<exists>answers chunks' b.
     fetch_all arb_read arb_transfer [(2, ''a''), (3, ''b'')] [[1, 2, 3], [4, 5]] (new_AsyncReadBuffer 4) =
       Some (answers, chunks', b) \<and>
     concat (map fst answers) @ content b @ concat chunks' = [1, 2, 3, 4, 5]"
proof -
  have ev: "fetch_all arb_read arb_transfer [(2, ''a''), (3, ''b'')] [[1, 2, 3], [4, 5]] (new_AsyncReadBuffer 4) =
      Some ([([1, 2], ''a''), ([3, 4, 5], ''b'')], [],
        snd (snd (the (fetch_all arb_read arb_transfer [(2, ''a''), (3, ''b'')] [[1, 2, 3], [4, 5]]
          (new_AsyncReadBuffer 4)))))"
    by code_simp
  show ?thesis
  proof (intro exI conjI)
    show "concat (map fst [([1, 2], ''a''), ([3, 4, 5], ''b'')]) @ content (snd (snd (the
        (fetch_all arb_read arb_transfer [(2, ''a''), (3, ''b'')] [[1, 2, 3], [4, 5]]
          (new_AsyncReadBuffer 4))))) @ concat [] = [1, 2, 3, 4, 5]"
      using read_buffer_fifo [OF ev] by simp
  qed (rule ev)
qed

end
