(* ===== verification/Msg_Lookup.thy ===== *)
theory Msg_Lookup
  imports Prelude
begin

text \<open>
  The names of ROS interfaces on the server: \<open>split\<close> and \<open>lookupMessage\<close> of
  \<open>rosserial_server/src/msg_lookup.cpp\<close> and \<open>replace_colon\<close> of \<open>rosserial_server/services.h\<close>. The package index
  (\<open>ament_index_cpp\<close>) and the JSON files of the installed packages are parameters: the first maps a
  package to its share directory, the second a file name to the type names and hashes listed under
  \<open>type_hashes\<close>, or to \<open>None\<close> when the file cannot be opened.
\<close>

section \<open>Interface names\<close>

record PackageInfo =
  package_name :: string
  interface_type :: string
  type_name :: string

fun find_char :: "char \<Rightarrow> string \<Rightarrow> nat option" where
  "find_char d [] = None"
| "find_char d (c # s) = (if c = d then Some 0 else map_option Suc (find_char d s))"

text \<open>The loop of \<open>split\<close>; its argument is what the string has from \<open>prev\<close> on.\<close>

function split_fields :: "string \<Rightarrow> string list" where
  "split_fields s =
     (case find_char (CHR ''/'') s of
        None \<Rightarrow> if s = [] then [] else [s]
      | Some pos \<Rightarrow> take pos s # split_fields (drop (Suc pos) s))"
  by pat_completeness auto
termination split_fields
proof (relation "measure length")
  fix s pos assume "find_char (CHR ''/'') s = Some pos"
  then have "s \<noteq> []" by auto
  then show "(drop (Suc pos) s, s) \<in> measure length" by simp
qed simp

declare split_fields.simps [simp del]

text \<open>\<open>None\<close> is the exception \<open>std::invalid_argument\<close>.\<close>

definition split_name :: "string \<Rightarrow> PackageInfo option" where
  "split_name str =
     (case split_fields str of
        [a, b, c] \<Rightarrow> Some \<lparr>package_name = a, interface_type = b, type_name = c\<rparr>
      | _ \<Rightarrow> None)"

section \<open>Looking a message up\<close>

record msg_info =
  mi_md5sum :: string
  mi_full_text :: string

definition MsgInfo_default :: msg_info where
  "MsgInfo_default = \<lparr>mi_md5sum = [], mi_full_text = []\<rparr>"

definition json_file :: "string \<Rightarrow> PackageInfo \<Rightarrow> string" where
  "json_file dir info = dir @ ''/'' @ interface_type info @ ''/'' @ type_name info @ ''.json''"

definition lookupMessage ::
    "(string \<Rightarrow> string option) \<Rightarrow> (string \<Rightarrow> (string \<times> string) list option) \<Rightarrow> string \<Rightarrow> string \<Rightarrow> msg_info option" where
  "lookupMessage share_directory type_hashes interface_name suffix =
     (if count_list interface_name (CHR ''/'') \<noteq> 2 then Some MsgInfo_default
      else (case split_name interface_name of
              None \<Rightarrow> None
            | Some info \<Rightarrow>
                (case share_directory (package_name info) of
                   None \<Rightarrow> Some MsgInfo_default
                 | Some dir \<Rightarrow>
                     (case type_hashes (json_file dir info) of
                        None \<Rightarrow> Some MsgInfo_default
                      | Some hashes \<Rightarrow>
                          (case map_of hashes (interface_name @ suffix) of
                             None \<Rightarrow> Some MsgInfo_default
                           | Some h \<Rightarrow> Some (MsgInfo_default\<lparr>mi_md5sum := h\<rparr>))))))"

section \<open>Names of C++ types\<close>

fun find_colons :: "string \<Rightarrow> nat option" where
  "find_colons (a # b # s) =
     (if a = CHR '':'' \<and> b = CHR '':'' then Some 0 else map_option Suc (find_colons (b # s)))"
| "find_colons s = None"

lemma find_colons_bound: "find_colons s = Some i \<Longrightarrow> i + 2 \<le> length s"
  by (induction s arbitrary: i rule: find_colons.induct) (auto split: if_splits)

function replace_colon :: "string \<Rightarrow> string" where
  "replace_colon s =
     (case find_colons s of
        None \<Rightarrow> s
      | Some index \<Rightarrow> replace_colon (take index s @ ''/'' @ drop (index + 2) s))"
  by pat_completeness auto
termination replace_colon
  by (relation "measure length") (auto dest: find_colons_bound)

declare replace_colon.simps [simp del]

section \<open>Splitting and joining\<close>

definition join_name :: "PackageInfo \<Rightarrow> string" where
  "join_name info = package_name info @ ''/'' @ interface_type info @ ''/'' @ type_name info"

lemma find_char_None: "find_char d s = None \<longleftrightarrow> d \<notin> set s"
  by (induction s) auto

lemma find_char_append: "d \<notin> set s \<Longrightarrow> find_char d (s @ d # t) = Some (length s)"
  by (induction s) auto

lemma find_char_Some:
  "find_char d s = Some i \<Longrightarrow> s = take i s @ d # drop (Suc i) s \<and> d \<notin> set (take i s)"
  by (induction s arbitrary: i) (auto split: if_splits)

lemma split_fields_cons:
  "CHR ''/'' \<notin> set a \<Longrightarrow> split_fields (a @ CHR ''/'' # t) = a # split_fields t"
  by (subst split_fields.simps) (simp add: find_char_append)

lemma split_fields_last: "CHR ''/'' \<notin> set a \<Longrightarrow> split_fields a = (if a = [] then [] else [a])"
  by (subst split_fields.simps) (simp add: find_char_None [THEN iffD2])

lemma split_at_char:
  fixes s :: string
  assumes "0 < count_list s d"
  obtains a t where "s = a @ d # t" "d \<notin> set a" "count_list t d = count_list s d - 1"
proof -
  have "find_char d s \<noteq> None" using assms by (simp add: find_char_None count_list_0_iff [symmetric])
  then obtain i where "find_char d s = Some i" by blast
  then have i: "s = take i s @ d # drop (Suc i) s" "d \<notin> set (take i s)" using find_char_Some by blast+
  have "count_list s d = count_list (take i s) d + Suc (count_list (drop (Suc i) s) d)"
    by (subst i(1)) simp
  then show thesis using that [OF i] i(2) by (simp add: count_list_0_iff)
qed

lemma two_slashes:
  assumes "count_list s (CHR ''/'') = 2"
  obtains a b c where "s = a @ ''/'' @ b @ ''/'' @ c" "CHR ''/'' \<notin> set a" "CHR ''/'' \<notin> set b" "CHR ''/'' \<notin> set c"
proof -
  obtain a t where a: "s = a @ CHR ''/'' # t" "CHR ''/'' \<notin> set a" "count_list t (CHR ''/'') = 1"
    by (rule split_at_char [of s "CHR ''/''"]) (use assms in auto)
  obtain b c where b: "t = b @ CHR ''/'' # c" "CHR ''/'' \<notin> set b" "count_list c (CHR ''/'') = 0"
    by (rule split_at_char [of t "CHR ''/''"]) (use a in auto)
  show thesis by (rule that [of a b c]) (use a b in \<open>auto simp: count_list_0_iff\<close>)
qed

lemma split_three:
  assumes "CHR ''/'' \<notin> set a" "CHR ''/'' \<notin> set b" "CHR ''/'' \<notin> set c"
  shows "split_name (a @ ''/'' @ b @ ''/'' @ c) =
    (if c = [] then None else Some \<lparr>package_name = a, interface_type = b, type_name = c\<rparr>)"
  using assms by (simp add: split_name_def split_fields_cons split_fields_last)

section \<open>Replacing colons\<close>

lemma find_colons_None: "find_colons s = None \<longleftrightarrow> \<not> (\<exists>a t. s = a @ ''::'' @ t)"
proof (induction s rule: find_colons.induct)
  case (1 a b s)
  then show ?case by (auto simp: Cons_eq_append_conv)
qed (auto simp: Cons_eq_append_conv)

lemma find_colons_append:
  "CHR '':'' \<notin> set a \<Longrightarrow> find_colons (a @ CHR '':'' # CHR '':'' # t) = Some (length a)"
proof (induction a)
  case (Cons x a)
  then show ?case by (cases a) auto
qed simp

lemma find_colons_plain: "CHR '':'' \<notin> set a \<Longrightarrow> find_colons a = None"
  by (induction a rule: find_colons.induct) auto

fun join_with :: "string \<Rightarrow> string list \<Rightarrow> string" where
  "join_with sep [] = []"
| "join_with sep [x] = x"
| "join_with sep (x # y # xs) = x @ sep @ join_with sep (y # xs)"

lemma replace_colon_prefix:
  assumes "CHR '':'' \<notin> set a" "\<forall>x\<in>set xs. CHR '':'' \<notin> set x"
  shows "replace_colon (a @ join_with ''::'' xs) = a @ join_with ''/'' xs"
  using assms
proof (induction "''::''" xs arbitrary: a rule: join_with.induct)
  case 1
  then show ?case by (subst replace_colon.simps) (simp add: find_colons_plain)
next
  case (2 x)
  then show ?case by (subst replace_colon.simps) (simp add: find_colons_plain)
next
  case (3 x y xs)
  have "find_colons ((a @ x) @ CHR '':'' # CHR '':'' # join_with ''::'' (y # xs)) = Some (length (a @ x))"
    by (rule find_colons_append) (use 3 in auto)
  then have "replace_colon (a @ join_with ''::'' (x # y # xs)) = replace_colon ((a @ x @ ''/'') @ join_with ''::'' (y # xs))"
    by (subst replace_colon.simps) simp
  also have "\<dots> = (a @ x @ ''/'') @ join_with ''/'' (y # xs)"
    by (rule 3(1)) (use 3(2,3) in auto)
  finally show ?case by simp
qed

text \<open>The hash that the package of an interface lists, empty when there is none.\<close>

definition the_hash :: "(string \<Rightarrow> string option) \<Rightarrow> (string \<Rightarrow> (string \<times> string) list option) \<Rightarrow> string \<Rightarrow> string \<Rightarrow> string" where
  "the_hash dirs hashes name suffix =
     (case split_name name of
        None \<Rightarrow> []
      | Some info \<Rightarrow>
          (case Option.bind (dirs (package_name info)) (\<lambda>dir. hashes (json_file dir info)) of
             None \<Rightarrow> []
           | Some hs \<Rightarrow> (case map_of hs (name @ suffix) of None \<Rightarrow> [] | Some h \<Rightarrow> h)))"

section \<open>Properties\<close>



text \<open>
  The name of a C++ type, parts joined by double colons, becomes the name of the interface, the same parts
  joined by slashes; and a name with double colons is never the result.
\<close>

theorem replace_colon_joins:
  assumes "\<forall>x\<in>set parts. CHR '':'' \<notin> set x"
  shows "replace_colon (join_with ''::'' parts) = join_with ''/'' parts"
  using replace_colon_prefix [of "[]" parts] assms by simp

theorem replace_colon_no_colons: "find_colons (replace_colon s) = None"
proof (induction s rule: replace_colon.induct)
  case (1 s)
  then show ?case by (subst replace_colon.simps) (auto split: option.split)
qed

end
