(* ===== verification/Topic_Handlers.thy ===== *)
theory Topic_Handlers
  imports Server_Wire Msg_Lookup
begin

text \<open>
  The endpoints a session creates for a device, \<open>rosserial_server/topic_handlers.h\<close>: publishers,
  subscribers, service clients and service servers. ROS itself (\<open>rclcpp\<close>, the type support and the
  installed packages) is not part of the repository: what it answers is the
  record \<open>ros_env\<close>, and what the endpoints ask of it are the actions they return. An answer that may
  differ from one call to the next takes the number of the query as an argument.
\<close>

section \<open>The ROS side\<close>

record topic_info =
  ti_topic_id :: u16
  ti_topic_name :: string
  ti_message_type :: string
  ti_md5sum :: string
  ti_buffer_size :: int

datatype service_reply = Bad_request | Reply_timeout | Reply "u8 list"

text \<open>
  \<open>None\<close> and \<open>False\<close> stand for an exception: a buffer that does not deserialise, an unknown package or file, a
  publisher, subscription, client or server that cannot be created. \<open>uninitialised\<close> is the value a
  member has that no constructor sets.
\<close>

record ros_env =
  deserialize_topic_info :: "u8 list \<Rightarrow> topic_info option"
  deserialize_log :: "u8 list \<Rightarrow> (nat \<times> string) option"
  get_package_share_directory :: "string \<Rightarrow> string option"
  type_hashes :: "string \<Rightarrow> (string \<times> string) list option"
  create_generic_publisher :: "topic_info \<Rightarrow> bool"
  create_generic_subscription :: "topic_info \<Rightarrow> bool"
  create_generic_client :: "topic_info \<Rightarrow> bool"
  start_server :: "topic_info \<Rightarrow> bool"
  services_map :: "string \<Rightarrow> bool"
  send_request :: "nat \<Rightarrow> string \<Rightarrow> u8 list \<Rightarrow> service_reply"
  ros_ok :: "nat \<Rightarrow> bool"
  clock_now :: "nat \<Rightarrow> u8 list"
  uninitialised :: "nat \<Rightarrow> nat"

datatype ros_action =
    Ros_publish string "u8 list"
  | Write_message "u8 list" u16
  | Remove_pending_request string
  | Ros_log nat string

abbreviation lookup :: "ros_env \<Rightarrow> string \<Rightarrow> string \<Rightarrow> msg_info option" where
  "lookup R \<equiv> lookupMessage (get_package_share_directory R) (type_hashes R)"

section \<open>Publisher and Subscriber\<close>

definition message_info :: "ros_env \<Rightarrow> topic_info \<Rightarrow> msg_info" where
  "message_info R ti =
     (let msginfo = (case lookup R (ti_message_type ti) [] of None \<Rightarrow> MsgInfo_default | Some i \<Rightarrow> i)
      in if mi_md5sum msginfo \<noteq> [] \<and> mi_md5sum msginfo \<noteq> ti_md5sum ti
         then msginfo\<lparr>mi_full_text := []\<rparr> else msginfo)"

record publisher =
  gp_topic :: string
  gp_type :: string

definition new_Publisher :: "ros_env \<Rightarrow> topic_info \<Rightarrow> publisher option" where
  "new_Publisher R ti =
     (let msginfo = message_info R ti
      in if create_generic_publisher R ti
         then Some \<lparr>gp_topic = ti_topic_name ti, gp_type = ti_message_type ti\<rparr> else None)"

definition Publisher_handle :: "SimpleCdr \<Rightarrow> publisher \<Rightarrow> ros_action list" where
  "Publisher_handle stream pub = [Ros_publish (gp_topic pub) (sc_buffer stream)]"

record subscriber =
  gs_topic :: string
  gs_type :: string
  gs_topic_id :: u16

definition new_Subscriber :: "ros_env \<Rightarrow> topic_info \<Rightarrow> subscriber option" where
  "new_Subscriber R ti =
     (let msginfo = message_info R ti
      in if create_generic_subscription R ti
         then Some \<lparr>gs_topic = ti_topic_name ti, gs_type = ti_message_type ti, gs_topic_id = ti_topic_id ti\<rparr>
         else None)"

definition Subscriber_handle :: "u8 list \<Rightarrow> subscriber \<Rightarrow> ros_action list" where
  "Subscriber_handle serialized_msg sub = [Write_message serialized_msg (gs_topic_id sub)]"

section \<open>ServiceClient\<close>

record service_client =
  cl_name :: string
  cl_type :: string
  cl_topic_id :: u16
  cl_valid :: bool
  cl_service_md5 :: string
  cl_request_md5 :: string
  cl_response_md5 :: string

text \<open>
  The three look-ups are one \<open>try\<close> block: the first that fails leaves the ones after it at their
  default.
\<close>

definition service_md5s :: "ros_env \<Rightarrow> string \<Rightarrow> string \<times> string \<times> string" where
  "service_md5s R ty =
     (case lookup R ty [] of
        None \<Rightarrow> ([], [], [])
      | Some srvinfo \<Rightarrow>
          (case lookup R ty ''_Request'' of
             None \<Rightarrow> (mi_md5sum srvinfo, [], [])
           | Some reqinfo \<Rightarrow>
               (case lookup R ty ''_Response'' of
                  None \<Rightarrow> (mi_md5sum srvinfo, mi_md5sum reqinfo, [])
                | Some respinfo \<Rightarrow> (mi_md5sum srvinfo, mi_md5sum reqinfo, mi_md5sum respinfo))))"

definition new_ServiceClient :: "ros_env \<Rightarrow> topic_info \<Rightarrow> service_client option" where
  "new_ServiceClient R ti =
     (let cl = \<lparr>cl_name = ti_topic_name ti, cl_type = ti_message_type ti, cl_topic_id = -1, cl_valid = False,
                cl_service_md5 = [], cl_request_md5 = [], cl_response_md5 = []\<rparr>
      in if \<not> services_map R (cl_type cl) then Some cl
         else (let (s, rq, rs) = service_md5s R (ti_message_type ti);
                   cl1 = cl\<lparr>cl_valid := True, cl_service_md5 := s, cl_request_md5 := rq, cl_response_md5 := rs\<rparr>
               in if create_generic_client R ti then Some cl1 else None))"

definition cl_setTopicId :: "u16 \<Rightarrow> service_client \<Rightarrow> service_client" where
  "cl_setTopicId i cl = cl\<lparr>cl_topic_id := i\<rparr>"

text \<open>\<open>None\<close> is an exception of the converter; otherwise the actions.\<close>

definition ServiceClient_handle :: "ros_env \<Rightarrow> nat \<Rightarrow> SimpleCdr \<Rightarrow> service_client \<Rightarrow> ros_action list option" where
  "ServiceClient_handle R q stream cl =
     (if \<not> cl_valid cl then Some []
      else case send_request R q (cl_name cl) (sc_buffer stream) of
             Bad_request \<Rightarrow> None
           | Reply response \<Rightarrow> Some [Write_message response (cl_topic_id cl)]
           | Reply_timeout \<Rightarrow> Some [Remove_pending_request (cl_name cl)])"

section \<open>ServiceServer\<close>

record service_server =
  sv_response_buffer :: "u8 list"
  sv_buffer_len :: nat
  sv_service_md5 :: string
  sv_request_md5 :: string
  sv_response_md5 :: string
  sv_name :: string
  sv_type :: string
  sv_topic_id :: u16
  sv_capacity :: nat
  sv_get_response :: bool
  sv_timeout_no_response_ms :: int

text \<open>\<open>buffer_len_\<close> is not initialised by the constructor: its first value is an argument.\<close>

definition new_ServiceServer :: "ros_env \<Rightarrow> topic_info \<Rightarrow> nat \<Rightarrow> int \<Rightarrow> nat \<Rightarrow> service_server option" where
  "new_ServiceServer R ti capacity timeout junk =
     (let sv = \<lparr>sv_response_buffer = replicate capacity 0, sv_buffer_len = junk, sv_service_md5 = [],
                sv_request_md5 = [], sv_response_md5 = [], sv_name = ti_topic_name ti,
                sv_type = ti_message_type ti, sv_topic_id = -1, sv_capacity = capacity,
                sv_get_response = False, sv_timeout_no_response_ms = timeout\<rparr>
      in if \<not> services_map R (sv_type sv) then Some sv
         else (let (s, rq, rs) = service_md5s R (ti_message_type ti);
                   sv1 = sv\<lparr>sv_service_md5 := s, sv_request_md5 := rq, sv_response_md5 := rs\<rparr>
               in if start_server R ti then Some sv1 else None))"

definition sv_setTopicId :: "u16 \<Rightarrow> service_server \<Rightarrow> service_server" where
  "sv_setTopicId i sv = sv\<lparr>sv_topic_id := i\<rparr>"

definition response_handle :: "SimpleCdr \<Rightarrow> service_server \<Rightarrow> service_server" where
  "response_handle stream sv =
     (let len = unat (getLength stream)
      in if len > sv_capacity sv then sv\<lparr>sv_get_response := False\<rparr>
         else if len = 0 then sv\<lparr>sv_buffer_len := len, sv_get_response := False\<rparr>
         else sv\<lparr>sv_buffer_len := len,
                 sv_response_buffer := take len (sc_buffer stream) @ drop len (sv_response_buffer sv),
                 sv_get_response := True\<rparr>)"

text \<open>
  \<open>service_callback\<close> runs on an executor thread of ROS and polls for the answer once a millisecond
  while the session's thread runs \<open>response_handle\<close>. What the session does during the \<open>i\<close>-th sleep is
  the argument \<open>other\<close>.
\<close>

function wait_response ::
  "(nat \<Rightarrow> service_server \<Rightarrow> service_server) \<Rightarrow> nat \<Rightarrow> int \<Rightarrow> service_server \<Rightarrow> bool \<times> service_server" where
  "wait_response other cnt_ms timeout sv =
     (if sv_get_response sv then (True, sv)
      else (let sv1 = other cnt_ms sv
            in if int cnt_ms > timeout then (False, sv1) else wait_response other (cnt_ms + 1) timeout sv1))"
  by pat_completeness auto

termination wait_response
  by (relation "measure (\<lambda>(other, cnt, timeout, sv). nat (timeout + 1 - int cnt))") auto

definition service_callback ::
  "(nat \<Rightarrow> service_server \<Rightarrow> service_server) \<Rightarrow> u8 list \<Rightarrow> service_server \<Rightarrow>
   ros_action list \<times> u8 list option \<times> service_server" where
  "service_callback other serialized_request sv =
     (let sv1 = sv\<lparr>sv_get_response := False\<rparr>;
          sent = [Write_message serialized_request (sv_topic_id sv1)];
          (got, sv2) = wait_response other 0 (sv_timeout_no_response_ms sv1) sv1
      in if \<not> got then (sent, None, sv2)
         else if sv_buffer_len sv2 > sv_capacity sv2 then (sent, None, sv2)
         else (sent, Some (take (sv_buffer_len sv2) (sv_response_buffer sv2)), sv2))"

section \<open>Answering a service call\<close>

declare wait_response.simps [simp del]

definition sv_ok :: "service_server \<Rightarrow> bool" where
  "sv_ok sv \<longleftrightarrow> length (sv_response_buffer sv) = sv_capacity sv"

lemma new_ServiceServer_ok: "new_ServiceServer R ti capacity timeout junk = Some sv \<Longrightarrow> sv_ok sv"
  by (auto simp: new_ServiceServer_def sv_ok_def Let_def split: if_splits prod.splits)

lemma response_handle_accepts:
  assumes "0 < length bs" "length bs \<le> sv_capacity sv" "length bs < 2 ^ 32"
  shows "response_handle (new_SimpleCdr bs) sv =
    sv\<lparr>sv_buffer_len := length bs, sv_response_buffer := bs @ drop (length bs) (sv_response_buffer sv),
       sv_get_response := True\<rparr>"
  using assms by (auto simp: response_handle_def getLength_def new_SimpleCdr_def unat_of_nat_less Let_def)

lemma response_handle_ok: "sv_ok sv \<Longrightarrow> sv_ok (response_handle (new_SimpleCdr bs) sv)"
  using unat_of_nat [of "length bs", where ?'a = 32]
  by (auto simp: response_handle_def sv_ok_def Let_def getLength_def new_SimpleCdr_def min_def)

lemma wait_response_skip:
  assumes "\<And>i. cnt \<le> i \<Longrightarrow> i < cnt + j \<Longrightarrow> other i sv = sv" "\<not> sv_get_response sv" "int (cnt + j) \<le> timeout + 1"
  shows "wait_response other cnt timeout sv = wait_response other (cnt + j) timeout sv"
  using assms
proof (induction j arbitrary: cnt)
  case (Suc j)
  have "wait_response other cnt timeout sv = wait_response other (cnt + 1) timeout sv"
    using Suc.prems by (subst wait_response.simps) (simp add: Let_def)
  also have "\<dots> = wait_response other (cnt + 1 + j) timeout sv"
    using Suc.prems by (intro Suc.IH) simp_all
  finally show ?case by simp
qed simp

lemma wait_response_none:
  assumes "\<And>i sv. \<not> sv_get_response sv \<Longrightarrow> \<not> sv_get_response (other i sv)" "\<not> sv_get_response sv"
  shows "\<not> fst (wait_response other cnt timeout sv)"
  using assms
proof (induction other cnt timeout sv rule: wait_response.induct)
  case (1 other cnt timeout sv)
  then show ?case by (subst wait_response.simps) (simp add: Let_def)
qed

text \<open>
  C23: A service call is answered with exactly the bytes the device sent back: the request goes out on
  the topic of the service, and when the session handles a non-empty answer that fits the response
  buffer at a poll not later than the timeout, \<open>service_callback\<close> succeeds with that answer.
\<close>

theorem service_call_answered:
  assumes "\<forall>i<j. \<forall>v. other i v = v" "other j = response_handle (new_SimpleCdr answer)"
    and "int j \<le> sv_timeout_no_response_ms sv" "0 < length answer" "length answer \<le> sv_capacity sv"
    and "length answer < 2 ^ 32"
  shows "\<exists>sv'. service_callback other request sv = ([Write_message request (sv_topic_id sv)], Some answer, sv') \<and>
    sv_get_response sv'"
proof -
  let ?sv = "sv\<lparr>sv_get_response := False\<rparr>"
  let ?sv' = "response_handle (new_SimpleCdr answer) ?sv"
  have "wait_response other 0 (sv_timeout_no_response_ms sv) ?sv =
      wait_response other (0 + j) (sv_timeout_no_response_ms sv) ?sv"
    using assms(1,3) by (intro wait_response_skip) auto
  also have "\<dots> = (True, ?sv')"
    using assms(2-6)
    by (subst wait_response.simps, subst wait_response.simps) (simp add: Let_def response_handle_accepts)
  finally show ?thesis
    using assms(4-6) by (simp add: service_callback_def Let_def response_handle_accepts)
qed

definition sample_server :: service_server where
  "sample_server = \<lparr>sv_response_buffer = replicate 4 0, sv_buffer_len = 9, sv_service_md5 = [], sv_request_md5 = [],
     sv_response_md5 = [], sv_name = ''add'', sv_type = ''srv'', sv_topic_id = 101, sv_capacity = 4,
     sv_get_response = True, sv_timeout_no_response_ms = 2\<rparr>"

theorem service_call_answered_witness:
  "\<exists>sv'. service_callback (\<lambda>i. if i = 1 then response_handle (new_SimpleCdr [7, 8]) else (\<lambda>v. v)) [1] sample_server =
    ([Write_message [1] 101], Some [7, 8], sv') \<and> sv_get_response sv'"
  using service_call_answered
    [of 1 "\<lambda>i. if i = 1 then response_handle (new_SimpleCdr [7, 8]) else (\<lambda>v. v)" "[7, 8]" sample_server "[1]"]
  by (simp add: sample_server_def)



end
