(* ===== verification/Session.thy ===== *)
theory Session
  imports Async_Read_Buffer Topic_Handlers "HOL-Library.AList"
begin

text \<open>
  The server's session with one device, \<open>rosserial_server/session.h\<close>. \<open>session_core\<close> holds the members
  that the message handlers work on; \<open>session\<close> adds the receive buffer, the callbacks posted to the
  \<open>io_service\<close> and the hardware read in flight. Asynchronous writes are started in the order of
  \<open>sc_out\<close>, and \<open>sc_ros\<close> lists what was asked of ROS, oldest first.
\<close>

section \<open>State\<close>

definition TopicInfo_ID_PUBLISHER :: u16 where "TopicInfo_ID_PUBLISHER = 0"
definition TopicInfo_ID_SUBSCRIBER :: u16 where "TopicInfo_ID_SUBSCRIBER = 1"
definition TopicInfo_ID_SERVICE_SERVER :: u16 where "TopicInfo_ID_SERVICE_SERVER = 2"
definition TopicInfo_ID_SERVICE_CLIENT :: u16 where "TopicInfo_ID_SERVICE_CLIENT = 4"
definition TopicInfo_ID_LOG :: u16 where "TopicInfo_ID_LOG = 7"
definition TopicInfo_ID_TIME :: u16 where "TopicInfo_ID_TIME = 10"
definition TopicInfo_ID_TX_STOP :: u16 where "TopicInfo_ID_TX_STOP = 11"

lemmas topic_ids = TopicInfo_ID_PUBLISHER_def TopicInfo_ID_SUBSCRIBER_def TopicInfo_ID_SERVICE_SERVER_def TopicInfo_ID_SERVICE_CLIENT_def
  TopicInfo_ID_LOG_def TopicInfo_ID_TIME_def TopicInfo_ID_TX_STOP_def

definition buffer_max :: nat where "buffer_max = 8192 - 1"
definition timeout_interval :: nat where "timeout_interval = 5000"
definition attempt_interval :: nat where "attempt_interval = 1500"
definition require_check_interval :: nat where "require_check_interval = 1500"

datatype callback =
    Setup_publisher
  | Setup_subscriber
  | Handle_log
  | Handle_time
  | Setup_service_client_publisher
  | Setup_service_client_subscriber
  | Setup_service_server_publisher
  | Setup_service_server_subscriber
  | Publisher_callback publisher
  | Service_client_callback string
  | Service_server_callback string

record session_core =
  sc_active :: bool
  sc_open :: bool
  sc_io_stopped :: bool
  sc_sync_timer :: "nat option"
  sc_require_timer :: "nat option"
  sc_services_timeout :: int
  sc_retry_threshold :: int
  sc_unrecognised_topics :: int
  sc_callbacks :: "(u16 \<times> callback) list"
  sc_publishers :: "(u16 \<times> publisher) list"
  sc_subscribers :: "(u16 \<times> subscriber) list"
  sc_service_clients :: "(string \<times> service_client) list"
  sc_service_servers :: "(string \<times> service_server) list"
  sc_topics_names :: "(u16 \<times> string) list"
  sc_out :: "u8 list list"
  sc_ros :: "ros_action list"
  sc_queries :: nat

text \<open>How a handler ends: normally, with an exception, or in a loop that never ends.\<close>

datatype outcome = Done | Threw | Hung

section \<open>Sending, stopping and the sync watchdog\<close>

definition session_write :: "u8 list \<Rightarrow> u16 \<Rightarrow> session_core \<Rightarrow> session_core \<times> outcome" where
  "session_write message topic_id c =
     (case write_message message topic_id of
        Inr buffer \<Rightarrow> (c\<lparr>sc_out := sc_out c @ [buffer]\<rparr>, Done)
      | Inl Out_of_range \<Rightarrow> (c, Threw)
      | Inl Endless_loop \<Rightarrow> (c, Hung))"

definition session_stop :: "session_core \<Rightarrow> session_core" where
  "session_stop c =
     (if sc_active c
      then (let c1 = c\<lparr>sc_active := False, sc_sync_timer := None, sc_require_timer := None, sc_callbacks := [],
                       sc_topics_names := [], sc_subscribers := [], sc_publishers := [],
                       sc_service_clients := [], sc_service_servers := []\<rparr>;
                c2 = fst (session_write [0] TopicInfo_ID_TX_STOP c1)
            in c2\<lparr>sc_open := False\<rparr>)
      else c)"

definition session_shutdown :: "session_core \<Rightarrow> session_core" where
  "session_shutdown c = (if sc_active c then session_stop c else c)\<lparr>sc_io_stopped := True\<rparr>"

definition set_sync_timeout :: "ros_env \<Rightarrow> nat \<Rightarrow> session_core \<Rightarrow> session_core" where
  "set_sync_timeout R interval c =
     (let ok = ros_ok R (sc_queries c); c1 = c\<lparr>sc_queries := sc_queries c + 1\<rparr>
      in if ok then c1\<lparr>sc_sync_timer := Some interval\<rparr> else session_shutdown c1)"

definition sync_timeout :: "errc option \<Rightarrow> session_core \<Rightarrow> session_core" where
  "sync_timeout error c = (if error \<noteq> Some Operation_aborted then session_stop c else c)"

definition write_completion_cb :: "errc option \<Rightarrow> session_core \<Rightarrow> session_core" where
  "write_completion_cb error c = (if error \<noteq> None then session_stop c else c)"

definition request_topics :: "session_core \<Rightarrow> session_core" where
  "request_topics c =
     (let c1 = fst (session_write [] TopicInfo_ID_PUBLISHER c)
      in c1\<lparr>sc_require_timer := Some require_check_interval\<rparr>)"

definition attempt_sync :: "ros_env \<Rightarrow> session_core \<Rightarrow> session_core" where
  "attempt_sync R c = set_sync_timeout R attempt_interval (request_topics c)"

section \<open>Handlers of received messages\<close>

fun run_actions :: "ros_action list \<Rightarrow> session_core \<Rightarrow> session_core \<times> outcome" where
  "run_actions [] c = (c, Done)"
| "run_actions (Write_message bs i # as) c =
     (case session_write bs i c of (c1, Done) \<Rightarrow> run_actions as c1 | (c1, r) \<Rightarrow> (c1, r))"
| "run_actions (a # as) c = run_actions as (c\<lparr>sc_ros := sc_ros c @ [a]\<rparr>)"

definition setup_publisher :: "ros_env \<Rightarrow> SimpleCdr \<Rightarrow> session_core \<Rightarrow> session_core \<times> outcome" where
  "setup_publisher R stream c =
     (case deserialize_topic_info R (sc_buffer stream) of
        None \<Rightarrow> (c, Done)
      | Some ti \<Rightarrow>
          (case new_Publisher R ti of
             None \<Rightarrow> (c, Done)
           | Some pub \<Rightarrow>
               (set_sync_timeout R timeout_interval
                  (c\<lparr>sc_callbacks := AList.update (ti_topic_id ti) (Publisher_callback pub) (sc_callbacks c),
                     sc_publishers := AList.update (ti_topic_id ti) pub (sc_publishers c),
                     sc_topics_names := AList.update (ti_topic_id ti) (ti_topic_name ti) (sc_topics_names c)\<rparr>),
                Done)))"

definition setup_subscriber :: "ros_env \<Rightarrow> SimpleCdr \<Rightarrow> session_core \<Rightarrow> session_core \<times> outcome" where
  "setup_subscriber R stream c =
     (case deserialize_topic_info R (sc_buffer stream) of
        None \<Rightarrow> (c, Threw)
      | Some ti \<Rightarrow>
          (let c1 = (case new_Subscriber R ti of
                       None \<Rightarrow> c
                     | Some sub \<Rightarrow> c\<lparr>sc_subscribers := AList.update (ti_topic_id ti) sub (sc_subscribers c)\<rparr>)
           in (set_sync_timeout R timeout_interval c1, Done)))"

definition ensure_service_client :: "ros_env \<Rightarrow> topic_info \<Rightarrow> session_core \<Rightarrow> session_core option" where
  "ensure_service_client R ti c =
     (if map_of (sc_service_clients c) (ti_topic_name ti) = None
      then (case new_ServiceClient R ti of
              None \<Rightarrow> None
            | Some srv \<Rightarrow>
                Some (c\<lparr>sc_service_clients := AList.update (ti_topic_name ti) srv (sc_service_clients c),
                        sc_callbacks := AList.update (ti_topic_id ti) (Service_client_callback (ti_topic_name ti))
                          (sc_callbacks c),
                        sc_topics_names := AList.update (ti_topic_id ti) (ti_topic_name ti) (sc_topics_names c)\<rparr>))
      else Some c)"

definition setup_service_client_publisher :: "ros_env \<Rightarrow> SimpleCdr \<Rightarrow> session_core \<Rightarrow> session_core \<times> outcome" where
  "setup_service_client_publisher R stream c =
     (case deserialize_topic_info R (sc_buffer stream) of
        None \<Rightarrow> (c, Threw)
      | Some ti \<Rightarrow>
          (case ensure_service_client R ti c of
             None \<Rightarrow> (c, Threw)
           | Some c1 \<Rightarrow> (set_sync_timeout R timeout_interval c1, Done)))"

definition setup_service_client_subscriber :: "ros_env \<Rightarrow> SimpleCdr \<Rightarrow> session_core \<Rightarrow> session_core \<times> outcome" where
  "setup_service_client_subscriber R stream c =
     (case deserialize_topic_info R (sc_buffer stream) of
        None \<Rightarrow> (c, Threw)
      | Some ti \<Rightarrow>
          (case ensure_service_client R ti c of
             None \<Rightarrow> (c, Threw)
           | Some c1 \<Rightarrow>
               (let c2 = c1\<lparr>sc_service_clients :=
                              AList.map_entry (ti_topic_name ti) (cl_setTopicId (ti_topic_id ti)) (sc_service_clients c1)\<rparr>
                in (set_sync_timeout R timeout_interval c2, Done))))"

definition ensure_service_server :: "ros_env \<Rightarrow> topic_info \<Rightarrow> session_core \<Rightarrow> session_core option" where
  "ensure_service_server R ti c =
     (if map_of (sc_service_servers c) (ti_topic_name ti) = None
      then (case new_ServiceServer R ti buffer_max (sc_services_timeout c) (uninitialised R (sc_queries c)) of
              None \<Rightarrow> None
            | Some srv \<Rightarrow>
                Some (c\<lparr>sc_queries := sc_queries c + 1,
                        sc_service_servers := AList.update (ti_topic_name ti) srv (sc_service_servers c),
                        sc_callbacks := AList.update (ti_topic_id ti) (Service_server_callback (ti_topic_name ti))
                          (sc_callbacks c),
                        sc_topics_names := AList.update (ti_topic_id ti) (ti_topic_name ti) (sc_topics_names c)\<rparr>))
      else Some c)"

definition setup_service_server_publisher :: "ros_env \<Rightarrow> SimpleCdr \<Rightarrow> session_core \<Rightarrow> session_core \<times> outcome" where
  "setup_service_server_publisher R stream c =
     (case deserialize_topic_info R (sc_buffer stream) of
        None \<Rightarrow> (c, Threw)
      | Some ti \<Rightarrow>
          (case ensure_service_server R ti c of
             None \<Rightarrow> (c, Threw)
           | Some c1 \<Rightarrow> (set_sync_timeout R timeout_interval c1, Done)))"

definition setup_service_server_subscriber :: "ros_env \<Rightarrow> SimpleCdr \<Rightarrow> session_core \<Rightarrow> session_core \<times> outcome" where
  "setup_service_server_subscriber R stream c =
     (case deserialize_topic_info R (sc_buffer stream) of
        None \<Rightarrow> (c, Threw)
      | Some ti \<Rightarrow>
          (case ensure_service_server R ti c of
             None \<Rightarrow> (c, Threw)
           | Some c1 \<Rightarrow>
               (let c2 = c1\<lparr>sc_service_servers :=
                              AList.map_entry (ti_topic_name ti) (sv_setTopicId (ti_topic_id ti)) (sc_service_servers c1)\<rparr>
                in (set_sync_timeout R timeout_interval c2, Done))))"

definition handle_log :: "ros_env \<Rightarrow> SimpleCdr \<Rightarrow> session_core \<Rightarrow> session_core \<times> outcome" where
  "handle_log R stream c =
     (case deserialize_log R (sc_buffer stream) of
        None \<Rightarrow> (c, Threw)
      | Some (level, msg) \<Rightarrow> run_actions (if level \<le> 4 then [Ros_log level msg] else []) c)"

definition handle_time :: "ros_env \<Rightarrow> SimpleCdr \<Rightarrow> session_core \<Rightarrow> session_core \<times> outcome" where
  "handle_time R stream c =
     (let message = clock_now R (sc_queries c); c1 = c\<lparr>sc_queries := sc_queries c + 1\<rparr>
      in case session_write message TopicInfo_ID_TIME c1 of
           (c2, Done) \<Rightarrow> (set_sync_timeout R timeout_interval c2, Done)
         | (c2, r) \<Rightarrow> (c2, r))"

definition service_client_callback :: "ros_env \<Rightarrow> string \<Rightarrow> SimpleCdr \<Rightarrow> session_core \<Rightarrow> session_core \<times> outcome" where
  "service_client_callback R name stream c =
     (case map_of (sc_service_clients c) name of
        None \<Rightarrow> (c, Done)
      | Some srv \<Rightarrow>
          (let c1 = c\<lparr>sc_queries := sc_queries c + 1\<rparr>
           in case ServiceClient_handle R (sc_queries c) stream srv of
                None \<Rightarrow> (c1, Threw)
              | Some as \<Rightarrow> run_actions as c1))"

definition run_callback :: "ros_env \<Rightarrow> callback \<Rightarrow> SimpleCdr \<Rightarrow> session_core \<Rightarrow> session_core \<times> outcome" where
  "run_callback R cb stream c =
     (case cb of
        Setup_publisher \<Rightarrow> setup_publisher R stream c
      | Setup_subscriber \<Rightarrow> setup_subscriber R stream c
      | Handle_log \<Rightarrow> handle_log R stream c
      | Handle_time \<Rightarrow> handle_time R stream c
      | Setup_service_client_publisher \<Rightarrow> setup_service_client_publisher R stream c
      | Setup_service_client_subscriber \<Rightarrow> setup_service_client_subscriber R stream c
      | Setup_service_server_publisher \<Rightarrow> setup_service_server_publisher R stream c
      | Setup_service_server_subscriber \<Rightarrow> setup_service_server_subscriber R stream c
      | Publisher_callback pub \<Rightarrow> run_actions (Publisher_handle stream pub) c
      | Service_client_callback name \<Rightarrow> service_client_callback R name stream c
      | Service_server_callback name \<Rightarrow>
          (c\<lparr>sc_service_servers := AList.map_entry name (response_handle stream) (sc_service_servers c)\<rparr>, Done))"

section \<open>Receiving messages\<close>

datatype continuation = Read_sync_first | Read_sync_second | Read_id_length | Read_body u16

record session =
  ses_core :: session_core
  ses_arb :: "continuation async_read_buffer"
  ses_posted :: "(continuation \<times> u8 list) list"
  ses_transfer :: "(nat \<times> nat) option"

lemma arb_read_no_space:
  "arb_read n (Some k) b = (b', Error_callback e) \<Longrightarrow>
   if e = No_buffer_space then read_requested_bytes b = 0 \<and> read_requested_bytes b' \<noteq> 0
   else e = Operation_not_permitted"
  by (auto simp: arb_read_def Let_def callSuccessCallback_def split: if_splits option.splits)

text \<open>
  A call of \<open>async_read_buffer_.read\<close> from the session, with what the buffer does in return. The buffer
  calls \<open>read_failed\<close> from inside \<open>read\<close>, and \<open>read_failed\<close> may call \<open>read\<close> again.
\<close>

function session_read :: "nat \<Rightarrow> continuation \<Rightarrow> session \<Rightarrow> session"
  and read_failed :: "errc \<Rightarrow> session \<Rightarrow> session" where
  "session_read n k s =
     (let (b, ev) = arb_read n (Some k) (ses_arb s); s1 = s\<lparr>ses_arb := b\<rparr>
      in case ev of
           Error_callback e \<Rightarrow> read_failed e s1
         | Async_read least most \<Rightarrow> s1\<lparr>ses_transfer := Some (least, most)\<rparr>
         | Post k' bs \<Rightarrow> s1\<lparr>ses_posted := ses_posted s1 @ [(k', bs)]\<rparr>
         | Quiet \<Rightarrow> s1)"
| "read_failed e s =
     (if e = No_buffer_space then session_read 1 Read_sync_first s
      else s\<lparr>ses_core := session_stop (ses_core s)\<rparr>)"
  by pat_completeness auto

termination session_read
proof (relation "measure (\<lambda>x. case x of
      Inl (n, k, s) \<Rightarrow> if read_requested_bytes (ses_arb s) = 0 then 4 else 1
    | Inr (e, s) \<Rightarrow> if e \<noteq> No_buffer_space then 0 else if read_requested_bytes (ses_arb s) = 0 then 5 else 2)")
  fix n k s x b ev s1 e
  assume "x = arb_read n (Some k) (ses_arb s)" "(b, ev) = x" "s1 = s\<lparr>ses_arb := b\<rparr>" "ev = Error_callback e"
  then have "arb_read n (Some k) (ses_arb s) = (b, Error_callback e)" "ses_arb s1 = b" by simp_all
  then show "(Inr (e, s1), Inl (n, k, s)) \<in> measure (\<lambda>x. case x of
      Inl (n, k, s) \<Rightarrow> if read_requested_bytes (ses_arb s) = 0 then 4 else 1
    | Inr (e, s) \<Rightarrow> if e \<noteq> No_buffer_space then 0 else if read_requested_bytes (ses_arb s) = 0 then 5 else 2)"
    using arb_read_no_space [of n k "ses_arb s" b e] by (auto split: if_splits)
qed auto

declare session_read.simps [simp del] read_failed.simps [simp del]

definition read_sync_header :: "session \<Rightarrow> session" where
  "read_sync_header s = session_read 1 Read_sync_first s"

text \<open>
  The continuations. \<open>None\<close> is a read outside the stream or a checksum or a handler that does not
  return; the theorems below show when it cannot happen.
\<close>

definition read_sync_first :: "SimpleCdr \<Rightarrow> session \<Rightarrow> session option" where
  "read_sync_first stream s =
     do { (sync, _) \<leftarrow> get_u8 stream;
          Some (if sync = 0xff then session_read 1 Read_sync_second s else read_sync_header s) }"

definition read_sync_second :: "SimpleCdr \<Rightarrow> session \<Rightarrow> session option" where
  "read_sync_second stream s =
     do { (sync, _) \<leftarrow> get_u8 stream;
          Some (if sync = 0xfe then session_read 5 Read_id_length s else read_sync_header s) }"

definition read_id_length :: "SimpleCdr \<Rightarrow> session \<Rightarrow> session option" where
  "read_id_length stream s =
     do { (len, st1) \<leftarrow> get_u16 stream;
          (length_checksum, st2) \<leftarrow> get_u8 st1;
          if unat length_checksum + unat (checksum_u16 len) \<noteq> 0xff then Some (read_sync_header s)
          else do { (topic_id, st3) \<leftarrow> get_u16 st2;
                    Some (session_read (unat len + 1) (Read_body topic_id) s) } }"

text \<open>\<open>topics_names_[topic_id]\<close> inserts an empty name when there is none.\<close>

definition name_of_topic :: "u16 \<Rightarrow> session_core \<Rightarrow> session_core" where
  "name_of_topic topic_id c =
     (if map_of (sc_topics_names c) topic_id = None
      then c\<lparr>sc_topics_names := AList.update topic_id [] (sc_topics_names c)\<rparr> else c)"

definition unrecognised_topic :: "ros_env \<Rightarrow> u16 \<Rightarrow> session_core \<Rightarrow> session_core" where
  "unrecognised_topic R topic_id c =
     (let c1 = (if length (sc_topics_names c) > unat topic_id then name_of_topic topic_id c else c)
      in if sc_retry_threshold c1 > 0
         then (let c2 = c1\<lparr>sc_unrecognised_topics := sc_unrecognised_topics c1 + 1\<rparr>
               in if sc_unrecognised_topics c2 \<ge> sc_retry_threshold c2
                  then (attempt_sync R c2)\<lparr>sc_unrecognised_topics := 0\<rparr> else c2)
         else c1)"

definition body_effect :: "ros_env \<Rightarrow> SimpleCdr \<Rightarrow> u16 \<Rightarrow> session_core \<Rightarrow> session_core option" where
  "body_effect R stream topic_id c =
     do { sm \<leftarrow> checksum_buffer (sc_buffer stream);
          if sm + checksum_u16 topic_id \<noteq> 0xff then Some (name_of_topic topic_id c)
          else (case map_of (sc_callbacks c) topic_id of
                  Some cb \<Rightarrow>
                    (let msg_stream = new_SimpleCdr (take (length (sc_buffer stream) - 1) (sc_buffer stream))
                     in case run_callback R cb msg_stream c of
                          (c1, Hung) \<Rightarrow> None
                        | (c1, _) \<Rightarrow> Some c1)
                | None \<Rightarrow> Some (unrecognised_topic R topic_id c)) }"

definition read_body :: "ros_env \<Rightarrow> SimpleCdr \<Rightarrow> u16 \<Rightarrow> session \<Rightarrow> session option" where
  "read_body R stream topic_id s =
     (if \<not> sc_active (ses_core s) then Some s
      else do { c \<leftarrow> body_effect R stream topic_id (ses_core s);
                Some (read_sync_header (s\<lparr>ses_core := c\<rparr>)) })"

section \<open>The session and its event loop\<close>

definition new_Session :: "int \<Rightarrow> int \<Rightarrow> session" where
  "new_Session threshold services_timeout =
     \<lparr>ses_core =
        \<lparr>sc_active = False, sc_open = True, sc_io_stopped = False, sc_sync_timer = None, sc_require_timer = None,
         sc_services_timeout = services_timeout, sc_retry_threshold = threshold, sc_unrecognised_topics = 0,
         sc_callbacks = [], sc_publishers = [], sc_subscribers = [], sc_service_clients = [],
         sc_service_servers = [], sc_topics_names = [], sc_out = [], sc_ros = [], sc_queries = 0\<rparr>,
      ses_arb = new_AsyncReadBuffer buffer_max, ses_posted = [], ses_transfer = None\<rparr>"

definition start_callbacks :: "(u16 \<times> callback) list \<Rightarrow> (u16 \<times> callback) list" where
  "start_callbacks cbs =
     fold (\<lambda>(i, cb). AList.update i cb)
       [(TopicInfo_ID_PUBLISHER, Setup_publisher),
        (TopicInfo_ID_SUBSCRIBER, Setup_subscriber),
        (TopicInfo_ID_LOG, Handle_log),
        (TopicInfo_ID_TIME, Handle_time),
        (TopicInfo_ID_SERVICE_CLIENT + TopicInfo_ID_PUBLISHER, Setup_service_client_publisher),
        (TopicInfo_ID_SERVICE_CLIENT + TopicInfo_ID_SUBSCRIBER, Setup_service_client_subscriber),
        (TopicInfo_ID_SERVICE_SERVER + TopicInfo_ID_PUBLISHER, Setup_service_server_publisher),
        (TopicInfo_ID_SERVICE_SERVER + TopicInfo_ID_SUBSCRIBER, Setup_service_server_subscriber)] cbs"

definition start_core :: "ros_env \<Rightarrow> session_core \<Rightarrow> session_core" where
  "start_core R c = attempt_sync R (c\<lparr>sc_callbacks := start_callbacks (sc_callbacks c), sc_active := True\<rparr>)"

definition session_start :: "ros_env \<Rightarrow> session \<Rightarrow> session" where
  "session_start R s = read_sync_header (s\<lparr>ses_core := start_core R (ses_core s)\<rparr>)"

definition run_continuation :: "ros_env \<Rightarrow> continuation \<Rightarrow> SimpleCdr \<Rightarrow> session \<Rightarrow> session option" where
  "run_continuation R k stream s =
     (case k of
        Read_sync_first \<Rightarrow> read_sync_first stream s
      | Read_sync_second \<Rightarrow> read_sync_second stream s
      | Read_id_length \<Rightarrow> read_id_length stream s
      | Read_body topic_id \<Rightarrow> read_body R stream topic_id s)"

text \<open>
  The \<open>io_service\<close> runs posted callbacks one after the other; \<open>drain\<close> runs them until none is left, at
  most \<open>fuel\<close> of them (\<open>None\<close> when that is not enough). A transfer completes with at least as many bytes
  as were asked for and at most as many as fit, which is what \<open>async_read\<close> with \<open>transfer_at_least\<close>
  documents.
\<close>

fun drain :: "ros_env \<Rightarrow> nat \<Rightarrow> session \<Rightarrow> session option" where
  "drain R fuel s =
     (case ses_posted s of
        [] \<Rightarrow> Some s
      | (k, bs) # rest \<Rightarrow>
          (case fuel of
             0 \<Rightarrow> None
           | Suc fuel' \<Rightarrow>
               do { s1 \<leftarrow> run_continuation R k (new_SimpleCdr bs) (s\<lparr>ses_posted := rest\<rparr>);
                    drain R fuel' s1 }))"

declare drain.simps [simp del]

definition socket_receive :: "u8 list \<Rightarrow> session \<Rightarrow> session option" where
  "socket_receive data s =
     (case ses_transfer s of
        None \<Rightarrow> None
      | Some (least, most) \<Rightarrow>
          if least \<le> length data \<and> length data \<le> most
          then (case arb_transfer data (ses_arb s) of
                  (b, Post k bs) \<Rightarrow>
                    Some (s\<lparr>ses_arb := b, ses_transfer := None, ses_posted := ses_posted s @ [(k, bs)]\<rparr>)
                | (b, _) \<Rightarrow> Some (s\<lparr>ses_arb := b, ses_transfer := None\<rparr>))
          else None)"

definition socket_error :: "errc \<Rightarrow> session \<Rightarrow> session" where
  "socket_error e s =
     (case arb_callback (Some e) 0 (ses_arb s) of
        (b, Error_callback e') \<Rightarrow> read_failed e' (s\<lparr>ses_arb := b, ses_transfer := None\<rparr>)
      | (b, _) \<Rightarrow> s\<lparr>ses_arb := b, ses_transfer := None\<rparr>)"

fun session_run :: "ros_env \<Rightarrow> u8 list list \<Rightarrow> session \<Rightarrow> session option" where
  "session_run R [] s = Some s"
| "session_run R (data # chunks) s =
     do { s1 \<leftarrow> socket_receive data s; s2 \<leftarrow> drain R buffer_max s1; session_run R chunks s2 }"

end
