(* ===== verification/Session_Spec.thy ===== *)
theory Session_Spec
  imports Session
begin

text \<open>
  What a session does with the bytes it receives, said without buffers and transfers: an automaton
  that consumes a byte stream request by request (\<open>spec_run\<close>). The session with its receive buffer
  refines it, so the effect of a byte stream does not depend on how the line cuts it into pieces.
\<close>

section \<open>The specification\<close>

definition cont_effect ::
  "ros_env \<Rightarrow> continuation \<Rightarrow> u8 list \<Rightarrow> session_core \<Rightarrow> (session_core \<times> (nat \<times> continuation) option) option" where
  "cont_effect R k bs c =
     (case k of
        Read_sync_first \<Rightarrow> Some (c, Some (1, if hd bs = 0xff then Read_sync_second else Read_sync_first))
      | Read_sync_second \<Rightarrow> Some (c, Some (if hd bs = 0xfe then (5, Read_id_length) else (1, Read_sync_first)))
      | Read_id_length \<Rightarrow>
          Some (c, Some (if bs ! 2 \<noteq> checksum_of [bs ! 0, bs ! 1] then (1, Read_sync_first)
                         else (unat (bs ! 0) + unat (bs ! 1) * 256 + 1,
                               Read_body (of_nat (unat (bs ! 3) + unat (bs ! 4) * 256)))))
      | Read_body t \<Rightarrow>
          (if \<not> sc_active c then Some (c, None)
           else do { c1 \<leftarrow> body_effect R (new_SimpleCdr bs) t c; Some (c1, Some (1, Read_sync_first)) }))"

function spec_run ::
  "ros_env \<Rightarrow> session_core \<Rightarrow> nat \<Rightarrow> continuation \<Rightarrow> u8 list \<Rightarrow>
   (session_core \<times> (nat \<times> continuation) option \<times> u8 list) option" where
  "spec_run R c n k bs =
     (if n = 0 \<or> length bs < n then Some (c, Some (n, k), bs)
      else (case cont_effect R k (take n bs) c of
              None \<Rightarrow> None
            | Some (c1, None) \<Rightarrow> Some (c1, None, drop n bs)
            | Some (c1, Some (n1, k1)) \<Rightarrow>
                if n1 > buffer_max then Some (session_stop c1, None, drop n bs)
                else spec_run R c1 n1 k1 (drop n bs)))"
  by pat_completeness auto

termination spec_run
  by (relation "measure (\<lambda>(R, c, n, k, bs). length bs)") auto

declare spec_run.simps [simp del]

definition spec_then ::
  "ros_env \<Rightarrow> u8 list \<Rightarrow> session_core \<times> (nat \<times> continuation) option \<times> u8 list \<Rightarrow>
   (session_core \<times> (nat \<times> continuation) option \<times> u8 list) option" where
  "spec_then R bs st =
     (case st of
        (c, None, rest) \<Rightarrow> Some (c, None, rest @ bs)
      | (c, Some (n, k), rest) \<Rightarrow> spec_run R c n k (rest @ bs))"

lemma spec_run_wait: "n = 0 \<or> length bs < n \<Longrightarrow> spec_run R c n k bs = Some (c, Some (n, k), bs)"
  by (simp add: spec_run.simps [of R c n k bs])

lemma spec_run_step:
  "0 < n \<Longrightarrow> n \<le> length bs \<Longrightarrow> spec_run R c n k bs =
     (case cont_effect R k (take n bs) c of
        None \<Rightarrow> None
      | Some (c1, None) \<Rightarrow> Some (c1, None, drop n bs)
      | Some (c1, Some (n1, k1)) \<Rightarrow>
          if n1 > buffer_max then Some (session_stop c1, None, drop n bs) else spec_run R c1 n1 k1 (drop n bs))"
  by (subst spec_run.simps) simp

text \<open>The automaton is incremental: what has been consumed need not be looked at again.\<close>

lemma spec_run_append: "spec_run R c n k (bs @ cs) = Option.bind (spec_run R c n k bs) (spec_then R cs)"
proof (induction R c n k bs rule: spec_run.induct)
  case (1 R c n k bs)
  show ?case
  proof (cases "n = 0 \<or> length bs < n")
    case True
    then show ?thesis by (simp add: spec_run_wait spec_then_def)
  next
    case False
    then have n: "0 < n" "n \<le> length bs" by simp_all
    note IH = 1 [OF False]
    show ?thesis
    proof (cases "cont_effect R k (take n bs) c")
      case None
      then show ?thesis using n by (simp add: spec_run_step)
    next
      case (Some r)
      obtain c1 rq where r: "r = (c1, rq)" by (cases r)
      show ?thesis
        using n Some r IH [OF Some r [symmetric]]
        by (cases rq) (auto simp: spec_run_step spec_then_def split: prod.splits)
    qed
  qed
qed

section \<open>Continuations\<close>

definition request_ok :: "nat \<Rightarrow> continuation \<Rightarrow> bool" where
  "request_ok n k \<longleftrightarrow>
     (case k of Read_sync_first \<Rightarrow> n = 1 | Read_sync_second \<Rightarrow> n = 1 | Read_id_length \<Rightarrow> n = 5 | Read_body t \<Rightarrow> 0 < n)"

lemma request_ok_pos: "request_ok n k \<Longrightarrow> 0 < n"
  by (auto simp: request_ok_def split: continuation.splits)

lemma cont_effect_request_ok: "cont_effect R k bs c = Some (c1, Some (n1, k1)) \<Longrightarrow> request_ok n1 k1"
  by (auto simp: cont_effect_def request_ok_def bind_eq_Some_conv split: continuation.splits if_splits)

lemma length_checksum_ok:
  fixes lo hi ck :: u8
  assumes "w = (ucast lo OR push_bit 8 (ucast hi) :: u16)"
  shows "unat ck + unat (checksum_u16 w) = 255 \<longleftrightarrow> ck = checksum_of [lo, hi]"
    "unat w = unat lo + unat hi * 256"
    "w = of_nat (unat lo + unat hi * 256)"
proof -
  define n where "n = unat lo + unat hi * 256"
  have b: "unat lo < 256" "unat hi < 256"
    using unsigned_less [of lo, where ?'a = nat] unsigned_less [of hi, where ?'a = nat] by simp_all
  then have n: "n < 65536" by (simp add: n_def)
  have lh: "lo_byte n = lo" "hi_byte n = hi"
    using b by (simp_all add: word_unat_eq_iff unat_lo_byte unat_hi_byte n_def)
  have w: "w = of_nat n" using u16_from_bytes [OF n] by (simp add: assms lh)
  then show "w = of_nat (unat lo + unat hi * 256)" by (simp add: n_def)
  show "unat w = unat lo + unat hi * 256" unfolding w unat_of_nat_less [where ?'a = 16, simplified, OF n] by (simp add: n_def)
  have s: "checksum_u16 w = sum_list [lo, hi]" using checksum_u16_of_nat [OF n] by (simp add: w lh)
  define x where "x = sum_list [lo, hi]"
  have x: "unat x < 256" using unsigned_less [of x, where ?'a = nat] by simp
  have "unat (255 - x) = 255 - unat x"
    using x by (subst unat_sub) (simp_all add: word_le_nat_alt)
  then have "unat ck + unat x = 255 \<longleftrightarrow> ck = 255 - x"
    using x by (auto simp: word_unat_eq_iff)
  then show "unat ck + unat (checksum_u16 w) = 255 \<longleftrightarrow> ck = checksum_of [lo, hi]"
    unfolding s checksum_of_def x_def .
qed

definition continue_with :: "session_core \<times> (nat \<times> continuation) option \<Rightarrow> session \<Rightarrow> session" where
  "continue_with r s =
     (case r of
        (c, None) \<Rightarrow> s\<lparr>ses_core := c\<rparr>
      | (c, Some (n, k)) \<Rightarrow> session_read n k (s\<lparr>ses_core := c\<rparr>))"

lemma list5: "length bs = 5 \<Longrightarrow> \<exists>a b c d e. bs = [a, b, c, d, e]"
  by (auto simp: eval_nat_numeral length_Suc_conv)

lemma run_continuation_effect:
  assumes "request_ok (length bs) k"
  shows "run_continuation R k (new_SimpleCdr bs) s =
    Option.bind (cont_effect R k bs (ses_core s)) (\<lambda>r. Some (continue_with r s))"
proof (cases k)
  case Read_sync_first
  then obtain b where "bs = [b]" using assms by (auto simp: request_ok_def length_Suc_conv)
  then show ?thesis
    using Read_sync_first
    by (simp add: run_continuation_def read_sync_first_def cont_effect_def continue_with_def new_SimpleCdr_sc_at
        get_u8_at read_sync_header_def)
next
  case Read_sync_second
  then obtain b where "bs = [b]" using assms by (auto simp: request_ok_def length_Suc_conv)
  then show ?thesis
    using Read_sync_second
    by (simp add: run_continuation_def read_sync_second_def cont_effect_def continue_with_def new_SimpleCdr_sc_at
        get_u8_at read_sync_header_def)
next
  case Read_id_length
  then obtain l0 l1 ck t0 t1 where bs: "bs = [l0, l1, ck, t0, t1]"
    using assms list5 [of bs] by (auto simp: request_ok_def)
  note lw = length_checksum_ok(1) [OF refl, of ck l0 l1] length_checksum_ok(2) [OF refl, of l0 l1]
    length_checksum_ok(3) [OF refl, of t0 t1]
  have g: "get_u16 (sc_at [] bs) = Some (ucast l0 OR push_bit 8 (ucast l1), sc_at [l0, l1] [ck, t0, t1])"
      "get_u8 (sc_at [l0, l1] [ck, t0, t1]) = Some (ck, sc_at [l0, l1, ck] [t0, t1])"
      "\<And>x. get_u16 (sc_at [l0, l1, x] [t0, t1]) = Some (ucast t0 OR push_bit 8 (ucast t1), sc_at [l0, l1, x, t0, t1] [])"
    by (simp_all add: bs get_u16_at get_u8_at)
  show ?thesis
    unfolding Read_id_length run_continuation_def read_id_length_def cont_effect_def continue_with_def
      new_SimpleCdr_sc_at continuation.case
    by (simp add: g [unfolded bs] lw read_sync_header_def bs)
next
  case (Read_body t)
  show ?thesis
    unfolding Read_body run_continuation_def read_body_def cont_effect_def continuation.case
    by (cases "body_effect R (new_SimpleCdr bs) t (ses_core s)")
      (simp_all add: continue_with_def read_sync_header_def)
qed

section \<open>The session refines the specification\<close>

text \<open>
  A session at rest: nothing is posted, and either a request waits for a transfer or reading has ended.
\<close>

definition at_rest :: "session \<Rightarrow> session_core \<times> (nat \<times> continuation) option \<times> u8 list \<Rightarrow> bool" where
  "at_rest s st \<longleftrightarrow>
     (case st of (c, rq, bs) \<Rightarrow>
        ses_core s = c \<and> ses_posted s = [] \<and> length (arb_mem (ses_arb s)) = buffer_max \<and>
        content (ses_arb s) = bs \<and>
        (case rq of
           None \<Rightarrow> ses_transfer s = None
         | Some (n, k) \<Rightarrow>
             request_ok n k \<and> waiting n k (ses_arb s) \<and>
             ses_transfer s = Some (n - length bs, bytesHeadroom (ses_arb s))))"

text \<open>A session in which the bytes of one request have just been posted.\<close>

definition answered :: "session \<Rightarrow> session_core \<Rightarrow> nat \<Rightarrow> continuation \<Rightarrow> u8 list \<Rightarrow> bool" where
  "answered s c n k bs \<longleftrightarrow>
     ses_core s = c \<and> ses_posted s = [(k, take n bs)] \<and> length (arb_mem (ses_arb s)) = buffer_max \<and>
     idle (ses_arb s) \<and> content (ses_arb s) = drop n bs \<and> ses_transfer s = None \<and> request_ok n k \<and> n \<le> length bs"

definition quiescent :: "session \<Rightarrow> bool" where
  "quiescent s \<longleftrightarrow> ses_posted s = [] \<and> ses_transfer s = None \<and> idle (ses_arb s) \<and>
     length (arb_mem (ses_arb s)) = buffer_max"

lemma session_read_overrun:
  assumes q: "quiescent s" and n: "buffer_max < n"
  obtains b1 where
    "session_read n k s = s\<lparr>ses_arb := b1\<lparr>read_count := 1\<rparr>, ses_core := session_stop (ses_core s)\<rparr>"
    "read_requested_bytes b1 = n" "content b1 = content (ses_arb s)" "length (arb_mem b1) = buffer_max"
proof -
  obtain b1 where b1: "arb_read n (Some k) (ses_arb s) = (b1, Error_callback No_buffer_space)"
      "read_requested_bytes b1 = n" "content b1 = content (ses_arb s)" "read_count b1 = 0"
    using read_too_large [of "ses_arb s" n k] q n by (auto simp: quiescent_def)
  have m: "length (arb_mem b1) = buffer_max"
    using b1(1) q n by (auto simp: arb_read_def quiescent_def idle_def Let_def)
  have b2: "arb_read 1 (Some Read_sync_first) b1 = (b1\<lparr>read_count := 1\<rparr>, Error_callback Operation_not_permitted)"
    using b1(2,4) n by (simp add: arb_read_def)
  have "session_read n k s = s\<lparr>ses_arb := b1\<lparr>read_count := 1\<rparr>, ses_core := session_stop (ses_core s)\<rparr>"
    by (simp add: session_read.simps [of n k s] b1(1) read_failed.simps
        session_read.simps [of 1 Read_sync_first "s\<lparr>ses_arb := b1\<rparr>"]
        session_read.simps [of "Suc 0" Read_sync_first "s\<lparr>ses_arb := b1\<rparr>"] b2 b2 [simplified])
  then show thesis using that b1(2,3) m by blast
qed

lemma session_read_too_large:
  assumes q: "quiescent s" and n: "buffer_max < n"
  shows "at_rest (session_read n k s) (session_stop (ses_core s), None, content (ses_arb s))"
proof -
  obtain b1 where "session_read n k s = s\<lparr>ses_arb := b1\<lparr>read_count := 1\<rparr>, ses_core := session_stop (ses_core s)\<rparr>"
      "content b1 = content (ses_arb s)" "length (arb_mem b1) = buffer_max"
    using session_read_overrun [OF q n] by metis
  then show ?thesis using q by (simp add: at_rest_def quiescent_def content_def bytesAvailable_def)
qed

lemma session_read_waits:
  assumes q: "quiescent s" and n: "n \<le> buffer_max" "length (content (ses_arb s)) < n" "request_ok n k"
  shows "at_rest (session_read n k s) (ses_core s, Some (n, k), content (ses_arb s))"
proof -
  obtain b1 where "arb_read n (Some k) (ses_arb s) =
        (b1, Async_read (n - length (content (ses_arb s))) (bytesHeadroom b1))"
      "waiting n k b1" "content b1 = content (ses_arb s)" "length (arb_mem b1) = length (arb_mem (ses_arb s))"
    using arb.request_waits [of "ses_arb s" n k] q n by (auto simp: quiescent_def)
  then show ?thesis using q n(3) by (simp add: session_read.simps at_rest_def quiescent_def)
qed

lemma session_read_answered:
  assumes q: "quiescent s" and n: "n \<le> length (content (ses_arb s))" "request_ok n k"
  shows "answered (session_read n k s) (ses_core s) n k (content (ses_arb s))"
proof -
  obtain b1 where "arb_read n (Some k) (ses_arb s) = (b1, Post k (take n (content (ses_arb s))))"
      "idle b1" "content b1 = drop n (content (ses_arb s))" "length (arb_mem b1) = length (arb_mem (ses_arb s))"
    using arb.request_served [of "ses_arb s" n k] q n by (auto simp: quiescent_def)
  then show ?thesis using q n by (simp add: session_read.simps answered_def quiescent_def)
qed

lemma drain_at_rest: "ses_posted s = [] \<Longrightarrow> drain R fuel s = Some s"
  by (simp add: drain.simps)

lemma drain_refines:
  "answered s c n k bs \<Longrightarrow> length bs \<le> fuel \<Longrightarrow>
   rel_option at_rest (drain R fuel s) (spec_run R c n k bs)"
proof (induction R c n k bs arbitrary: s fuel rule: spec_run.induct)
  case (1 R c n k bs)
  note a = 1(2)
  have ok: "request_ok n k" "n \<le> length bs" and core: "ses_core s = c" using a by (simp_all add: answered_def)
  then have pos: "0 < n" by (simp add: request_ok_pos)
  then obtain f where f: "fuel = Suc f" using 1(3) ok by (cases fuel) simp_all
  let ?s = "s\<lparr>ses_posted := []\<rparr>"
  have rc: "run_continuation R k (new_SimpleCdr (take n bs)) ?s =
      Option.bind (cont_effect R k (take n bs) c) (\<lambda>r. Some (continue_with r ?s))"
    using run_continuation_effect [of "take n bs" k R ?s] ok core by (simp add: min.absorb2)
  have dr: "drain R fuel s = Option.bind (cont_effect R k (take n bs) c) (\<lambda>r. drain R f (continue_with r ?s))"
    using a unfolding f answered_def by (simp add: drain.simps [of R "Suc f" s] rc Option.bind_assoc)
  show ?case
  proof (cases "cont_effect R k (take n bs) c")
    case None
    then show ?thesis using dr pos ok by (simp add: spec_run_step)
  next
    case (Some r)
    obtain c1 rq where r: "r = (c1, rq)" by (cases r)
    have q: "quiescent (?s\<lparr>ses_core := c1\<rparr>)" and ct: "content (ses_arb s) = drop n bs"
      using a by (simp_all add: answered_def quiescent_def)
    show ?thesis
    proof (cases rq)
      case None
      then show ?thesis
        using dr pos ok Some r a
        by (simp add: spec_run_step continue_with_def drain_at_rest at_rest_def answered_def)
    next
      case (Some nk)
      obtain n1 k1 where nk: "nk = (n1, k1)" by (cases nk)
      let ?s1 = "session_read n1 k1 (?s\<lparr>ses_core := c1\<rparr>)"
      note ce = \<open>cont_effect R k (take n bs) c = Some r\<close> [unfolded r Some nk]
      have d1: "drain R fuel s = drain R f ?s1" by (simp add: dr ce continue_with_def)
      have ok1: "request_ok n1 k1" using ce by (rule cont_effect_request_ok)
      consider "buffer_max < n1" | "n1 \<le> buffer_max" "length bs - n < n1" | "n1 \<le> buffer_max" "n1 \<le> length bs - n"
        by linarith
      then show ?thesis
      proof cases
        case 1
        have "at_rest ?s1 (session_stop c1, None, drop n bs)"
          using session_read_too_large [OF q 1, of k1] by (simp add: ct)
        moreover from this have "ses_posted ?s1 = []" by (simp add: at_rest_def)
        ultimately show ?thesis using d1 1 pos ok ce by (simp add: spec_run_step drain_at_rest)
      next
        case 2
        have "at_rest ?s1 (c1, Some (n1, k1), drop n bs)"
          using session_read_waits [OF q 2(1) _ ok1] 2(2) by (simp add: ct)
        moreover from this have "ses_posted ?s1 = []" by (simp add: at_rest_def)
        ultimately show ?thesis using d1 2 pos ok ce by (simp add: spec_run_step drain_at_rest spec_run_wait)
      next
        case 3
        have "answered ?s1 c1 n1 k1 (drop n bs)"
          using session_read_answered [OF q _ ok1] 3(2) by (simp add: ct)
        then have "rel_option at_rest (drain R f ?s1) (spec_run R c1 n1 k1 (drop n bs))"
          using 1(1) [OF _ ce refl refl refl, of ?s1 f] 1(3) pos ok 3 f by simp
        then show ?thesis using d1 3 pos ok ce by (simp add: spec_run_step)
      qed
    qed
  qed
qed

lemma socket_receive_answered:
  assumes r: "at_rest s (c, Some (n, k), bs)" and s1: "socket_receive data s = Some s1"
  shows "answered s1 c n k (bs @ data)" "length (bs @ data) \<le> buffer_max"
proof -
  have w: "waiting n k (ses_arb s)" "content (ses_arb s) = bs"
      "ses_transfer s = Some (n - length bs, bytesHeadroom (ses_arb s))"
    using r by (auto simp: at_rest_def)
  then have d: "n - length (content (ses_arb s)) \<le> length data" "length data \<le> bytesHeadroom (ses_arb s)"
    using s1 by (auto simp: socket_receive_def split: if_splits)
  obtain b where b: "arb_transfer data (ses_arb s) = (b, Post k (take n (bs @ data)))" "idle b"
      "content b = drop n (bs @ data)" "length (arb_mem b) = length (arb_mem (ses_arb s))"
    using arb.provide_served [OF w(1) d] w(2) by auto
  have "length bs < n" using arb.pending_short [OF w(1)] w(2) by simp
  then show "answered s1 c n k (bs @ data)"
    using r s1 b w d by (auto simp: socket_receive_def at_rest_def answered_def)
  show "length (bs @ data) \<le> buffer_max"
    using arb.room_bound [OF w(1)] d w(2) r by (auto simp: at_rest_def)
qed

lemma socket_receive_total:
  assumes "ses_transfer s = Some (least, most)" "least \<le> length data" "length data \<le> most"
  shows "\<exists>s1. socket_receive data s = Some s1"
  using assms by (auto simp: socket_receive_def split: arb_event.splits prod.splits)

lemma chunk_refines:
  assumes r: "at_rest s (c, Some (n, k), bs)" and s1: "socket_receive data s = Some s1"
  shows "rel_option at_rest (drain R buffer_max s1) (spec_run R c n k (bs @ data))"
  using socket_receive_answered [OF r s1] by (rule drain_refines)

lemma run_refines:
  assumes "at_rest s st" "session_run R chunks s = Some s'"
  shows "\<exists>st'. spec_then R (concat chunks) st = Some st' \<and> at_rest s' st'"
  using assms
proof (induction chunks arbitrary: s st)
  case Nil
  obtain c rq bs where st: "st = (c, rq, bs)" by (cases st)
  have "spec_then R [] st = Some st"
  proof (cases rq)
    case (Some nk)
    obtain n k where nk: "nk = (n, k)" by (cases nk)
    have "length bs < n" using Nil(1) arb.pending_short by (auto simp: st Some nk at_rest_def)
    then show ?thesis by (simp add: st Some nk spec_then_def spec_run_wait)
  qed (simp add: st spec_then_def)
  then show ?case using Nil by simp
next
  case (Cons data chunks)
  obtain s1 s2 where s1: "socket_receive data s = Some s1" and s2: "drain R buffer_max s1 = Some s2"
      "session_run R chunks s2 = Some s'"
    using Cons.prems(2) by (auto simp: bind_eq_Some_conv)
  obtain c rq bs where st: "st = (c, rq, bs)" by (cases st)
  obtain n k where rq: "rq = Some (n, k)"
    using Cons.prems(1) s1 by (cases rq) (auto simp: st at_rest_def socket_receive_def)
  have "rel_option at_rest (Some s2) (spec_run R c n k (bs @ data))"
    using chunk_refines [of s c n k bs data s1 R] Cons.prems(1) s1 s2(1) by (simp add: st rq)
  then obtain st2 where st2: "spec_run R c n k (bs @ data) = Some st2" "at_rest s2 st2"
    by (auto simp: option_rel_Some1)
  obtain st' where "spec_then R (concat chunks) st2 = Some st'" "at_rest s' st'"
    using Cons.IH [OF st2(2) s2(2)] by blast
  then show ?case
    using st2(1) spec_run_append [of R c n k "bs @ data" "concat chunks"]
    by (auto simp: st rq spec_then_def [of R _ "(c, Some (n, k), bs)"])
qed

lemma new_Session_sel [simp]:
  "ses_posted (new_Session th t) = []" "ses_transfer (new_Session th t) = None"
  "ses_arb (new_Session th t) = new_AsyncReadBuffer buffer_max"
  by (simp_all add: new_Session_def)

lemma session_start_at_rest:
  "at_rest (session_start R (new_Session th t))
     (start_core R (ses_core (new_Session th t)), Some (1, Read_sync_first), [])"
proof -
  let ?s = "(new_Session th t)\<lparr>ses_core := start_core R (ses_core (new_Session th t))\<rparr>"
  have "quiescent ?s" by (simp add: quiescent_def new_idle)
  then show ?thesis
    using session_read_waits [of ?s 1 Read_sync_first]
    by (simp add: session_start_def read_sync_header_def new_idle request_ok_def buffer_max_def)
qed

lemma started_run_refines:
  assumes "session_run R chunks (session_start R (new_Session th t)) = Some s"
  obtains c rq rest where
    "spec_run R (start_core R (ses_core (new_Session th t))) 1 Read_sync_first (concat chunks) = Some (c, rq, rest)"
    "at_rest s (c, rq, rest)" "ses_core s = c"
  using run_refines [OF session_start_at_rest assms] by (auto simp: spec_then_def at_rest_def)

lemma chunk_total:
  assumes r: "at_rest s (c, Some (n, k), bs)" and st: "spec_run R c n k (bs @ data) = Some st"
    and d: "n \<le> length (bs @ data)" "length data \<le> bytesHeadroom (ses_arb s)"
  obtains s' where "session_run R [data] s = Some s'" "at_rest s' st"
proof -
  have "ses_transfer s = Some (n - length bs, bytesHeadroom (ses_arb s))" using r by (simp add: at_rest_def)
  moreover have "n - length bs \<le> length data" using d(1) by simp
  ultimately obtain s1 where s1: "socket_receive data s = Some s1"
    using socket_receive_total [of s "n - length bs" _ data] d(2) by blast
  have "rel_option at_rest (drain R buffer_max s1) (Some st)" using chunk_refines [OF r s1, of R] st by simp
  then obtain s' where "drain R buffer_max s1 = Some s'" "at_rest s' st" by (auto simp: option_rel_Some2)
  then show thesis using that [of s'] s1 by simp
qed

lemma at_rest_room:
  assumes "at_rest s (c, Some (n, k), bs)"
  shows "n - length bs \<le> bytesHeadroom (ses_arb s)" "length bs < n"
  using assms by (auto simp: at_rest_def waiting_def bytesHeadroom_def arb_inv_def bytesAvailable_def)

text \<open>
  C7: However the line cuts a byte stream into transfers, the session ends up in the same state, with
  the same messages handed to ROS, the same replies on the line and the same topics registered: the
  state is the one the stream specification \<open>spec_run\<close> computes from the bytes alone.
\<close>

theorem session_segmentation:
  assumes "session_run R chunks (session_start R (new_Session threshold timeout)) = Some s"
  shows "\<exists>rq rest.
    spec_run R (start_core R (ses_core (new_Session threshold timeout))) 1 Read_sync_first (concat chunks) =
      Some (ses_core s, rq, rest)"
  using started_run_refines [OF assms] by metis

definition sample_ros :: ros_env where
  "sample_ros =
     \<lparr>deserialize_topic_info = (\<lambda>bs. Some \<lparr>ti_topic_id = 125, ti_topic_name = ''chatter'', ti_message_type = ''m'',
        ti_md5sum = [], ti_buffer_size = 512\<rparr>),
      deserialize_log = (\<lambda>bs. Some (1, ''hello'')), get_package_share_directory = (\<lambda>_. None), type_hashes = (\<lambda>_. None),
      create_generic_publisher = (\<lambda>_. True), create_generic_subscription = (\<lambda>_. True),
      create_generic_client = (\<lambda>_. True), start_server = (\<lambda>_. True), services_map = (\<lambda>_. False),
      send_request = (\<lambda>_ _ _. Reply_timeout), ros_ok = (\<lambda>_. True), clock_now = (\<lambda>_. [0, 1, 0, 0, 9, 0, 0, 0]),
      uninitialised = (\<lambda>_. 0)\<rparr>"

lemma sample_noise:
  "spec_run R c 1 Read_sync_first [0] = Some (c, Some (1, Read_sync_first), [])"
  by (simp add: spec_run_step cont_effect_def buffer_max_def spec_run_wait)

lemma sample_run_exists: "\<exists>s. session_run R [[0]] (session_start R (new_Session th t)) = Some s"
proof -
  note r = session_start_at_rest [of R th t]
  obtain s where "session_run R [[0]] (session_start R (new_Session th t)) = Some s"
  proof (rule chunk_total [OF r, of R "[0]"])
    show "spec_run R (start_core R (ses_core (new_Session th t))) 1 Read_sync_first ([] @ [0]) =
        Some (start_core R (ses_core (new_Session th t)), Some (1, Read_sync_first), [])"
      by (simp add: sample_noise [simplified])
  qed (use at_rest_room [OF r] in simp_all)
  then show ?thesis ..
qed

theorem session_segmentation_witness:
  "\<exists>s rq rest. session_run sample_ros [[0]] (session_start sample_ros (new_Session 1 2000)) = Some s \<and>
     spec_run sample_ros (start_core sample_ros (ses_core (new_Session 1 2000))) 1 Read_sync_first (concat [[0]]) =
      Some (ses_core s, rq, rest)"
  using sample_run_exists [of sample_ros 1 2000] session_segmentation [of sample_ros "[[0]]" 1 2000] by blast

end
