(* ===== verification/Session_Events.thy ===== *)
theory Session_Events
  imports Session_Messages
begin

text \<open>
  The events of a session in any order: bytes arrive, posted callbacks run, reads and writes fail, the
  sync timer fires, ROS delivers a message or a service request. The tables of the session stay
  consistent with each other under all of them, and the callbacks never read outside the bytes they
  are given.
\<close>

section \<open>Events\<close>

definition fire_sync_timer :: "session_core \<Rightarrow> session_core" where
  "fire_sync_timer c = sync_timeout None (c\<lparr>sc_sync_timer := None\<rparr>)"

definition deliver_ros_message :: "u8 list \<Rightarrow> subscriber \<Rightarrow> session_core \<Rightarrow> session_core" where
  "deliver_ros_message m sub c = fst (run_actions (Subscriber_handle m sub) c)"

text \<open>The part of \<open>service_callback\<close> before it starts to poll.\<close>

definition begin_service_call :: "string \<Rightarrow> u8 list \<Rightarrow> service_server \<Rightarrow> session_core \<Rightarrow> session_core" where
  "begin_service_call name m sv c =
     fst (run_actions [Write_message m (sv_topic_id sv)]
       (c\<lparr>sc_service_servers := AList.map_entry name (\<lambda>v. v\<lparr>sv_get_response := False\<rparr>) (sc_service_servers c)\<rparr>))"

inductive session_step :: "ros_env \<Rightarrow> session \<Rightarrow> session \<Rightarrow> bool" for R where
  receive: "socket_receive data s = Some s' \<Longrightarrow> session_step R s s'"
| run: "ses_posted s = (k, bs) # rest \<Longrightarrow>
    run_continuation R k (new_SimpleCdr bs) (s\<lparr>ses_posted := rest\<rparr>) = Some s' \<Longrightarrow> session_step R s s'"
| read_error: "ses_transfer s = Some tr \<Longrightarrow> session_step R s (socket_error e s)"
| write_error: "session_step R s (s\<lparr>ses_core := write_completion_cb (Some e) (ses_core s)\<rparr>)"
| sync_timer: "sc_sync_timer (ses_core s) = Some i \<Longrightarrow> session_step R s (s\<lparr>ses_core := fire_sync_timer (ses_core s)\<rparr>)"
| ros_message: "map_of (sc_subscribers (ses_core s)) i = Some sub \<Longrightarrow>
    session_step R s (s\<lparr>ses_core := deliver_ros_message m sub (ses_core s)\<rparr>)"
| service_request: "map_of (sc_service_servers (ses_core s)) name = Some sv \<Longrightarrow>
    session_step R s (s\<lparr>ses_core := begin_service_call name m sv (ses_core s)\<rparr>)"

inductive session_reachable :: "ros_env \<Rightarrow> int \<Rightarrow> int \<Rightarrow> session \<Rightarrow> bool" for R th t where
  started: "session_reachable R th t (session_start R (new_Session th t))"
| stepped: "session_reachable R th t s \<Longrightarrow> session_step R s s' \<Longrightarrow> session_reachable R th t s'"

section \<open>Consistency of the tables\<close>

definition tables_empty :: "session_core \<Rightarrow> bool" where
  "tables_empty c \<longleftrightarrow>
     sc_callbacks c = [] \<and> sc_publishers c = [] \<and> sc_subscribers c = [] \<and> sc_service_clients c = [] \<and>
     sc_service_servers c = [] \<and> sc_topics_names c = [] \<and> sc_sync_timer c = None \<and> sc_require_timer c = None"

definition callback_ok :: "session_core \<Rightarrow> u16 \<Rightarrow> callback \<Rightarrow> bool" where
  "callback_ok c i cb \<longleftrightarrow>
     (case cb of
        Publisher_callback pub \<Rightarrow> map_of (sc_publishers c) i = Some pub
      | Service_client_callback n \<Rightarrow> map_of (sc_service_clients c) n \<noteq> None
      | Service_server_callback n \<Rightarrow> map_of (sc_service_servers c) n \<noteq> None
      | _ \<Rightarrow> True)"

definition core_inv :: "session_core \<Rightarrow> bool" where
  "core_inv c \<longleftrightarrow>
     (\<not> sc_active c \<longrightarrow> tables_empty c \<and> \<not> sc_open c) \<and>
     (\<forall>i cb. map_of (sc_callbacks c) i = Some cb \<longrightarrow> callback_ok c i cb) \<and>
     (\<forall>i sub. map_of (sc_subscribers c) i = Some sub \<longrightarrow> gs_topic_id sub = i) \<and>
     (\<forall>n sv. map_of (sc_service_servers c) n = Some sv \<longrightarrow> sv_ok sv \<and> sv_capacity sv = buffer_max)"

text \<open>What the invariant looks at; an operation that leaves these members alone keeps it.\<close>

definition same_tables :: "session_core \<Rightarrow> session_core \<Rightarrow> bool" where
  "same_tables c d \<longleftrightarrow>
     sc_active d = sc_active c \<and> sc_open d = sc_open c \<and> sc_callbacks d = sc_callbacks c \<and>
     sc_publishers d = sc_publishers c \<and> sc_subscribers d = sc_subscribers c \<and>
     sc_service_clients d = sc_service_clients c \<and> sc_service_servers d = sc_service_servers c \<and>
     sc_topics_names d = sc_topics_names c \<and> sc_sync_timer d = sc_sync_timer c \<and> sc_require_timer d = sc_require_timer c"

lemma same_tables_inv: "core_inv c \<Longrightarrow> same_tables c d \<Longrightarrow> core_inv d"
  by (auto simp: core_inv_def same_tables_def tables_empty_def callback_ok_def split: callback.splits)

lemma same_tables_trans: "same_tables c d \<Longrightarrow> same_tables d e \<Longrightarrow> same_tables c e"
  by (simp add: same_tables_def)

lemma session_write_tables: "same_tables c (fst (session_write m t c))"
  by (simp add: session_write_def same_tables_def split: sum.splits wire_error.splits)

lemma run_actions_tables: "same_tables c (fst (run_actions as c))"
proof (induction as arbitrary: c)
  case (Cons a as)
  show ?case
  proof (cases a)
    case (Write_message bs t)
    obtain c1 r where w: "session_write bs t c = (c1, r)" by fastforce
    have "same_tables c c1" using session_write_tables [of c bs t] w by simp
    then show ?thesis using Cons.IH [of c1] Write_message w by (cases r) (auto intro: same_tables_trans)
  qed (use Cons.IH [of "c\<lparr>sc_ros := sc_ros c @ [a]\<rparr>"] in \<open>simp_all add: same_tables_def\<close>)
qed (simp add: same_tables_def)

lemma stop_inv: "core_inv c \<Longrightarrow> core_inv (session_stop c)"
  by (auto simp: session_stop_def session_write_small core_inv_def tables_empty_def Let_def)

lemma stop_inv_active: "sc_active c \<Longrightarrow> core_inv (session_stop c)"
  by (auto simp: session_stop_def session_write_small core_inv_def tables_empty_def Let_def)

text \<open>
  While the session is active the timers are free to change, so the invariant reduces to its other
  three conjuncts.
\<close>

definition entries_ok :: "session_core \<Rightarrow> bool" where
  "entries_ok c \<longleftrightarrow>
     (\<forall>i cb. map_of (sc_callbacks c) i = Some cb \<longrightarrow> callback_ok c i cb) \<and>
     (\<forall>i sub. map_of (sc_subscribers c) i = Some sub \<longrightarrow> gs_topic_id sub = i) \<and>
     (\<forall>n sv. map_of (sc_service_servers c) n = Some sv \<longrightarrow> sv_ok sv \<and> sv_capacity sv = buffer_max)"

lemma core_inv_entries: "core_inv c \<longleftrightarrow> (\<not> sc_active c \<longrightarrow> tables_empty c \<and> \<not> sc_open c) \<and> entries_ok c"
  by (simp add: core_inv_def entries_ok_def)

lemma entries_ok_cong:
  "sc_callbacks d = sc_callbacks c \<Longrightarrow> sc_publishers d = sc_publishers c \<Longrightarrow> sc_subscribers d = sc_subscribers c \<Longrightarrow>
   sc_service_clients d = sc_service_clients c \<Longrightarrow> sc_service_servers d = sc_service_servers c \<Longrightarrow>
   entries_ok d \<longleftrightarrow> entries_ok c"
  by (simp add: entries_ok_def callback_ok_def split: callback.splits)

lemma set_sync_timeout_inv:
  assumes "sc_active c" "entries_ok c"
  shows "core_inv (set_sync_timeout R i c)"
proof (cases "ros_ok R (sc_queries c)")
  case True
  then show ?thesis
    using assms by (simp add: set_sync_timeout_def core_inv_entries Let_def cong: entries_ok_cong)
next
  case False
  have "core_inv (session_stop (c\<lparr>sc_queries := sc_queries c + 1\<rparr>))" using assms(1) by (intro stop_inv_active) simp
  then have "core_inv ((session_stop (c\<lparr>sc_queries := sc_queries c + 1\<rparr>))\<lparr>sc_io_stopped := True\<rparr>)"
    by (rule same_tables_inv) (simp add: same_tables_def)
  then show ?thesis using False assms(1) by (simp add: set_sync_timeout_def session_shutdown_def Let_def)
qed

lemma inv_of_active: "sc_active c \<Longrightarrow> entries_ok c \<Longrightarrow> core_inv c"
  by (simp add: core_inv_entries)

lemma attempt_sync_inv:
  assumes "sc_active c" "entries_ok c"
  shows "core_inv (attempt_sync R c)"
proof -
  have st: "same_tables c (fst (session_write [] TopicInfo_ID_PUBLISHER c))" by (rule session_write_tables)
  let ?d = "request_topics c"
  have "sc_active ?d" "entries_ok ?d"
    using st assms entries_ok_cong [of ?d c] by (simp_all add: request_topics_def same_tables_def Let_def)
  then show ?thesis unfolding attempt_sync_def by (rule set_sync_timeout_inv)
qed

lemma name_of_topic_entries: "entries_ok (name_of_topic t c) = entries_ok c"
  by (rule entries_ok_cong) (simp_all add: name_of_topic_def)

lemma same_entries: "entries_ok c \<Longrightarrow> entries_ok (c\<lparr>sc_unrecognised_topics := u\<rparr>)"
  by (subst entries_ok_cong [of _ c]) simp_all

lemma unrecognised_topic_inv:
  assumes "sc_active c" "entries_ok c"
  shows "core_inv (unrecognised_topic R t c)"
proof -
  define c1 where "c1 = (if length (sc_topics_names c) > unat t then name_of_topic t c else c)"
  let ?c2 = "c1\<lparr>sc_unrecognised_topics := sc_unrecognised_topics c1 + 1\<rparr>"
  have c1: "sc_active c1" "entries_ok c1" using assms by (simp_all add: c1_def name_of_topic_entries)
  then have c2: "core_inv ?c2" "core_inv (attempt_sync R ?c2)"
    by (simp_all add: inv_of_active same_entries attempt_sync_inv)
  have "core_inv ((attempt_sync R ?c2)\<lparr>sc_unrecognised_topics := 0\<rparr>)"
    by (rule same_tables_inv [OF c2(2)]) (simp add: same_tables_def)
  then show ?thesis
    using c1 c2(1) unfolding unrecognised_topic_def c1_def [symmetric] Let_def by (simp add: inv_of_active)
qed

lemma entries_publisher:
  "entries_ok c \<Longrightarrow> entries_ok (c\<lparr>sc_callbacks := AList.update i (Publisher_callback pub) (sc_callbacks c),
     sc_publishers := AList.update i pub (sc_publishers c), sc_topics_names := names\<rparr>)"
  by (auto simp: entries_ok_def callback_ok_def AList.update_conv' split: callback.splits)

lemma entries_subscriber:
  "entries_ok c \<Longrightarrow> gs_topic_id sub = i \<Longrightarrow>
   entries_ok (c\<lparr>sc_subscribers := AList.update i sub (sc_subscribers c)\<rparr>)"
  by (auto simp: entries_ok_def callback_ok_def AList.update_conv' split: callback.splits)

lemma ensure_client_entries:
  "ensure_service_client R ti c = Some c1 \<Longrightarrow> entries_ok c \<Longrightarrow> entries_ok c1"
  by (auto simp: ensure_service_client_def entries_ok_def callback_ok_def AList.update_conv'
      split: if_splits option.splits callback.splits)

lemma new_ServiceServer_capacity: "new_ServiceServer R ti cap tm junk = Some sv \<Longrightarrow> sv_capacity sv = cap"
  by (auto simp: new_ServiceServer_def Let_def split: if_splits prod.splits)

lemma ensure_server_entries:
  "ensure_service_server R ti c = Some c1 \<Longrightarrow> entries_ok c \<Longrightarrow> entries_ok c1"
  by (auto simp: ensure_service_server_def entries_ok_def callback_ok_def AList.update_conv'
      new_ServiceServer_ok new_ServiceServer_capacity split: if_splits option.splits callback.splits)

lemma map_entry_None: "map_of (AList.map_entry k f xs) x = None \<longleftrightarrow> map_of xs x = None"
  by (simp add: AList.map_of_map_entry split: option.splits)

lemma map_entry_Some:
  "map_of (AList.map_entry k f xs) x = Some v \<longleftrightarrow> (\<exists>u. map_of xs x = Some u \<and> v = (if x = k then f u else u))"
  by (auto simp: AList.map_of_map_entry split: option.splits)

lemma callback_ok_cong:
  "sc_publishers d = sc_publishers c \<Longrightarrow>
   (\<And>n. (map_of (sc_service_clients d) n = None) = (map_of (sc_service_clients c) n = None)) \<Longrightarrow>
   (\<And>n. (map_of (sc_service_servers d) n = None) = (map_of (sc_service_servers c) n = None)) \<Longrightarrow>
   callback_ok d i cb = callback_ok c i cb"
  unfolding callback_ok_def by (cases cb) simp_all

lemma entries_map_client:
  assumes "entries_ok c"
  shows "entries_ok (c\<lparr>sc_service_clients := AList.map_entry n f (sc_service_clients c)\<rparr>)"
  using assms callback_ok_cong [of "c\<lparr>sc_service_clients := AList.map_entry n f (sc_service_clients c)\<rparr>" c]
  by (simp add: entries_ok_def map_entry_None)

lemma entries_map_server:
  assumes "entries_ok c" "\<And>sv. sv_ok sv \<Longrightarrow> sv_ok (f sv) \<and> sv_capacity (f sv) = sv_capacity sv"
  shows "entries_ok (c\<lparr>sc_service_servers := AList.map_entry n f (sc_service_servers c)\<rparr>)"
  using assms callback_ok_cong [of "c\<lparr>sc_service_servers := AList.map_entry n f (sc_service_servers c)\<rparr>" c]
  by (simp add: entries_ok_def map_entry_None) (auto simp: map_entry_Some)

lemma response_handle_capacity: "sv_capacity (response_handle st sv) = sv_capacity sv"
  by (simp add: response_handle_def Let_def)

lemma setup_inv:
  assumes "sc_active c" "entries_ok c"
  shows "core_inv (fst (setup_publisher R st c))" "core_inv (fst (setup_subscriber R st c))"
    "core_inv (fst (setup_service_client_publisher R st c))" "core_inv (fst (setup_service_client_subscriber R st c))"
    "core_inv (fst (setup_service_server_publisher R st c))" "core_inv (fst (setup_service_server_subscriber R st c))"
proof -
  note ok = inv_of_active [OF assms]
  show "core_inv (fst (setup_publisher R st c))"
    using assms ok by (auto simp: setup_publisher_def entries_publisher intro!: set_sync_timeout_inv split: option.splits)
  show "core_inv (fst (setup_subscriber R st c))"
    using assms ok
    by (auto simp: setup_subscriber_def Let_def new_Subscriber_def intro!: set_sync_timeout_inv entries_subscriber
        split: option.splits if_splits)
  show "core_inv (fst (setup_service_client_publisher R st c))"
    using assms ok ensure_service_active(1) ensure_client_entries
    by (auto simp: setup_service_client_publisher_def intro!: set_sync_timeout_inv split: option.splits)
  show "core_inv (fst (setup_service_client_subscriber R st c))"
    using assms ok ensure_service_active(1) ensure_client_entries
    by (auto simp: setup_service_client_subscriber_def Let_def intro!: set_sync_timeout_inv entries_map_client split: option.splits)
  show "core_inv (fst (setup_service_server_publisher R st c))"
    using assms ok ensure_service_active(2) ensure_server_entries
    by (auto simp: setup_service_server_publisher_def intro!: set_sync_timeout_inv split: option.splits)
  show "core_inv (fst (setup_service_server_subscriber R st c))"
    using assms ok ensure_service_active(2) ensure_server_entries
    by (auto simp: setup_service_server_subscriber_def Let_def sv_setTopicId_def sv_ok_def
        intro!: set_sync_timeout_inv entries_map_server split: option.splits)
qed

lemma handle_time_inv:
  assumes "sc_active c" "entries_ok c"
  shows "core_inv (fst (handle_time R st c))"
proof -
  let ?c1 = "c\<lparr>sc_queries := sc_queries c + 1\<rparr>"
  obtain c2 r where w: "session_write (clock_now R (sc_queries c)) TopicInfo_ID_TIME ?c1 = (c2, r)" by fastforce
  have st: "same_tables ?c1 c2" using session_write_tables [of ?c1 "clock_now R (sc_queries c)" TopicInfo_ID_TIME] w by simp
  have "sc_active c2" "entries_ok c2"
    using st assms entries_ok_cong [of c2 c] by (simp_all add: same_tables_def)
  then show ?thesis
    using w by (cases r) (simp_all add: handle_time_def set_sync_timeout_inv inv_of_active Let_def)
qed

lemma run_callback_inv:
  assumes "sc_active c" "entries_ok c"
  shows "core_inv (fst (run_callback R cb (new_SimpleCdr p) c))"
proof -
  note ok = inv_of_active [OF assms]
  have acts: "core_inv (fst (run_actions as c))" for as
    using same_tables_inv [OF ok run_actions_tables] .
  have q: "core_inv (c\<lparr>sc_queries := q\<rparr>)" for q
    by (rule same_tables_inv [OF ok]) (simp add: same_tables_def)
  have acts': "core_inv (fst (run_actions as (c\<lparr>sc_queries := q\<rparr>)))" for as q
    using same_tables_inv [OF q run_actions_tables] .
  show ?thesis
    using setup_inv [OF assms, of R "new_SimpleCdr p"] handle_time_inv [OF assms, of R "new_SimpleCdr p"] ok q acts acts' assms
    by (cases cb) (auto simp: run_callback_def handle_log_def service_client_callback_def Let_def
        response_handle_ok response_handle_capacity
        intro!: inv_of_active entries_map_server split: option.splits)
qed

lemma body_effect_inv:
  assumes "sc_active c" "core_inv c" "body_effect R st t c = Some c1"
  shows "core_inv c1"
proof -
  have e: "entries_ok c" using assms(2) by (simp add: core_inv_entries)
  have "core_inv (name_of_topic t c)" using assms(1) e by (simp add: inv_of_active name_of_topic_entries)
  then show ?thesis
    using assms(3) run_callback_inv [OF assms(1) e] unrecognised_topic_inv [OF assms(1) e]
    by (auto simp: body_effect_def bind_eq_Some_conv Let_def split: if_splits option.splits prod.splits outcome.splits)
      (metis fst_conv)+
qed

section \<open>One read at a time\<close>

definition io_waiting :: "session \<Rightarrow> bool" where
  "io_waiting s \<longleftrightarrow>
     ses_posted s = [] \<and>
     (\<exists>n k. waiting n k (ses_arb s) \<and> request_ok n k \<and> n \<le> buffer_max \<and>
        ses_transfer s = Some (n - length (content (ses_arb s)), bytesHeadroom (ses_arb s)))"

definition io_posted :: "session \<Rightarrow> bool" where
  "io_posted s \<longleftrightarrow>
     ses_transfer s = None \<and> idle (ses_arb s) \<and>
     (\<exists>k bs. ses_posted s = [(k, bs)] \<and> request_ok (length bs) k \<and> length bs \<le> buffer_max)"

definition io_ended :: "session \<Rightarrow> bool" where
  "io_ended s \<longleftrightarrow> ses_posted s = [] \<and> ses_transfer s = None"

definition io_inv :: "session \<Rightarrow> bool" where
  "io_inv s \<longleftrightarrow> length (arb_mem (ses_arb s)) = buffer_max \<and> (io_waiting s \<or> io_posted s \<or> io_ended s)"

lemma io_inv_core [simp]: "io_inv (s\<lparr>ses_core := c\<rparr>) = io_inv s"
  by (simp add: io_inv_def io_waiting_def io_posted_def io_ended_def)

lemma at_rest_io: "at_rest s (c, rq, bs) \<Longrightarrow> io_inv s"
  by (cases rq) (auto simp: at_rest_def io_inv_def io_waiting_def io_ended_def waiting_def)

lemma answered_io:
  assumes "answered s c n k bs" "length bs \<le> buffer_max"
  shows "io_inv s" "ses_core s = c"
proof -
  have "length (take n bs) = n" using assms(1) by (simp add: answered_def)
  then show "io_inv s" using assms by (auto simp: answered_def io_inv_def io_posted_def)
  show "ses_core s = c" using assms(1) by (simp add: answered_def)
qed

lemma session_read_io:
  assumes q: "quiescent s" and ok: "request_ok n k"
  shows "io_inv (session_read n k s)" "ses_core (session_read n k s) \<in> {ses_core s, session_stop (ses_core s)}"
proof -
  let ?s = "session_read n k s"
  consider "buffer_max < n" | "n \<le> buffer_max" "length (content (ses_arb s)) < n" | "n \<le> length (content (ses_arb s))"
    by linarith
  then have "io_inv ?s \<and> ses_core ?s \<in> {ses_core s, session_stop (ses_core s)}"
  proof cases
    case 1
    then have r: "at_rest ?s (session_stop (ses_core s), None, content (ses_arb s))" by (rule session_read_too_large [OF q])
    then show ?thesis using at_rest_io [OF r] by (simp add: at_rest_def)
  next
    case 2
    then have r: "at_rest ?s (ses_core s, Some (n, k), content (ses_arb s))" by (rule session_read_waits [OF q _ _ ok])
    then show ?thesis using at_rest_io [OF r] by (simp add: at_rest_def)
  next
    case 3
    have "length (content (ses_arb s)) \<le> buffer_max"
      using q by (auto simp: quiescent_def idle_def arb_inv_def content_def)
    then show ?thesis
      using answered_io [OF session_read_answered [OF q 3 ok]] by simp
  qed
  then show "io_inv ?s" "ses_core ?s \<in> {ses_core s, session_stop (ses_core s)}" by simp_all
qed

lemma receive_io:
  assumes "io_inv s" "socket_receive data s = Some s'"
  shows "io_inv s'" "ses_core s' = ses_core s"
proof -
  have "ses_transfer s \<noteq> None" using assms(2) by (cases "ses_transfer s") (simp_all add: socket_receive_def)
  then obtain n k where r: "at_rest s (ses_core s, Some (n, k), content (ses_arb s))"
    using assms(1) by (auto simp: io_inv_def io_waiting_def io_posted_def io_ended_def at_rest_def)
  show "io_inv s'" "ses_core s' = ses_core s"
    using answered_io [OF socket_receive_answered [OF r assms(2)]] by simp_all
qed

lemma run_io:
  assumes io: "io_inv s" and p: "ses_posted s = (k, bs) # rest"
    and run: "run_continuation R k (new_SimpleCdr bs) (s\<lparr>ses_posted := rest\<rparr>) = Some s'" and inv: "core_inv (ses_core s)"
  shows "io_inv s' \<and> core_inv (ses_core s')"
proof -
  have ip: "rest = []" "request_ok (length bs) k" "quiescent (s\<lparr>ses_posted := [], ses_core := c\<rparr>)" for c
    using io p by (auto simp: io_inv_def io_waiting_def io_posted_def io_ended_def quiescent_def)
  obtain c rq where ce: "cont_effect R k bs (ses_core s) = Some (c, rq)"
      and s': "s' = continue_with (c, rq) (s\<lparr>ses_posted := []\<rparr>)"
    using run run_continuation_effect [OF ip(2), of R "s\<lparr>ses_posted := []\<rparr>"] ip(1) by (auto simp: bind_eq_Some_conv)
  have c: "core_inv c"
    using ce inv body_effect_inv [of "ses_core s" R]
    by (auto simp: cont_effect_def bind_eq_Some_conv split: continuation.splits if_splits)
  show ?thesis
  proof (cases rq)
    case None
    then have s1: "s' = s\<lparr>ses_posted := [], ses_core := c\<rparr>" by (simp add: s' continue_with_def)
    have "io_inv s'" using ip(3) [of c] by (simp add: s1 quiescent_def io_inv_def io_ended_def)
    then show ?thesis using c by (simp add: s1)
  next
    case (Some nk)
    obtain n1 k1 where nk: "nk = (n1, k1)" by (cases nk)
    have ok: "request_ok n1 k1" using ce cont_effect_request_ok Some nk by simp
    have s1: "s' = session_read n1 k1 (s\<lparr>ses_posted := [], ses_core := c\<rparr>)"
      by (simp add: s' continue_with_def Some nk)
    show ?thesis using session_read_io [OF ip(3) [of c] ok] c stop_inv [OF c] unfolding s1 by auto
  qed
qed

lemma error_io:
  assumes io: "io_inv s" and tr: "ses_transfer s = Some tr" and inv: "core_inv (ses_core s)"
  shows "io_inv (socket_error e s) \<and> core_inv (ses_core (socket_error e s))"
proof -
  let ?b = "(ses_arb s)\<lparr>read_requested_bytes := 0, read_success_callback := None\<rparr>"
  let ?s = "s\<lparr>ses_arb := ?b, ses_transfer := None\<rparr>"
  have w: "arb_inv (ses_arb s)" "ses_posted s = []" "length (arb_mem (ses_arb s)) = buffer_max"
    using io tr by (auto simp: io_inv_def io_waiting_def io_posted_def io_ended_def waiting_def)
  have q: "quiescent ?s" using w by (simp add: quiescent_def idle_def arb_inv_def)
  have ended: "io_inv ?s" using w by (simp add: io_inv_def io_ended_def)
  have ok: "request_ok 1 Read_sync_first" by (simp add: request_ok_def)
  have rd: "io_inv (session_read 1 Read_sync_first ?s)" "core_inv (ses_core (session_read 1 Read_sync_first ?s))"
    using session_read_io [OF q ok] inv stop_inv [OF inv] by auto
  have ev: "arb_callback (Some e') 0 (ses_arb s) = (?b, if e' = Operation_aborted then Quiet else Error_callback e')" for e'
    by (simp add: arb_callback_def Let_def)
  consider "e = Operation_aborted" | "e = No_buffer_space" | "e \<noteq> Operation_aborted" "e \<noteq> No_buffer_space" by blast
  then show ?thesis
  proof cases
    case 1
    then show ?thesis using ended inv by (simp add: socket_error_def ev)
  next
    case 2
    then show ?thesis using rd by (simp add: socket_error_def ev read_failed.simps)
  next
    case 3
    then show ?thesis using ended stop_inv [OF inv] by (simp add: socket_error_def ev read_failed.simps)
  qed
qed

lemma start_inv: "core_inv (start_core R (ses_core (new_Session th t)))"
  unfolding start_core_def
  by (rule attempt_sync_inv)
    (auto simp: new_Session_def entries_ok_def callback_ok_def start_callbacks_def AList.update_conv' topic_ids
      split: callback.splits if_splits)

lemma reachable_inv:
  assumes "session_reachable R threshold timeout s"
  shows "core_inv (ses_core s) \<and> io_inv s"
  using assms
proof (induction rule: session_reachable.induct)
  case started
  have "ses_core (session_start R (new_Session threshold timeout)) = start_core R (ses_core (new_Session threshold timeout))"
    using session_start_at_rest [of R threshold timeout] by (simp add: at_rest_def)
  then show ?case using start_inv at_rest_io [OF session_start_at_rest] by simp
next
  case (stepped s s')
  then have inv: "core_inv (ses_core s)" and io: "io_inv s" by simp_all
  from stepped(2) show ?case
  proof cases
    case (receive data)
    then show ?thesis using receive_io [OF io] inv by simp
  next
    case (run k bs rest)
    then show ?thesis using run_io [OF io] inv by blast
  next
    case (read_error tr e)
    then show ?thesis using error_io [OF io _ inv] by simp
  next
    case (write_error e)
    then show ?thesis using io stop_inv [OF inv] by (simp add: write_completion_cb_def)
  next
    case (sync_timer i)
    have "sc_active (ses_core s)" using inv sync_timer(2) by (auto simp: core_inv_def tables_empty_def)
    then show ?thesis
      using io stop_inv_active [of "(ses_core s)\<lparr>sc_sync_timer := None\<rparr>"] sync_timer
      by (simp add: fire_sync_timer_def sync_timeout_def)
  next
    case (ros_message i sub m)
    have "core_inv (deliver_ros_message m sub (ses_core s))"
      unfolding deliver_ros_message_def by (rule same_tables_inv [OF inv run_actions_tables])
    then show ?thesis using io ros_message(1) by simp
  next
    case (service_request name sv m)
    let ?c = "(ses_core s)\<lparr>sc_service_servers :=
        AList.map_entry name (\<lambda>v. v\<lparr>sv_get_response := False\<rparr>) (sc_service_servers (ses_core s))\<rparr>"
    have act: "sc_active (ses_core s)" using inv service_request(2) by (auto simp: core_inv_def tables_empty_def)
    have "entries_ok ?c"
      using inv by (intro entries_map_server) (auto simp: core_inv_entries sv_ok_def)
    then have "core_inv ?c" using act by (intro inv_of_active) simp_all
    then have "core_inv (begin_service_call name m sv (ses_core s))"
      unfolding begin_service_call_def by (rule same_tables_inv [OF _ run_actions_tables])
    then show ?thesis using io service_request(1) by simp
  qed
qed

text \<open>
  C5: In every state a session reaches, by any interleaving of bytes, posted callbacks, failed reads and
  writes, timers, ROS messages and service requests: a stopped session has a closed socket, no timer
  and empty tables; every callback finds the publisher, service client or service server it is for;
  subscribers send under their own topic; response buffers have their full size; and at most one
  request is outstanding, either waiting for one transfer or posted to one callback.
\<close>

theorem session_invariant:
  assumes "session_reachable R threshold timeout s"
  shows "core_inv (ses_core s) \<and> io_inv s"
  using assms by (rule reachable_inv)

theorem session_invariant_witness:
  "session_reachable sample_ros 1 2000 (session_start sample_ros (new_Session 1 2000)) \<and>
   core_inv (ses_core (session_start sample_ros (new_Session 1 2000))) \<and>
   io_inv (session_start sample_ros (new_Session 1 2000))"
  using session_invariant [OF session_reachable.started [of sample_ros 1 2000]]
    session_reachable.started [of sample_ros 1 2000] by blast



end
