(* ===== verification/Serial_Session.thy ===== *)
theory Serial_Session
  imports Session_Events
begin

text \<open>
  The session over a serial port, \<open>rosserial_server/serial_session.h\<close>: it opens the port, starts the
  session and looks every two seconds whether it has to do so again. Whether the port opens is the
  argument \<open>port_opens\<close> of an attempt; the settings of the port (baud rate, parity, low latency, flushing
  the driver's queues) have no counterpart in the state.
\<close>

record serial_session =
  ser_session :: session
  ser_timer :: "nat option"
  ser_failed_connection_attempts :: nat

definition with_core :: "(session_core \<Rightarrow> session_core) \<Rightarrow> session \<Rightarrow> session" where
  "with_core f s = s\<lparr>ses_core := f (ses_core s)\<rparr>"

definition attempt_connection :: "ros_env \<Rightarrow> bool \<Rightarrow> serial_session \<Rightarrow> serial_session" where
  "attempt_connection R port_opens ss =
     (if \<not> port_opens then ss\<lparr>ser_failed_connection_attempts := ser_failed_connection_attempts ss + 1\<rparr>
      else ss\<lparr>ser_failed_connection_attempts := 0,
              ser_session := session_start R (with_core (\<lambda>c. c\<lparr>sc_open := True\<rparr>) (ser_session ss))\<rparr>)"

definition check_connection :: "ros_env \<Rightarrow> bool \<Rightarrow> serial_session \<Rightarrow> serial_session" where
  "check_connection R port_opens ss =
     (let ss1 = (if \<not> sc_active (ses_core (ser_session ss)) then attempt_connection R port_opens ss else ss);
          q = sc_queries (ses_core (ser_session ss1));
          ss2 = ss1\<lparr>ser_session := with_core (\<lambda>c. c\<lparr>sc_queries := sc_queries c + 1\<rparr>) (ser_session ss1)\<rparr>
      in if ros_ok R q then ss2\<lparr>ser_timer := Some 2000\<rparr>
         else ss2\<lparr>ser_session := with_core session_shutdown (ser_session ss2)\<rparr>)"

definition new_SerialSession :: "ros_env \<Rightarrow> int \<Rightarrow> int \<Rightarrow> bool \<Rightarrow> serial_session" where
  "new_SerialSession R threshold services_timeout port_opens =
     check_connection R port_opens
       \<lparr>ser_session = new_Session threshold services_timeout, ser_timer = None, ser_failed_connection_attempts = 0\<rparr>"

fun check_connections :: "ros_env \<Rightarrow> nat \<Rightarrow> serial_session \<Rightarrow> serial_session" where
  "check_connections R 0 ss = ss"
| "check_connections R (Suc n) ss = check_connections R n (check_connection R True ss)"

section \<open>Reconnecting\<close>

lemma with_core_sel [simp]:
  "ses_core (with_core f s) = f (ses_core s)" "ses_arb (with_core f s) = ses_arb s"
  "ses_posted (with_core f s) = ses_posted s" "ses_transfer (with_core f s) = ses_transfer s"
  by (simp_all add: with_core_def)

lemma quiescent_core [simp]: "quiescent (s\<lparr>ses_core := c\<rparr>) = quiescent s" "quiescent (with_core f s) = quiescent s"
  by (simp_all add: quiescent_def with_core_def)

text \<open>A buffer in which a refused request is still marked as pending, with the count of refused reads.\<close>

definition refusing :: "nat \<Rightarrow> session \<Rightarrow> bool" where
  "refusing n s \<longleftrightarrow>
     ses_posted s = [] \<and> ses_transfer s = None \<and> length (arb_mem (ses_arb s)) = buffer_max \<and>
     read_requested_bytes (ses_arb s) \<noteq> 0 \<and> read_count (ses_arb s) = n \<and> \<not> sc_active (ses_core s)"

lemma refused_start:
  assumes "refusing n s"
  shows "\<not> sc_active (ses_core (session_start R s))"
    "n < 3 \<Longrightarrow> refusing (n + 1) (session_start R s)"
    "3 \<le> n \<Longrightarrow> quiescent (session_start R s) \<and> content (ses_arb (session_start R s)) = []"
proof -
  let ?s = "s\<lparr>ses_core := start_core R (ses_core s)\<rparr>"
  let ?b = "(ses_arb s)\<lparr>read_count := n + 1\<rparr>"
  let ?b' = "if n + 1 > 3 then arb_reset (?b\<lparr>read_requested_bytes := 0\<rparr>) else ?b"
  have rd: "arb_read 1 (Some Read_sync_first) (ses_arb s) = (?b', Error_callback Operation_not_permitted)"
    using assms by (simp add: arb_read_def refusing_def Let_def)
  have st: "session_start R s = s\<lparr>ses_core := session_stop (start_core R (ses_core s)), ses_arb := ?b'\<rparr>"
    using rd by (simp add: session_start_def read_sync_header_def session_read.simps read_failed.simps)
  show "\<not> sc_active (ses_core (session_start R s))" by (simp add: st)
  show "n < 3 \<Longrightarrow> refusing (n + 1) (session_start R s)" using assms by (simp add: st refusing_def)
  show "3 \<le> n \<Longrightarrow> quiescent (session_start R s) \<and> content (ses_arb (session_start R s)) = []"
    using assms by (simp add: st refusing_def quiescent_def idle_def) (simp add: arb_reset_def)
qed

lemma accepted_start:
  assumes "ros_env_ok R" "quiescent s" "content (ses_arb s) = []"
  shows "sc_active (ses_core (session_start R s)) \<and> waiting 1 Read_sync_first (ses_arb (session_start R s)) \<and>
    content (ses_arb (session_start R s)) = []"
proof -
  let ?s = "s\<lparr>ses_core := start_core R (ses_core s)\<rparr>"
  have "at_rest (session_read 1 Read_sync_first ?s) (ses_core ?s, Some (1, Read_sync_first), content (ses_arb ?s))"
    using assms(2,3) by (intro session_read_waits) (simp_all add: buffer_max_def request_ok_def)
  then show ?thesis
    using assms(3) start_core_active [OF assms(1)]
    by (simp add: at_rest_def session_start_def read_sync_header_def)
qed

lemma overrun_refusing:
  assumes q: "quiescent s" and n: "buffer_max < n"
  shows "refusing 1 (session_read n k s)"
proof -
  obtain b1 where "session_read n k s = s\<lparr>ses_arb := b1\<lparr>read_count := 1\<rparr>, ses_core := session_stop (ses_core s)\<rparr>"
      "read_requested_bytes b1 = n" "length (arb_mem b1) = buffer_max"
    using session_read_overrun [OF q n] by metis
  then show ?thesis using q n by (simp add: refusing_def quiescent_def)
qed

text \<open>
  A connection that is looked after: one look at an inactive session opens its socket and starts it. Both the
  serial session and the UDP session are of this kind, and what a refused request does to them follows from it.
\<close>

definition count_query :: "session_core \<Rightarrow> session_core" where
  "count_query c = c\<lparr>sc_queries := sc_queries c + 1\<rparr>"

definition open_socket :: "session_core \<Rightarrow> session_core" where
  "open_socket c = c\<lparr>sc_open := True\<rparr>"

lemma looked_after_sel [simp]:
  "sc_active (count_query c) = sc_active c" "sc_active (open_socket c) = sc_active c"
  by (simp_all add: count_query_def open_socket_def)

locale reconnecting =
  fixes R :: ros_env and check :: "'a \<Rightarrow> 'a" and session_of :: "'a \<Rightarrow> session"
  assumes restart: "ros_env_ok R \<Longrightarrow> \<not> sc_active (ses_core (session_of x)) \<Longrightarrow>
    session_of (check x) = with_core count_query (session_start R (with_core open_socket (session_of x)))"
begin

lemma check_refused:
  assumes R: "ros_env_ok R" and ref: "refusing n (session_of x)"
  shows "\<not> sc_active (ses_core (session_of (check x)))"
    "n < 3 \<Longrightarrow> refusing (n + 1) (session_of (check x))"
    "3 \<le> n \<Longrightarrow> quiescent (session_of (check x)) \<and> content (ses_arb (session_of (check x))) = []"
proof -
  have "\<not> sc_active (ses_core (session_of x))" using ref by (simp add: refusing_def)
  note st = restart [OF R this]
  have r1: "refusing n (with_core open_socket (session_of x))" using ref by (simp add: refusing_def)
  note rs = refused_start [OF r1, of R]
  show "\<not> sc_active (ses_core (session_of (check x)))" using rs(1) by (simp add: st)
  show "n < 3 \<Longrightarrow> refusing (n + 1) (session_of (check x))" using rs(2) by (simp add: st refusing_def)
  show "3 \<le> n \<Longrightarrow> quiescent (session_of (check x)) \<and> content (ses_arb (session_of (check x))) = []"
    using rs(3) by (simp add: st)
qed

lemma check_accepted:
  assumes "ros_env_ok R" "\<not> sc_active (ses_core (session_of x))" "quiescent (session_of x)"
    and "content (ses_arb (session_of x)) = []"
  shows "sc_active (ses_core (session_of (check x))) \<and> waiting 1 Read_sync_first (ses_arb (session_of (check x))) \<and>
    content (ses_arb (session_of (check x))) = []"
  using accepted_start [OF assms(1), of "with_core open_socket (session_of x)"] assms(3,4)
  by (simp add: restart [OF assms(1,2)])

lemma overrun_late:
  assumes R: "ros_env_ok R" and "refusing 1 (session_of x)"
  shows "\<not> sc_active (ses_core (session_of ((check ^^ 1) x))) \<and>
    \<not> sc_active (ses_core (session_of ((check ^^ 2) x))) \<and>
    \<not> sc_active (ses_core (session_of ((check ^^ 3) x))) \<and>
    sc_active (ses_core (session_of ((check ^^ 4) x))) \<and>
    waiting 1 Read_sync_first (ses_arb (session_of ((check ^^ 4) x))) \<and>
    content (ses_arb (session_of ((check ^^ 4) x))) = []"
proof -
  define x1 x2 x3 where "x1 = check x" and "x2 = check x1" and "x3 = check x2"
  have r1: "refusing 2 (session_of x1)" "\<not> sc_active (ses_core (session_of x1))"
    using check_refused [OF R assms(2)] by (simp_all add: x1_def numeral_2_eq_2)
  have r2: "refusing 3 (session_of x2)" "\<not> sc_active (ses_core (session_of x2))"
    using check_refused [OF R r1(1)] by (simp_all add: x2_def)
  have r3: "\<not> sc_active (ses_core (session_of x3))" "quiescent (session_of x3)" "content (ses_arb (session_of x3)) = []"
    using check_refused [OF R r2(1)] by (simp_all add: x3_def)
  have "(check ^^ 1) x = x1" "(check ^^ 2) x = x2" "(check ^^ 3) x = x3" "(check ^^ 4) x = check x3"
    by (simp_all add: x1_def x2_def x3_def eval_nat_numeral)
  then show ?thesis using r1 r2 r3 check_accepted [OF R r3] by simp
qed

end

interpretation serial: reconnecting R "check_connection R True" ser_session for R
  by unfold_locales
    (simp add: check_connection_def attempt_connection_def ros_env_ok_def Let_def count_query_def open_socket_def
      with_core_def)

lemma check_connections_funpow: "check_connections R n ss = (check_connection R True ^^ n) ss"
  by (induction n arbitrary: ss) (simp_all add: funpow_swap1)

text \<open>
  After a message that is too large for the receive buffer, reconnecting to the serial port fails
  three times although the port opens and ROS is up: each time the session is started and at once
  stopped, because the refused request is still marked as pending. Only the fourth reconnection gives
  an active session that waits for a sync byte with an empty buffer.
\<close>

theorem overrun_reconnects_late:
  assumes "ros_env_ok R" "quiescent s" "buffer_max < n" "ser_session ss = session_read n k s"
  shows "\<not> sc_active (ses_core (ser_session (check_connections R 1 ss))) \<and>
    \<not> sc_active (ses_core (ser_session (check_connections R 2 ss))) \<and>
    \<not> sc_active (ses_core (ser_session (check_connections R 3 ss))) \<and>
    sc_active (ses_core (ser_session (check_connections R 4 ss))) \<and>
    waiting 1 Read_sync_first (ses_arb (ser_session (check_connections R 4 ss))) \<and>
    content (ses_arb (ser_session (check_connections R 4 ss))) = []"
proof -
  have "refusing 1 (ser_session ss)" unfolding assms(4) by (rule overrun_refusing [OF assms(2,3)])
  then show ?thesis using serial.overrun_late [OF assms(1)] by (simp add: check_connections_funpow)
qed

theorem overrun_reconnects_late_witness:
  "\<exists>ss. \<not> sc_active (ses_core (ser_session (check_connections sample_ros 3 ss))) \<and>
     sc_active (ses_core (ser_session (check_connections sample_ros 4 ss)))"
proof -
  have q: "quiescent (new_Session 1 2000)" by (simp add: quiescent_def new_idle)
  show ?thesis
    using overrun_reconnects_late [OF sample_ros_ok q, of 9000
        "\<lparr>ser_session = session_read 9000 (Read_body 125) (new_Session 1 2000), ser_timer = None,
          ser_failed_connection_attempts = 0\<rparr>" "Read_body 125"]
    by (auto simp: buffer_max_def)
qed

end
