(* ===== verification/Network_Sessions.thy ===== *)
theory Network_Sessions
  imports Serial_Session
begin

text \<open>
  The sessions over a network: \<open>rosserial_server/udp_stream.h\<close>, \<open>udp_socket_session.h\<close> and
  \<open>tcp_server.h\<close>. These headers construct the session from the \<open>io_service\<close> alone, as the session of an
  earlier version did; they are modelled over the session of \<open>session.h\<close>. An address is a value of type
  \<open>'e\<close>; what the operating system answers to \<open>open\<close>, \<open>bind\<close> and \<open>accept\<close> is an argument.
\<close>

section \<open>Datagrams as a stream\<close>

record 'e udp_stream =
  us_local :: "'e option"
  us_client :: "'e option"
  us_sent :: "('e option \<times> u8 list) list"

datatype udp_error = Open_failed errc | Bind_failed errc

definition new_UdpStream :: "'e udp_stream" where
  "new_UdpStream = \<lparr>us_local = None, us_client = None, us_sent = []\<rparr>"

definition udp_open ::
  "errc option \<Rightarrow> errc option \<Rightarrow> 'e \<Rightarrow> 'e \<Rightarrow> 'e udp_stream \<Rightarrow> udp_error + 'e udp_stream"
where
  "udp_open open_error bind_error server client st =
     (case open_error of
        Some ec \<Rightarrow> Inl (Open_failed ec)
      | None \<Rightarrow>
          (case bind_error of
             Some ec \<Rightarrow> Inl (Bind_failed ec)
           | None \<Rightarrow> Inr (st\<lparr>us_local := Some server, us_client := Some client\<rparr>)))"

definition udp_async_write_some :: "u8 list \<Rightarrow> 'e udp_stream \<Rightarrow> 'e udp_stream" where
  "udp_async_write_some buffers st = st\<lparr>us_sent := us_sent st @ [(us_client st, buffers)]\<rparr>"

text \<open>
  A read takes one datagram, whoever sent it, and drops what does not fit into the buffer. Before
  Boost 1.66 the sender becomes the client.
\<close>

definition udp_async_read_some ::
  "bool \<Rightarrow> nat \<Rightarrow> 'e \<times> u8 list \<Rightarrow> 'e udp_stream \<Rightarrow> u8 list \<times> 'e udp_stream"
where
  "udp_async_read_some boost_106600 room datagram st =
     (take room (snd datagram),
      if boost_106600 then st else st\<lparr>us_client := Some (fst datagram)\<rparr>)"

text \<open>
  The composed read of the receive buffer, \<open>async_read\<close> with \<open>transfer_at_least\<close>: it reads until at least
  \<open>least\<close> bytes have come, with room for \<open>most\<close>. The result has the bytes, the datagrams not taken yet and
  the stream; \<open>None\<close> means that it is still waiting.
\<close>

fun udp_async_read ::
  "bool \<Rightarrow> nat \<Rightarrow> nat \<Rightarrow> ('e \<times> u8 list) list \<Rightarrow> 'e udp_stream \<Rightarrow>
     (u8 list \<times> ('e \<times> u8 list) list \<times> 'e udp_stream) option"
where
  "udp_async_read v least most ds st =
     (if least = 0 then Some ([], ds, st)
      else case ds of
        [] \<Rightarrow> None
      | d # ds' \<Rightarrow>
          (case udp_async_read_some v most d st of
             (got, st1) \<Rightarrow>
               (case udp_async_read v (least - length got) (most - length got) ds' st1 of
                  None \<Rightarrow> None
                | Some (rest, more_ds, st2) \<Rightarrow> Some (got @ rest, more_ds, st2))))"

declare udp_async_read.simps [simp del]

section \<open>The UDP session\<close>

record 'e udp_session =
  ud_session :: session
  ud_timer :: "nat option"
  ud_server :: 'e
  ud_client :: 'e
  ud_stream :: "'e udp_stream"

definition udp_check_connection ::
  "ros_env \<Rightarrow> errc option \<Rightarrow> errc option \<Rightarrow> 'e udp_session \<Rightarrow> udp_error + 'e udp_session"
where
  "udp_check_connection R open_error bind_error us =
     (let connected =
        (if \<not> sc_active (ses_core (ud_session us))
         then (case udp_open open_error bind_error (ud_server us) (ud_client us) (ud_stream us) of
                 Inl ec \<Rightarrow> Inl ec
               | Inr st \<Rightarrow>
                   Inr (us\<lparr>ud_stream := st, ud_session := session_start R (with_core open_socket (ud_session us))\<rparr>))
         else Inr us)
      in case connected of
           Inl ec \<Rightarrow> Inl ec
         | Inr us1 \<Rightarrow>
             (let q = sc_queries (ses_core (ud_session us1));
                  us2 = us1\<lparr>ud_session := with_core count_query (ud_session us1)\<rparr>
              in Inr (if ros_ok R q then us2\<lparr>ud_timer := Some 2000\<rparr>
                      else us2\<lparr>ud_session := with_core session_shutdown (ud_session us2)\<rparr>)))"

definition closed_Session :: "int \<Rightarrow> int \<Rightarrow> session" where
  "closed_Session threshold services_timeout =
     with_core (\<lambda>c. c\<lparr>sc_open := False\<rparr>) (new_Session threshold services_timeout)"

definition new_UdpSocketSession ::
  "ros_env \<Rightarrow> int \<Rightarrow> int \<Rightarrow> errc option \<Rightarrow> errc option \<Rightarrow> 'e \<Rightarrow> 'e \<Rightarrow> udp_error + 'e udp_session"
where
  "new_UdpSocketSession R threshold services_timeout open_error bind_error server client =
     udp_check_connection R open_error bind_error
       \<lparr>ud_session = closed_Session threshold services_timeout, ud_timer = None, ud_server = server, ud_client = client,
        ud_stream = new_UdpStream\<rparr>"

section \<open>The TCP server\<close>

text \<open>The sessions the server has allocated, a deleted one as \<open>None\<close>, and the one given to the acceptor.\<close>

record tcp_server =
  ts_sessions :: "session option list"
  ts_accepting :: nat

definition tcp_start_accept :: "int \<Rightarrow> int \<Rightarrow> tcp_server \<Rightarrow> tcp_server" where
  "tcp_start_accept threshold services_timeout ts =
     ts\<lparr>ts_sessions := ts_sessions ts @ [Some (closed_Session threshold services_timeout)],
        ts_accepting := length (ts_sessions ts)\<rparr>"

definition new_TcpServer :: "int \<Rightarrow> int \<Rightarrow> tcp_server" where
  "new_TcpServer threshold services_timeout =
     tcp_start_accept threshold services_timeout \<lparr>ts_sessions = [], ts_accepting = 0\<rparr>"

text \<open>An accepted connection is an open socket.\<close>

definition tcp_handle_accept :: "ros_env \<Rightarrow> int \<Rightarrow> int \<Rightarrow> errc option \<Rightarrow> tcp_server \<Rightarrow> tcp_server" where
  "tcp_handle_accept R threshold services_timeout error ts =
     (let i = ts_accepting ts;
          ts1 = (if error = None
                 then ts\<lparr>ts_sessions := (ts_sessions ts)[i := map_option (\<lambda>s. session_start R (with_core open_socket s))
                                                               (ts_sessions ts ! i)]\<rparr>
                 else ts\<lparr>ts_sessions := (ts_sessions ts)[i := None]\<rparr>)
      in tcp_start_accept threshold services_timeout ts1)"

text \<open>The port of the acceptor: \<open>main\<close> passes an \<open>int\<close> on as a \<open>short\<close>, the endpoint takes an \<open>unsigned short\<close>.\<close>

definition tcp_port :: "u32 \<Rightarrow> u16" where
  "tcp_port port = ucast port"

text \<open>
  A server and what was answered to its accepts so far, while the sessions it started go their own ways.
\<close>

inductive tcp_runs :: "ros_env \<Rightarrow> int \<Rightarrow> int \<Rightarrow> errc option list \<Rightarrow> tcp_server \<Rightarrow> bool" for R th t where
  listening: "tcp_runs R th t [] (new_TcpServer th t)"
| accepted: "tcp_runs R th t as ts \<Longrightarrow> tcp_runs R th t (as @ [e]) (tcp_handle_accept R th t e ts)"
| session: "tcp_runs R th t as ts \<Longrightarrow> i < length (ts_sessions ts) \<Longrightarrow> i \<noteq> ts_accepting ts \<Longrightarrow>
    ts_sessions ts ! i = Some s \<Longrightarrow> session_step R s s' \<Longrightarrow>
    tcp_runs R th t as (ts\<lparr>ts_sessions := (ts_sessions ts)[i := Some s']\<rparr>)"

section \<open>Datagrams\<close>

lemma read_some_fits:
  "length (snd d) \<le> room \<Longrightarrow> fst (udp_async_read_some v room d st) = snd d"
  by (simp add: udp_async_read_some_def)

lemma read_some_client:
  "snd (udp_async_read_some v room d st) = (if v then st else st\<lparr>us_client := Some (fst d)\<rparr>)"
  by (simp add: udp_async_read_some_def)

lemma udp_read_whole:
  assumes "least \<le> most" "\<forall>d \<in> set ds. length (snd d) \<le> most - least + 1" "least \<le> length (concat (map snd ds))"
  shows "\<exists>used ds' st'. ds = used @ ds' \<and> udp_async_read v least most ds st = Some (concat (map snd used), ds', st') \<and>
    least \<le> length (concat (map snd used)) \<and> length (concat (map snd used)) \<le> most \<and>
    st' = (if v \<or> used = [] then st else st\<lparr>us_client := Some (fst (last used))\<rparr>)"
  using assms
proof (induction ds arbitrary: least most st)
  case Nil
  then show ?case by (intro exI [of _ "[]"]) (simp add: udp_async_read.simps)
next
  case (Cons d ds)
  show ?case
  proof (cases "least = 0")
    case True
    then have "udp_async_read v least most (d # ds) st = Some (concat (map snd []), d # ds, st)"
      by (simp add: udp_async_read.simps)
    then show ?thesis using True by fastforce
  next
    case False
    let ?g = "snd d" and ?st = "if v then st else st\<lparr>us_client := Some (fst d)\<rparr>"
    have g: "length ?g \<le> most - least + 1" "length ?g \<le> most" using Cons.prems False by auto
    have rs: "udp_async_read_some v most d st = (?g, ?st)"
      by (simp add: prod_eq_iff read_some_fits [OF g(2)] read_some_client)
    have le: "least - length ?g \<le> most - length ?g" using Cons.prems(1) by simp
    have eq: "length ?g < least \<Longrightarrow> most - length ?g - (least - length ?g) = most - least" by simp
    obtain used ds' st' where ih: "ds = used @ ds'"
        "udp_async_read v (least - length ?g) (most - length ?g) ds ?st = Some (concat (map snd used), ds', st')"
        "least - length ?g \<le> length (concat (map snd used))" "length (concat (map snd used)) \<le> most - length ?g"
        "st' = (if v \<or> used = [] then ?st else ?st\<lparr>us_client := Some (fst (last used))\<rparr>)"
    proof (cases "length ?g < least")
      case True
      have fit: "\<forall>d \<in> set ds. length (snd d) \<le> most - length ?g - (least - length ?g) + 1"
        using Cons.prems(2) eq [OF True] by simp
      have "least - length ?g \<le> length (concat (map snd ds))" using Cons.prems(3) by simp
      from Cons.IH [OF le fit this, of ?st] show ?thesis using that by blast
    next
      case False
      then show ?thesis by (intro that [of "[]" ds ?st]) (simp_all add: udp_async_read.simps)
    qed
    have "udp_async_read v least most (d # ds) st = Some (concat (map snd (d # used)), ds', st')"
      using ih(2) rs False by (simp add: udp_async_read.simps [of v least most "d # ds"])
    moreover have "st' = (if v \<or> d # used = [] then st else st\<lparr>us_client := Some (fst (last (d # used)))\<rparr>)"
      using ih(5) by simp
    moreover have "d # ds = (d # used) @ ds'" "least \<le> length (concat (map snd (d # used)))"
        "length (concat (map snd (d # used))) \<le> most"
      using ih(1,3,4) g(2) by simp_all
    ultimately show ?thesis by blast
  qed
qed



text \<open>A datagram larger than the space in the receive buffer loses its end, and the read reports success.\<close>

theorem oversized_datagram_cut:
  assumes "0 < least" "least \<le> most" "most < length bs"
  shows "\<exists>st'. udp_async_read v least most ((sender, bs) # ds) st = Some (take most bs, ds, st')"
  using assms
  by (simp add: udp_async_read.simps [of v least most "(sender, bs) # ds"] udp_async_read_some_def)
    (simp add: udp_async_read.simps)

section \<open>The UDP session reconnects\<close>

definition udp_check :: "ros_env \<Rightarrow> 'e udp_session \<Rightarrow> 'e udp_session" where
  "udp_check R us = projr (udp_check_connection R None None us)"

interpretation udp: reconnecting R "udp_check R" ud_session for R
  by unfold_locales (simp add: udp_check_def udp_check_connection_def udp_open_def ros_env_ok_def Let_def)


lemma closed_Session_quiescent:
  "quiescent (closed_Session th t)" "content (ses_arb (closed_Session th t)) = []"
  "\<not> sc_active (ses_core (closed_Session th t))"
  using new_idle by (simp_all add: closed_Session_def quiescent_def) (simp_all add: new_Session_def)


text \<open>The UDP session is refused three times after an oversized message, like the serial one.\<close>

theorem udp_overrun_reconnects_late:
  assumes "ros_env_ok R" "quiescent s" "buffer_max < n" "ud_session us = session_read n k s"
  shows "\<not> sc_active (ses_core (ud_session ((udp_check R ^^ 3) us))) \<and>
    sc_active (ses_core (ud_session ((udp_check R ^^ 4) us)))"
proof -
  have "refusing 1 (ud_session us)" unfolding assms(4) by (rule overrun_refusing [OF assms(2,3)])
  then show ?thesis using udp.overrun_late [OF assms(1)] by blast
qed

section \<open>The TCP server\<close>

definition live_sessions :: "tcp_server \<Rightarrow> nat" where
  "live_sessions ts = length (filter (\<lambda>s. s \<noteq> None) (ts_sessions ts))"

definition tcp_inv :: "ros_env \<Rightarrow> int \<Rightarrow> int \<Rightarrow> errc option list \<Rightarrow> tcp_server \<Rightarrow> bool" where
  "tcp_inv R th t as ts \<longleftrightarrow>
     (\<exists>old. ts_sessions ts = old @ [Some (closed_Session th t)] \<and> ts_accepting ts = length old \<and>
        list_all2 (\<lambda>e s. s = None \<longleftrightarrow> e \<noteq> None) as old \<and>
        (\<forall>s. Some s \<in> set old \<longrightarrow> session_reachable R th t s))"

lemma accepted_session:
  "session_start R (with_core open_socket (closed_Session th t)) = session_start R (new_Session th t)"
  by (simp add: closed_Session_def with_core_def open_socket_def new_Session_def)

lemma tcp_accept_inv:
  assumes "tcp_inv R th t as ts"
  shows "tcp_inv R th t (as @ [e]) (tcp_handle_accept R th t e ts)"
proof -
  obtain old where old: "ts_sessions ts = old @ [Some (closed_Session th t)]" "ts_accepting ts = length old"
      "list_all2 (\<lambda>e s. s = None \<longleftrightarrow> e \<noteq> None) as old" "\<forall>s. Some s \<in> set old \<longrightarrow> session_reachable R th t s"
    using assms by (auto simp: tcp_inv_def)
  let ?new = "if e = None then Some (session_start R (new_Session th t)) else None"
  have "ts_sessions (tcp_handle_accept R th t e ts) = (old @ [?new]) @ [Some (closed_Session th t)]"
      "ts_accepting (tcp_handle_accept R th t e ts) = length (old @ [?new])"
    using old(1,2) by (simp_all add: tcp_handle_accept_def tcp_start_accept_def accepted_session Let_def)
  moreover have "list_all2 (\<lambda>e s. s = None \<longleftrightarrow> e \<noteq> None) (as @ [e]) (old @ [?new])" using old(3) by (intro list_all2_appendI) auto
  moreover have "\<forall>s. Some s \<in> set (old @ [?new]) \<longrightarrow> session_reachable R th t s"
    using old(4) session_reachable.started by auto
  ultimately show ?thesis unfolding tcp_inv_def by blast
qed

lemma tcp_session_inv:
  assumes "tcp_inv R th t as ts" "i < length (ts_sessions ts)" "i \<noteq> ts_accepting ts" "ts_sessions ts ! i = Some s"
    and "session_step R s s'"
  shows "tcp_inv R th t as (ts\<lparr>ts_sessions := (ts_sessions ts)[i := Some s']\<rparr>)"
proof -
  obtain old where old: "ts_sessions ts = old @ [Some (closed_Session th t)]" "ts_accepting ts = length old"
      "list_all2 (\<lambda>e s. s = None \<longleftrightarrow> e \<noteq> None) as old" "\<forall>s. Some s \<in> set old \<longrightarrow> session_reachable R th t s"
    using assms(1) by (auto simp: tcp_inv_def)
  have i: "i < length old" "old ! i = Some s" using assms(2-4) old(1,2) by (auto simp: nth_append split: if_splits)
  have "session_reachable R th t s'" using old(4) i assms(5) session_reachable.stepped nth_mem by metis
  then have r: "\<forall>x. Some x \<in> set (old[i := Some s']) \<longrightarrow> session_reachable R th t x"
    using old(4) set_update_subset_insert [of old i "Some s'"] by fastforce
  have "list_all2 (\<lambda>e s. s = None \<longleftrightarrow> e \<noteq> None) as (old[i := Some s'])"
    using old(3) i by (auto simp: list_all2_conv_all_nth nth_list_update)
  moreover have "ts_sessions (ts\<lparr>ts_sessions := (ts_sessions ts)[i := Some s']\<rparr>) =
      old[i := Some s'] @ [Some (closed_Session th t)]"
    using old(1) i(1) by (simp add: list_update_append)
  moreover have "ts_accepting (ts\<lparr>ts_sessions := (ts_sessions ts)[i := Some s']\<rparr>) = length (old[i := Some s'])"
    using old(2) by simp
  ultimately show ?thesis unfolding tcp_inv_def using r by blast
qed

lemma tcp_runs_inv: "tcp_runs R th t as ts \<Longrightarrow> tcp_inv R th t as ts"
proof (induction rule: tcp_runs.induct)
  case listening
  then show ?case by (simp add: tcp_inv_def new_TcpServer_def tcp_start_accept_def)
next
  case (accepted as ts e)
  show ?case by (rule tcp_accept_inv [OF accepted.IH])
next
  case (session as ts i s s')
  then show ?case by (intro tcp_session_inv)
qed

lemma live_of_accepts:
  "list_all2 (\<lambda>e s. s = None \<longleftrightarrow> e \<noteq> None) as old \<Longrightarrow>
     length (filter (\<lambda>s. s \<noteq> None) old) = length (filter (\<lambda>e. e = None) as)"
  by (induction as old rule: list_all2_induct) auto



end
