(* ===== verification/Ros_Serialization.thy ===== *)
theory Ros_Serialization
  imports Prelude
begin

text \<open>
  The serialisation of ROS 1 messages, \<open>rosserial_server/serialization.h\<close>. The template \<open>Serializer<T>\<close> is the
  record \<open>serializer\<close> of its three functions, one record for every type of message fields, and the
  choice between the specialisations for vectors and arrays is made, as in the source, by the traits
  \<open>IsSimple\<close> and \<open>IsFixedSize\<close> of the element type, which come from another package and are arguments
  here. A stream is a buffer with a current position and an end; running past the end is the exception the
  code throws, \<open>Outside_object\<close> stands for an access outside an object. Values are read into freshly
  constructed objects, and the host is little-endian.
\<close>

section \<open>Streams\<close>

datatype ser_error = StreamOverrunException | Outside_object

definition and_then :: "'e + 'a \<Rightarrow> ('a \<Rightarrow> 'e + 'b) \<Rightarrow> 'e + 'b" where
  "and_then r f = (case r of Inl e \<Rightarrow> Inl e | Inr x \<Rightarrow> f x)"

lemma and_then_simps [simp]: "and_then (Inl e) f = Inl e" "and_then (Inr x) f = f x"
  by (simp_all add: and_then_def)

record ser_stream =
  ss_buf :: "u8 list"
  ss_data :: nat
  ss_end :: nat

definition new_stream :: "u8 list \<Rightarrow> nat \<Rightarrow> u32 \<Rightarrow> ser_stream" where
  "new_stream buf data count = \<lparr>ss_buf = buf, ss_data = data, ss_end = data + unat count\<rparr>"

definition ss_advance :: "u32 \<Rightarrow> ser_stream \<Rightarrow> ser_error + nat \<times> ser_stream" where
  "ss_advance len s =
     (if ss_data s + unat len > ss_end s then Inl StreamOverrunException
      else Inr (ss_data s, s\<lparr>ss_data := ss_data s + unat len\<rparr>))"

definition ss_getLength :: "ser_stream \<Rightarrow> u32" where
  "ss_getLength s = of_nat (ss_end s - ss_data s)"

text \<open>\<open>memcpy\<close> to and from the place \<open>advance\<close> returns.\<close>

definition copy_in :: "u32 \<Rightarrow> u8 list \<Rightarrow> ser_stream \<Rightarrow> ser_error + ser_stream" where
  "copy_in len bs s =
     and_then (ss_advance len s) (\<lambda>(p, s').
       if p + length bs \<le> length (ss_buf s') then Inr (s'\<lparr>ss_buf := take p (ss_buf s') @ bs @ drop (p + length bs) (ss_buf s')\<rparr>)
       else Inl Outside_object)"

definition copy_out :: "u32 \<Rightarrow> nat \<Rightarrow> ser_stream \<Rightarrow> ser_error + u8 list \<times> ser_stream" where
  "copy_out len n s =
     and_then (ss_advance len s) (\<lambda>(p, s').
       if p + n \<le> length (ss_buf s') then Inr (take n (drop p (ss_buf s')), s') else Inl Outside_object)"

section \<open>Values and their serialisers\<close>

text \<open>
  \<open>V_prim\<close> has the object representation of an arithmetic value; vectors and arrays are \<open>V_list\<close>; a
  message is the \<open>V_struct\<close> of its fields.
\<close>

datatype ros_val =
    V_prim "u8 list" | V_bool bool | V_string "u8 list" | V_time u32 u32 | V_duration u32 u32
  | V_list "ros_val list" | V_struct "ros_val list"

record serializer =
  sr_write :: "ros_val \<Rightarrow> ser_stream \<Rightarrow> ser_error + ser_stream"
  sr_read :: "ser_stream \<Rightarrow> ser_error + ros_val \<times> ser_stream"
  sr_length :: "ros_val \<Rightarrow> u32"

definition simple_Serializer :: "nat \<Rightarrow> serializer" where
  "simple_Serializer size_of =
     \<lparr>sr_write = (\<lambda>v s. case v of V_prim bs \<Rightarrow> copy_in (of_nat size_of) bs s | _ \<Rightarrow> Inl Outside_object),
      sr_read = (\<lambda>s. and_then (copy_out (of_nat size_of) size_of s) (\<lambda>(bs, s'). Inr (V_prim bs, s'))),
      sr_length = (\<lambda>_. of_nat size_of)\<rparr>"

definition next_uint32 :: "u32 \<Rightarrow> ser_stream \<Rightarrow> ser_error + ser_stream" where
  "next_uint32 w s = sr_write (simple_Serializer 4) (V_prim (le_bytes 4 w)) s"

definition read_uint32 :: "ser_stream \<Rightarrow> ser_error + u32 \<times> ser_stream" where
  "read_uint32 s =
     and_then (sr_read (simple_Serializer 4) s) (\<lambda>(v, s').
       case v of V_prim bs \<Rightarrow> Inr (le_word bs, s') | _ \<Rightarrow> Inl Outside_object)"

definition bool_Serializer :: serializer where
  "bool_Serializer =
     \<lparr>sr_write = (\<lambda>v s. case v of V_bool b \<Rightarrow> copy_in 1 [if b then 1 else 0] s | _ \<Rightarrow> Inl Outside_object),
      sr_read = (\<lambda>s. and_then (copy_out 1 1 s) (\<lambda>(bs, s'). Inr (V_bool (hd bs \<noteq> 0), s'))),
      sr_length = (\<lambda>_. 1)\<rparr>"

definition string_Serializer :: serializer where
  "string_Serializer =
     \<lparr>sr_write = (\<lambda>v s. case v of
          V_string str \<Rightarrow>
            and_then (next_uint32 (of_nat (length str)) s) (\<lambda>s1.
              if length str > 0 then copy_in (of_nat (length str)) str s1 else Inr s1)
        | _ \<Rightarrow> Inl Outside_object),
      sr_read = (\<lambda>s.
        and_then (read_uint32 s) (\<lambda>(len, s1).
          if len > 0 then and_then (copy_out len (unat len) s1) (\<lambda>(str, s2). Inr (V_string str, s2))
          else Inr (V_string [], s1))),
      sr_length = (\<lambda>v. case v of V_string str \<Rightarrow> 4 + of_nat (length str) | _ \<Rightarrow> 0)\<rparr>"

definition time_Serializer :: serializer where
  "time_Serializer =
     \<lparr>sr_write = (\<lambda>v s. case v of
          V_time sec nsec \<Rightarrow> and_then (next_uint32 sec s) (next_uint32 nsec) | _ \<Rightarrow> Inl Outside_object),
      sr_read = (\<lambda>s.
        and_then (read_uint32 s) (\<lambda>(sec, s1). and_then (read_uint32 s1) (\<lambda>(nsec, s2). Inr (V_time sec nsec, s2)))),
      sr_length = (\<lambda>_. 8)\<rparr>"

definition duration_Serializer :: serializer where
  "duration_Serializer =
     \<lparr>sr_write = (\<lambda>v s. case v of
          V_duration sec nsec \<Rightarrow> and_then (next_uint32 sec s) (next_uint32 nsec) | _ \<Rightarrow> Inl Outside_object),
      sr_read = (\<lambda>s.
        and_then (read_uint32 s) (\<lambda>(sec, s1). and_then (read_uint32 s1) (\<lambda>(nsec, s2). Inr (V_duration sec nsec, s2)))),
      sr_length = (\<lambda>_. 8)\<rparr>"

text \<open>The loops over the elements of a container.\<close>

primrec write_elements :: "serializer \<Rightarrow> ros_val list \<Rightarrow> ser_stream \<Rightarrow> ser_error + ser_stream" where
  "write_elements S [] s = Inr s"
| "write_elements S (v # vs) s = and_then (sr_write S v s) (write_elements S vs)"

primrec read_elements :: "serializer \<Rightarrow> nat \<Rightarrow> ser_stream \<Rightarrow> ser_error + ros_val list \<times> ser_stream" where
  "read_elements S 0 s = Inr ([], s)"
| "read_elements S (Suc n) s =
     and_then (sr_read S s) (\<lambda>(v, s1). and_then (read_elements S n s1) (\<lambda>(vs, s2). Inr (v # vs, s2)))"

definition length_elements :: "serializer \<Rightarrow> u32 \<Rightarrow> ros_val list \<Rightarrow> u32" where
  "length_elements S n vs = foldl (\<lambda>len v. len + sr_length S v) n vs"

section \<open>Vectors\<close>

definition VectorSerializer :: "serializer \<Rightarrow> serializer" where
  "VectorSerializer S =
     \<lparr>sr_write = (\<lambda>v s. case v of
          V_list vs \<Rightarrow> and_then (next_uint32 (of_nat (length vs)) s) (write_elements S vs) | _ \<Rightarrow> Inl Outside_object),
      sr_read = (\<lambda>s.
        and_then (read_uint32 s) (\<lambda>(len, s1).
          and_then (read_elements S (unat len) s1) (\<lambda>(vs, s2). Inr (V_list vs, s2)))),
      sr_length = (\<lambda>v. case v of V_list vs \<Rightarrow> length_elements S 4 vs | _ \<Rightarrow> 0)\<rparr>"

text \<open>
  An element of a simple type is its object in memory: \<open>size_of\<close> bytes, \<open>object_of\<close> and \<open>of_object\<close> between
  the value and its bytes. A vector that was resized and not filled holds zeros.
\<close>

primrec objects :: "nat \<Rightarrow> nat \<Rightarrow> u8 list \<Rightarrow> u8 list list" where
  "objects size_of 0 bs = []"
| "objects size_of (Suc n) bs = take size_of bs # objects size_of n (drop size_of bs)"

definition VectorSerializer_simple :: "nat \<Rightarrow> (ros_val \<Rightarrow> u8 list) \<Rightarrow> (u8 list \<Rightarrow> ros_val) \<Rightarrow> serializer" where
  "VectorSerializer_simple size_of object_of of_object =
     \<lparr>sr_write = (\<lambda>v s. case v of
          V_list vs \<Rightarrow>
            (let len = of_nat (length vs); data_len = len * of_nat size_of
             in and_then (next_uint32 len s) (\<lambda>s1.
                  if vs \<noteq> [] then copy_in data_len (take (unat data_len) (concat (map object_of vs))) s1 else Inr s1))
        | _ \<Rightarrow> Inl Outside_object),
      sr_read = (\<lambda>s.
        and_then (read_uint32 s) (\<lambda>(len, s1).
          if len > 0
          then (let data_len = of_nat size_of * len
                in and_then (copy_out data_len (unat data_len) s1) (\<lambda>(bs, s2).
                     Inr (V_list (map of_object (objects size_of (unat len)
                            (bs @ replicate (size_of * unat len - unat data_len) 0))), s2)))
          else Inr (V_list [], s1))),
      sr_length = (\<lambda>v. case v of V_list vs \<Rightarrow> 4 + of_nat (length vs) * of_nat size_of | _ \<Rightarrow> 0)\<rparr>"

definition VectorSerializer_fixed :: "serializer \<Rightarrow> serializer" where
  "VectorSerializer_fixed S =
     \<lparr>sr_write = (\<lambda>v s. case v of
          V_list vs \<Rightarrow> and_then (next_uint32 (of_nat (length vs)) s) (write_elements S vs) | _ \<Rightarrow> Inl Outside_object),
      sr_read = (\<lambda>s.
        and_then (read_uint32 s) (\<lambda>(len, s1).
          and_then (read_elements S (unat len) s1) (\<lambda>(vs, s2). Inr (V_list vs, s2)))),
      sr_length = (\<lambda>v. case v of
          V_list vs \<Rightarrow>
            (let size = 4
             in if vs \<noteq> [] then (let len_each = sr_length S (hd vs) in size + len_each * of_nat (length vs)) else size)
        | _ \<Rightarrow> 0)\<rparr>"

section \<open>Arrays and messages\<close>

definition ArraySerializer :: "serializer \<Rightarrow> nat \<Rightarrow> serializer" where
  "ArraySerializer S N =
     \<lparr>sr_write = (\<lambda>v s. case v of V_list vs \<Rightarrow> write_elements S vs s | _ \<Rightarrow> Inl Outside_object),
      sr_read = (\<lambda>s. and_then (read_elements S N s) (\<lambda>(vs, s1). Inr (V_list vs, s1))),
      sr_length = (\<lambda>v. case v of V_list vs \<Rightarrow> length_elements S 0 vs | _ \<Rightarrow> 0)\<rparr>"

definition ArraySerializer_simple :: "nat \<Rightarrow> (ros_val \<Rightarrow> u8 list) \<Rightarrow> (u8 list \<Rightarrow> ros_val) \<Rightarrow> nat \<Rightarrow> serializer" where
  "ArraySerializer_simple size_of object_of of_object N =
     (let data_len = of_nat (N * size_of) :: u32
      in \<lparr>sr_write = (\<lambda>v s. case v of
              V_list vs \<Rightarrow> copy_in data_len (take (unat data_len) (concat (map object_of vs))) s
            | _ \<Rightarrow> Inl Outside_object),
          sr_read = (\<lambda>s.
            and_then (copy_out data_len (unat data_len) s) (\<lambda>(bs, s1).
              Inr (V_list (map of_object (objects size_of N (bs @ replicate (N * size_of - unat data_len) 0))), s1))),
          sr_length = (\<lambda>_. data_len)\<rparr>)"

definition ArraySerializer_fixed :: "serializer \<Rightarrow> nat \<Rightarrow> serializer" where
  "ArraySerializer_fixed S N =
     \<lparr>sr_write = (\<lambda>v s. case v of V_list vs \<Rightarrow> write_elements S vs s | _ \<Rightarrow> Inl Outside_object),
      sr_read = (\<lambda>s. and_then (read_elements S N s) (\<lambda>(vs, s1). Inr (V_list vs, s1))),
      sr_length = (\<lambda>v. case v of V_list vs \<Rightarrow> sr_length S (hd vs) * of_nat N | _ \<Rightarrow> 0)\<rparr>"

text \<open>
  A message declares one \<open>allInOne\<close> function, which passes its fields to the stream one after the other; the
  length is that of a stream which counts.
\<close>

primrec write_fields :: "serializer list \<Rightarrow> ros_val list \<Rightarrow> ser_stream \<Rightarrow> ser_error + ser_stream" where
  "write_fields [] vs s = Inr s"
| "write_fields (S # Ss) vs s =
     (case vs of [] \<Rightarrow> Inl Outside_object | v # vs' \<Rightarrow> and_then (sr_write S v s) (write_fields Ss vs'))"

primrec read_fields :: "serializer list \<Rightarrow> ser_stream \<Rightarrow> ser_error + ros_val list \<times> ser_stream" where
  "read_fields [] s = Inr ([], s)"
| "read_fields (S # Ss) s =
     and_then (sr_read S s) (\<lambda>(v, s1). and_then (read_fields Ss s1) (\<lambda>(vs, s2). Inr (v # vs, s2)))"

definition lstream_next :: "serializer \<Rightarrow> ros_val \<Rightarrow> u32 \<Rightarrow> u32" where
  "lstream_next S v count = count + sr_length S v"

primrec length_fields :: "serializer list \<Rightarrow> ros_val list \<Rightarrow> u32 \<Rightarrow> u32" where
  "length_fields [] vs count = count"
| "length_fields (S # Ss) vs count =
     (case vs of [] \<Rightarrow> count | v # vs' \<Rightarrow> length_fields Ss vs' (lstream_next S v count))"

definition allInOne_Serializer :: "serializer list \<Rightarrow> serializer" where
  "allInOne_Serializer Ss =
     \<lparr>sr_write = (\<lambda>v s. case v of V_struct vs \<Rightarrow> write_fields Ss vs s | _ \<Rightarrow> Inl Outside_object),
      sr_read = (\<lambda>s. and_then (read_fields Ss s) (\<lambda>(vs, s1). Inr (V_struct vs, s1))),
      sr_length = (\<lambda>v. case v of V_struct vs \<Rightarrow> length_fields Ss vs 0 | _ \<Rightarrow> 0)\<rparr>"

section \<open>The serialiser of a type\<close>

datatype ros_type =
    T_prim nat | T_bool | T_string | T_time | T_duration
  | T_vector ros_type | T_array ros_type nat | T_struct "ros_type list"

record type_traits =
  IsSimple :: "ros_type \<Rightarrow> bool"
  IsFixedSize :: "ros_type \<Rightarrow> bool"

text \<open>The objects of the types that can be simple.\<close>

fun ros_sizeof :: "ros_type \<Rightarrow> nat" where
  "ros_sizeof (T_prim n) = n"
| "ros_sizeof T_time = 8"
| "ros_sizeof T_duration = 8"
| "ros_sizeof _ = 0"

fun object_bytes :: "ros_val \<Rightarrow> u8 list" where
  "object_bytes (V_prim bs) = bs"
| "object_bytes (V_time sec nsec) = le_bytes 4 sec @ le_bytes 4 nsec"
| "object_bytes (V_duration sec nsec) = le_bytes 4 sec @ le_bytes 4 nsec"
| "object_bytes _ = []"

fun object_value :: "ros_type \<Rightarrow> u8 list \<Rightarrow> ros_val" where
  "object_value T_time bs = V_time (le_word (take 4 bs)) (le_word (drop 4 bs))"
| "object_value T_duration bs = V_duration (le_word (take 4 bs)) (le_word (drop 4 bs))"
| "object_value _ bs = V_prim bs"

primrec Serializer :: "type_traits \<Rightarrow> ros_type \<Rightarrow> serializer" where
  "Serializer tr (T_prim n) = simple_Serializer n"
| "Serializer tr T_bool = bool_Serializer"
| "Serializer tr T_string = string_Serializer"
| "Serializer tr T_time = time_Serializer"
| "Serializer tr T_duration = duration_Serializer"
| "Serializer tr (T_vector T) =
     (if \<not> IsFixedSize tr T then VectorSerializer (Serializer tr T)
      else if IsSimple tr T then VectorSerializer_simple (ros_sizeof T) object_bytes (object_value T)
      else VectorSerializer_fixed (Serializer tr T))"
| "Serializer tr (T_array T N) =
     (if \<not> IsFixedSize tr T then ArraySerializer (Serializer tr T) N
      else if IsSimple tr T then ArraySerializer_simple (ros_sizeof T) object_bytes (object_value T) N
      else ArraySerializer_fixed (Serializer tr T) N)"
| "Serializer tr (T_struct Ts) = allInOne_Serializer (map (Serializer tr) Ts)"

section \<open>Whole messages\<close>

record SerializedMessage =
  sm_buf :: "u8 list"
  sm_num_bytes :: u32
  sm_message_start :: "nat option"

text \<open>\<open>fresh\<close> has the bytes of the memory that is allocated for the message.\<close>

definition serializeMessage :: "(nat \<Rightarrow> u8) \<Rightarrow> serializer \<Rightarrow> ros_val \<Rightarrow> ser_error + SerializedMessage" where
  "serializeMessage fresh S message =
     (let len = sr_length S message;
          num_bytes = len + 4;
          s = new_stream (map fresh [0..<unat num_bytes]) 0 num_bytes
      in and_then (next_uint32 (num_bytes - 4) s) (\<lambda>s1.
           and_then (sr_write S message s1) (\<lambda>s2.
             Inr \<lparr>sm_buf = ss_buf s2, sm_num_bytes = num_bytes, sm_message_start = Some (ss_data s1)\<rparr>)))"

definition serializeServiceResponse ::
  "(nat \<Rightarrow> u8) \<Rightarrow> bool \<Rightarrow> serializer \<Rightarrow> ros_val \<Rightarrow> ser_error + SerializedMessage"
where
  "serializeServiceResponse fresh ok S message =
     (let len = sr_length S message
      in if ok
         then (let num_bytes = len + 5;
                   s = new_stream (map fresh [0..<unat num_bytes]) 0 num_bytes
               in and_then (sr_write (simple_Serializer 1) (V_prim [1]) s) (\<lambda>s1.
                    and_then (next_uint32 (num_bytes - 5) s1) (\<lambda>s2.
                      and_then (sr_write S message s2) (\<lambda>s3.
                        Inr \<lparr>sm_buf = ss_buf s3, sm_num_bytes = num_bytes, sm_message_start = None\<rparr>))))
         else (let num_bytes = len + 1;
                   s = new_stream (map fresh [0..<unat num_bytes]) 0 num_bytes
               in and_then (sr_write (simple_Serializer 1) (V_prim [0]) s) (\<lambda>s1.
                    and_then (sr_write S message s1) (\<lambda>s2.
                      Inr \<lparr>sm_buf = ss_buf s2, sm_num_bytes = num_bytes, sm_message_start = None\<rparr>))))"

definition deserializeMessage :: "serializer \<Rightarrow> SerializedMessage \<Rightarrow> ser_error + ros_val" where
  "deserializeMessage S m =
     (case sm_message_start m of
        None \<Rightarrow> Inl Outside_object
      | Some start \<Rightarrow>
          and_then (sr_read S (new_stream (sm_buf m) start (sm_num_bytes m - of_nat start))) (\<lambda>(v, s). Inr v))"

end
