(* ===== verification/Ros_Serializers.thy ===== *)
theory Ros_Serializers
  imports Ros_Serialization "HOL-Library.Sublist"
begin

text \<open>
  Correctness of the ROS 1 serialisers. A small calculus says which bytes a writer produces and which bytes
  a reader turns into which value; the locale \<open>serializer_laws\<close> is the contract every serialiser fulfils, kept by
  each of the vector, array and message templates, so that it holds for every type of messages.
\<close>

section \<open>A calculus of readers and writers\<close>

definition stream_ok :: "ser_stream \<Rightarrow> bool" where
  "stream_ok s \<longleftrightarrow> ss_data s \<le> ss_end s \<and> ss_end s \<le> length (ss_buf s)"

definition ahead :: "ser_stream \<Rightarrow> u8 list" where
  "ahead s = take (ss_end s - ss_data s) (drop (ss_data s) (ss_buf s))"

definition put :: "u8 list \<Rightarrow> ser_stream \<Rightarrow> ser_stream" where
  "put bs s = s\<lparr>ss_buf := take (ss_data s) (ss_buf s) @ bs @ drop (ss_data s + length bs) (ss_buf s),
                ss_data := ss_data s + length bs\<rparr>"

definition skip :: "nat \<Rightarrow> ser_stream \<Rightarrow> ser_stream" where
  "skip n s = s\<lparr>ss_data := ss_data s + n\<rparr>"

text \<open>Writing exactly these bytes, or running past the end; reading a value from exactly these bytes.\<close>

definition writes :: "(ser_stream \<Rightarrow> ser_error + ser_stream) \<Rightarrow> u8 list \<Rightarrow> bool" where
  "writes w bs \<longleftrightarrow>
     (\<forall>s. stream_ok s \<longrightarrow>
        w s = (if length bs \<le> length (ahead s) then Inr (put bs s) else Inl StreamOverrunException))"

definition reads :: "(ser_stream \<Rightarrow> ser_error + 'v \<times> ser_stream) \<Rightarrow> u8 list \<Rightarrow> 'v \<Rightarrow> bool" where
  "reads r bs x \<longleftrightarrow>
     (\<forall>s. stream_ok s \<longrightarrow>
        (\<forall>t. ahead s = bs @ t \<longrightarrow> r s = Inr (x, skip (length bs) s)) \<and>
        (strict_prefix (ahead s) bs \<longrightarrow> r s = Inl StreamOverrunException))"

definition safe_reader :: "(ser_stream \<Rightarrow> ser_error + 'v \<times> ser_stream) \<Rightarrow> bool" where
  "safe_reader r \<longleftrightarrow>
     (\<forall>s. stream_ok s \<longrightarrow>
        (case r s of Inl e \<Rightarrow> e = StreamOverrunException
         | Inr (x, s') \<Rightarrow> \<exists>n \<le> length (ahead s). s' = skip n s))"

lemma length_ahead: "stream_ok s \<Longrightarrow> length (ahead s) = ss_end s - ss_data s"
  by (auto simp: stream_ok_def ahead_def)

lemma put_ok:
  assumes "stream_ok s" "length bs \<le> length (ahead s)"
  shows "stream_ok (put bs s)" "length (ahead (put bs s)) = length (ahead s) - length bs"
proof -
  show ok: "stream_ok (put bs s)" using assms by (auto simp: length_ahead stream_ok_def put_def)
  show "length (ahead (put bs s)) = length (ahead s) - length bs"
    unfolding length_ahead [OF ok] length_ahead [OF assms(1)] by (simp add: put_def)
qed

lemma put_append: "stream_ok s \<Longrightarrow> put (bs @ cs) s = put cs (put bs s)"
  by (simp add: put_def stream_ok_def min_def ac_simps)

lemma put_Nil [simp]: "stream_ok s \<Longrightarrow> put [] s = s"
  by (simp add: put_def)

lemma skip_skip [simp]: "skip n (skip k s) = skip (k + n) s" "skip 0 s = s"
  by (simp_all add: skip_def add.assoc)

lemma skip_ok:
  assumes "stream_ok s" "n \<le> length (ahead s)"
  shows "stream_ok (skip n s)" "ahead (skip n s) = drop n (ahead s)"
  using assms by (auto simp: length_ahead stream_ok_def skip_def ahead_def drop_take add.commute)

lemma writes_then:
  assumes "writes w1 bs" "writes w2 cs"
  shows "writes (\<lambda>s. and_then (w1 s) w2) (bs @ cs)"
  unfolding writes_def
proof (intro allI impI)
  fix s assume ok: "stream_ok s"
  show "and_then (w1 s) w2 = (if length (bs @ cs) \<le> length (ahead s) then Inr (put (bs @ cs) s) else Inl StreamOverrunException)"
  proof (cases "length bs \<le> length (ahead s)")
    case True
    then show ?thesis using assms ok put_ok [OF ok True] by (auto simp: writes_def put_append)
  next
    case False
    then show ?thesis using assms(1) ok by (simp add: writes_def)
  qed
qed

lemma writes_nothing: "writes Inr []"
  by (simp add: writes_def)

lemma prefix_cases:
  assumes "strict_prefix as (bs @ cs)"
  shows "strict_prefix as bs \<or> (\<exists>t. as = bs @ t \<and> strict_prefix t cs)"
  using assms by (metis append_eq_append_conv2 prefix_order.le_less strict_prefixE' strict_prefixI' prefix_def
      prefix_append same_prefix_prefix prefix_order.less_le append_self_conv)

lemma reads_then:
  assumes "reads r1 bs x" "reads (r2 x) cs y"
  shows "reads (\<lambda>s. and_then (r1 s) (\<lambda>(x, s1). r2 x s1)) (bs @ cs) y"
  unfolding reads_def
proof (intro allI impI conjI)
  fix s t assume ok: "stream_ok s" and a: "ahead s = (bs @ cs) @ t"
  have "r1 s = Inr (x, skip (length bs) s)" using assms(1) ok a by (simp add: reads_def)
  moreover have "stream_ok (skip (length bs) s)" "ahead (skip (length bs) s) = cs @ t"
    using skip_ok [OF ok, of "length bs"] a by simp_all
  ultimately show "and_then (r1 s) (\<lambda>(x, s1). r2 x s1) = Inr (y, skip (length (bs @ cs)) s)"
    using assms(2) by (simp add: reads_def)
next
  fix s assume ok: "stream_ok s" and a: "strict_prefix (ahead s) (bs @ cs)"
  show "and_then (r1 s) (\<lambda>(x, s1). r2 x s1) = Inl StreamOverrunException"
  proof (cases "strict_prefix (ahead s) bs")
    case True
    then show ?thesis using assms(1) ok by (simp add: reads_def)
  next
    case False
    then obtain t where t: "ahead s = bs @ t" "strict_prefix t cs" using prefix_cases [OF a] by blast
    have "r1 s = Inr (x, skip (length bs) s)" using assms(1) ok t(1) by (simp add: reads_def)
    moreover have "stream_ok (skip (length bs) s)" "ahead (skip (length bs) s) = t"
      using skip_ok [OF ok, of "length bs"] t(1) by simp_all
    ultimately show ?thesis using assms(2) t(2) by (simp add: reads_def)
  qed
qed

lemma reads_nothing: "reads (\<lambda>s. Inr (x, s)) [] x"
  by (simp add: reads_def)

lemma reads_map: "reads r bs x \<Longrightarrow> reads (\<lambda>s. and_then (r s) (\<lambda>(x, s1). Inr (f x, s1))) bs (f x)"
  using reads_then [OF _ reads_nothing, of r bs x "\<lambda>x. f x"] by simp

lemma safe_then:
  assumes "safe_reader r1" "\<And>x. safe_reader (r2 x)"
  shows "safe_reader (\<lambda>s. and_then (r1 s) (\<lambda>(x, s1). r2 x s1))"
  unfolding safe_reader_def
proof (intro allI impI)
  fix s assume ok: "stream_ok s"
  show "case and_then (r1 s) (\<lambda>(x, s1). r2 x s1) of Inl e \<Rightarrow> e = StreamOverrunException
     | Inr (x, s') \<Rightarrow> \<exists>n \<le> length (ahead s). s' = skip n s"
  proof (cases "r1 s")
    case (Inl e)
    then show ?thesis using assms(1) ok by (auto simp: safe_reader_def split: sum.splits)
  next
    case (Inr p)
    obtain x s1 where p: "p = (x, s1)" by fastforce
    obtain n where n: "n \<le> length (ahead s)" "s1 = skip n s"
      using assms(1) ok Inr p by (auto simp: safe_reader_def split: sum.splits)
    note sk = skip_ok [OF ok n(1)]
    have r2: "case r2 x s1 of Inl e \<Rightarrow> e = StreamOverrunException | Inr (y, s') \<Rightarrow> \<exists>k \<le> length (ahead s1). s' = skip k s1"
      using assms(2) [of x] sk(1) unfolding n(2) safe_reader_def by blast
    have "\<exists>k' \<le> length (ahead s). skip k s1 = skip k' s" if "k \<le> length (ahead s1)" for k
      using that n sk(2) by (intro exI [of _ "n + k"]) auto
    then show ?thesis using Inr p r2 by (auto split: sum.splits)
  qed
qed

lemma safe_return: "safe_reader (\<lambda>s. Inr (x, s))"
  by (auto simp: safe_reader_def intro: exI [of _ 0])

lemma safe_map: "safe_reader r \<Longrightarrow> safe_reader (\<lambda>s. and_then (r s) (\<lambda>(x, s1). Inr (f x, s1)))"
  by (rule safe_then [of r "\<lambda>x s. Inr (f x, s)"]) (simp_all add: safe_return)

lemma advance_outcome:
  "stream_ok s \<Longrightarrow> ss_advance len s =
     (if unat len \<le> length (ahead s) then Inr (ss_data s, skip (unat len) s) else Inl StreamOverrunException)"
  by (auto simp: ss_advance_def length_ahead stream_ok_def skip_def)

lemma copy_in_writes:
  assumes "length bs < 2 ^ 32"
  shows "writes (copy_in (of_nat (length bs)) bs) bs"
  unfolding writes_def
proof (intro allI impI)
  fix s assume ok: "stream_ok s"
  have u: "unat (of_nat (length bs) :: u32) = length bs" using assms by (simp add: unat_of_nat_less)
  show "copy_in (of_nat (length bs)) bs s = (if length bs \<le> length (ahead s) then Inr (put bs s) else Inl StreamOverrunException)"
    using ok by (auto simp: copy_in_def advance_outcome [OF ok] u length_ahead stream_ok_def skip_def put_def)
qed

lemma copy_out_reads:
  assumes "length bs < 2 ^ 32" "len = of_nat (length bs)" "n = length bs"
  shows "reads (copy_out len n) bs bs"
  unfolding reads_def
proof (intro allI impI conjI)
  have u: "unat len = length bs" using assms by (simp add: unat_of_nat_less)
  fix s t assume ok: "stream_ok s" and a: "ahead s = bs @ t"
  have "ss_data s + length bs \<le> length (ss_buf s)" "take (length bs) (drop (ss_data s) (ss_buf s)) = bs"
  proof -
    have l: "length bs \<le> ss_end s - ss_data s" using a length_ahead [OF ok] by (metis le_add1 length_append)
    then show "ss_data s + length bs \<le> length (ss_buf s)" using ok by (auto simp: stream_ok_def)
    have "take (length bs) (ahead s) = take (length bs) (drop (ss_data s) (ss_buf s))" using l by (simp add: ahead_def min_def)
    then show "take (length bs) (drop (ss_data s) (ss_buf s)) = bs" using a by simp
  qed
  then show "copy_out len n s = Inr (bs, skip (length bs) s)"
    using a by (simp add: copy_out_def advance_outcome [OF ok] u assms(3) skip_def)
next
  have u: "unat len = length bs" using assms by (simp add: unat_of_nat_less)
  fix s assume ok: "stream_ok s" and "strict_prefix (ahead s) bs"
  then have "length (ahead s) < length bs" by (simp add: prefix_length_less)
  then show "copy_out len n s = Inl StreamOverrunException" by (simp add: copy_out_def advance_outcome [OF ok] u)
qed

lemma copy_out_safe: "n \<le> unat len \<Longrightarrow> safe_reader (copy_out len n)"
  unfolding safe_reader_def
proof (intro allI impI)
  fix s assume n: "n \<le> unat len" and ok: "stream_ok s"
  have "unat len \<le> length (ahead s) \<Longrightarrow> ss_data s + n \<le> length (ss_buf s)"
    using n ok by (auto simp: length_ahead stream_ok_def)
  then show "case copy_out len n s of Inl e \<Rightarrow> e = StreamOverrunException | Inr (x, s') \<Rightarrow> \<exists>n \<le> length (ahead s). s' = skip n s"
    using ok by (auto simp: copy_out_def advance_outcome [OF ok] skip_def)
qed

lemma writes_copy: "length bs < 2 ^ 32 \<Longrightarrow> len = of_nat (length bs) \<Longrightarrow> writes (copy_in len bs) bs"
  using copy_in_writes by simp

lemma next_uint32_writes: "writes (next_uint32 w) (le_bytes 4 w)"
proof -
  have "next_uint32 w = copy_in 4 (le_bytes 4 w)" by (rule ext) (simp add: next_uint32_def simple_Serializer_def)
  then show ?thesis using writes_copy [of "le_bytes 4 w" 4] by simp
qed

lemma read_uint32_eq: "read_uint32 = (\<lambda>s. and_then (copy_out 4 4 s) (\<lambda>(bs, s'). Inr (le_word bs, s')))"
  by (rule ext) (simp add: read_uint32_def simple_Serializer_def and_then_def split: sum.split)

lemma read_uint32_reads: "reads read_uint32 (le_bytes 4 w) (w :: u32)"
proof -
  have "reads (copy_out 4 4) (le_bytes 4 w) (le_bytes 4 w)" by (rule copy_out_reads) simp_all
  from reads_map [OF this, of "le_word :: u8 list \<Rightarrow> u32"] show ?thesis by (simp add: read_uint32_eq le_word_le_bytes)
qed

lemma read_uint32_safe: "safe_reader read_uint32"
  unfolding read_uint32_eq by (intro safe_map copy_out_safe) simp

section \<open>What a serialiser promises\<close>

text \<open>
  The interface the templates rely on when they are nested: a serialiser writes the encoding of a value, reads
  it back, knows its length, and never reads outside the stream.
\<close>

locale serializer_laws =
  fixes S :: serializer and ok :: "ros_val \<Rightarrow> bool" and enc :: "ros_val \<Rightarrow> u8 list"
  assumes write_ok: "ok v \<Longrightarrow> length (enc v) < 2 ^ 32 \<Longrightarrow> writes (sr_write S v) (enc v)"
    and read_ok: "ok v \<Longrightarrow> length (enc v) < 2 ^ 32 \<Longrightarrow> reads (sr_read S) (enc v) v"
    and length_ok: "ok v \<Longrightarrow> sr_length S v = of_nat (length (enc v))"
    and read_safe: "safe_reader (sr_read S)"
begin

definition enc_list :: "ros_val list \<Rightarrow> u8 list" where
  "enc_list vs = concat (map enc vs)"

lemma write_elements_ok:
  "(\<And>v. v \<in> set vs \<Longrightarrow> ok v) \<Longrightarrow> length (enc_list vs) < 2 ^ 32 \<Longrightarrow> writes (write_elements S vs) (enc_list vs)"
proof (induction vs)
  case Nil
  have "write_elements S [] = Inr" by (rule ext) simp
  then show ?case using writes_nothing by (simp add: enc_list_def)
next
  case (Cons v vs)
  have e: "enc_list (v # vs) = enc v @ enc_list vs" by (simp add: enc_list_def)
  have "writes (\<lambda>s. and_then (sr_write S v s) (write_elements S vs)) (enc v @ enc_list vs)"
    using Cons e by (intro writes_then write_ok) simp_all
  moreover have "write_elements S (v # vs) = (\<lambda>s. and_then (sr_write S v s) (write_elements S vs))" by (rule ext) simp
  ultimately show ?case by (simp add: e)
qed

lemma read_elements_ok:
  "(\<And>v. v \<in> set vs \<Longrightarrow> ok v) \<Longrightarrow> length (enc_list vs) < 2 ^ 32 \<Longrightarrow>
     reads (read_elements S (length vs)) (enc_list vs) vs"
proof (induction vs)
  case Nil
  have "read_elements S 0 = (\<lambda>s. Inr ([], s))" by (rule ext) simp
  then show ?case using reads_nothing by (simp add: enc_list_def)
next
  case (Cons v vs)
  have e: "enc_list (v # vs) = enc v @ enc_list vs" by (simp add: enc_list_def)
  have "reads (read_elements S (length vs)) (enc_list vs) vs" using Cons e by simp
  note r = reads_map [OF this, of "(#) v"]
  have "reads (\<lambda>s. and_then (sr_read S s) (\<lambda>(v, s1). and_then (read_elements S (length vs) s1) (\<lambda>(vs, s2). Inr (v # vs, s2))))
      (enc v @ enc_list vs) (v # vs)"
    by (rule reads_then [where ?r2.0 = "\<lambda>v s1. and_then (read_elements S (length vs) s1) (\<lambda>(vs, s2). Inr (v # vs, s2))"])
      (use Cons.prems e read_ok r in simp_all)
  moreover have "read_elements S (Suc (length vs)) =
      (\<lambda>s. and_then (sr_read S s) (\<lambda>(v, s1). and_then (read_elements S (length vs) s1) (\<lambda>(vs, s2). Inr (v # vs, s2))))"
    by (rule ext) simp
  ultimately show ?case by (simp add: e)
qed

lemma read_elements_safe: "safe_reader (read_elements S n)"
proof (induction n)
  case 0
  have "read_elements S 0 = (\<lambda>s. Inr ([], s))" by (rule ext) simp
  then show ?case using safe_return by simp
next
  case (Suc n)
  have "read_elements S (Suc n) =
      (\<lambda>s. and_then (sr_read S s) (\<lambda>(v, s1). and_then (read_elements S n s1) (\<lambda>(vs, s2). Inr (v # vs, s2))))"
    by (rule ext) simp
  then show ?case using safe_then [where ?r2.0 = "\<lambda>v s1. and_then (read_elements S n s1) (\<lambda>(vs, s2). Inr (v # vs, s2))",
      OF read_safe safe_map [OF Suc]] by simp
qed

lemma length_elements_ok:
  "(\<And>v. v \<in> set vs \<Longrightarrow> ok v) \<Longrightarrow> length_elements S n vs = n + of_nat (length (enc_list vs))"
  unfolding length_elements_def
  by (induction vs arbitrary: n) (simp_all add: enc_list_def length_ok)

definition ok_vector :: "ros_val \<Rightarrow> bool" where
  "ok_vector v = (case v of V_list vs \<Rightarrow> length vs < 2 ^ 32 \<and> list_all ok vs | _ \<Rightarrow> False)"

definition enc_vector :: "ros_val \<Rightarrow> u8 list" where
  "enc_vector v = (case v of V_list vs \<Rightarrow> le_bytes 4 (of_nat (length vs) :: u32) @ enc_list vs | _ \<Rightarrow> [])"

definition ok_array :: "nat \<Rightarrow> ros_val \<Rightarrow> bool" where
  "ok_array N v = (case v of V_list vs \<Rightarrow> length vs = N \<and> list_all ok vs | _ \<Rightarrow> False)"

definition enc_array :: "ros_val \<Rightarrow> u8 list" where
  "enc_array v = (case v of V_list vs \<Rightarrow> enc_list vs | _ \<Rightarrow> [])"

lemma ok_vectorE:
  assumes "ok_vector v"
  obtains vs where "v = V_list vs" "length vs < 2 ^ 32" "\<forall>x \<in> set vs. ok x"
    "enc_vector v = le_bytes 4 (of_nat (length vs) :: u32) @ enc_list vs"
  using assms by (cases v) (auto simp: ok_vector_def enc_vector_def list_all_iff)

lemma ok_arrayE:
  assumes "ok_array N v"
  obtains vs where "v = V_list vs" "length vs = N" "\<forall>x \<in> set vs. ok x" "enc_array v = enc_list vs"
  using assms by (cases v) (auto simp: ok_array_def enc_array_def list_all_iff)

lemma read_vector_safe:
  "safe_reader (\<lambda>s. and_then (read_uint32 s) (\<lambda>(len, s1).
     and_then (read_elements S (unat len) s1) (\<lambda>(vs, s2). Inr (V_list vs, s2))))"
  by (rule safe_then [where ?r2.0 = "\<lambda>len s1. and_then (read_elements S (unat len) s1) (\<lambda>(vs, s2). Inr (V_list vs, s2))",
      OF read_uint32_safe safe_map [OF read_elements_safe]])

lemma read_vector_reads:
  assumes "ok_vector v" "length (enc_vector v) < 2 ^ 32"
  shows "reads (\<lambda>s. and_then (read_uint32 s) (\<lambda>(len, s1).
     and_then (read_elements S (unat len) s1) (\<lambda>(vs, s2). Inr (V_list vs, s2)))) (enc_vector v) v"
proof -
  obtain vs where v: "v = V_list vs" "length vs < 2 ^ 32" "\<forall>x \<in> set vs. ok x"
      "enc_vector v = le_bytes 4 (of_nat (length vs) :: u32) @ enc_list vs"
    using assms(1) by (rule ok_vectorE)
  have u: "unat (of_nat (length vs) :: u32) = length vs" using v(2) by (simp add: unat_of_nat_less)
  have "reads (read_elements S (unat (of_nat (length vs) :: u32))) (enc_list vs) vs"
    unfolding u using v assms(2) by (intro read_elements_ok) simp_all
  from reads_map [OF this, of V_list] show ?thesis
    unfolding v(1,4) v(4)[unfolded v(1)]
    by (intro reads_then [where ?r2.0 = "\<lambda>len s1. and_then (read_elements S (unat len) s1) (\<lambda>(vs, s2). Inr (V_list vs, s2))",
        OF read_uint32_reads])
qed

lemma write_vector_writes:
  assumes "ok_vector v" "length (enc_vector v) < 2 ^ 32"
  shows "writes (\<lambda>s. case v of V_list vs \<Rightarrow> and_then (next_uint32 (of_nat (length vs)) s) (write_elements S vs)
     | _ \<Rightarrow> Inl Outside_object) (enc_vector v)"
proof -
  obtain vs where v: "v = V_list vs" "length vs < 2 ^ 32" "\<forall>x \<in> set vs. ok x"
      "enc_vector v = le_bytes 4 (of_nat (length vs) :: u32) @ enc_list vs"
    using assms(1) by (rule ok_vectorE)
  have "writes (\<lambda>s. and_then (next_uint32 (of_nat (length vs)) s) (write_elements S vs))
      (le_bytes 4 (of_nat (length vs) :: u32) @ enc_list vs)"
    using v assms(2) by (intro writes_then next_uint32_writes write_elements_ok) simp_all
  then show ?thesis unfolding v(4) by (simp add: v(1))
qed

lemma vector_laws: "serializer_laws (VectorSerializer S) ok_vector enc_vector"
proof unfold_locales
  fix v assume "ok_vector v"
  then show "sr_length (VectorSerializer S) v = of_nat (length (enc_vector v))"
    by (rule ok_vectorE) (simp add: VectorSerializer_def length_elements_ok)
qed (simp_all add: VectorSerializer_def read_vector_safe read_vector_reads write_vector_writes)

lemma vector_fixed_laws:
  assumes "\<And>v. ok v \<Longrightarrow> length (enc v) = n"
  shows "serializer_laws (VectorSerializer_fixed S) ok_vector enc_vector"
proof unfold_locales
  fix v assume "ok_vector v"
  then obtain vs where v: "v = V_list vs" "length vs < 2 ^ 32" "\<forall>x \<in> set vs. ok x"
      "enc_vector v = le_bytes 4 (of_nat (length vs) :: u32) @ enc_list vs"
    by (rule ok_vectorE)
  have "length (enc_list vs) = length vs * n"
    using v(3) assms by (induction vs) (simp_all add: enc_list_def)
  moreover have "vs \<noteq> [] \<Longrightarrow> sr_length S (hd vs) = of_nat n" using v(3) length_ok assms by (metis hd_in_set)
  ultimately show "sr_length (VectorSerializer_fixed S) v = of_nat (length (enc_vector v))"
    unfolding v(4) by (auto simp: VectorSerializer_fixed_def v(1))
qed (simp_all add: VectorSerializer_fixed_def read_vector_safe read_vector_reads write_vector_writes)

lemma read_array_reads:
  assumes "ok_array N v" "length (enc_array v) < 2 ^ 32"
  shows "reads (\<lambda>s. and_then (read_elements S N s) (\<lambda>(vs, s1). Inr (V_list vs, s1))) (enc_array v) v"
proof -
  obtain vs where v: "v = V_list vs" "length vs = N" "\<forall>x \<in> set vs. ok x" "enc_array v = enc_list vs"
    using assms(1) by (rule ok_arrayE)
  have "reads (read_elements S (length vs)) (enc_list vs) vs" using v assms(2) by (intro read_elements_ok) simp_all
  from reads_map [OF this, of V_list] show ?thesis unfolding v(4) by (simp add: v(1,2))
qed

lemma write_array_writes:
  assumes "ok_array N v" "length (enc_array v) < 2 ^ 32"
  shows "writes (\<lambda>s. case v of V_list vs \<Rightarrow> write_elements S vs s | _ \<Rightarrow> Inl Outside_object) (enc_array v)"
proof -
  obtain vs where v: "v = V_list vs" "length vs = N" "\<forall>x \<in> set vs. ok x" "enc_array v = enc_list vs"
    using assms(1) by (rule ok_arrayE)
  have "writes (write_elements S vs) (enc_list vs)" using v assms(2) by (intro write_elements_ok) simp_all
  then show ?thesis unfolding v(4) by (simp add: v(1))
qed

lemma array_laws: "serializer_laws (ArraySerializer S N) (ok_array N) enc_array"
proof unfold_locales
  fix v assume "ok_array N v"
  then show "sr_length (ArraySerializer S N) v = of_nat (length (enc_array v))"
    by (rule ok_arrayE) (simp add: ArraySerializer_def length_elements_ok)
qed (simp_all add: ArraySerializer_def safe_map [OF read_elements_safe] read_array_reads write_array_writes)

lemma constant_list:
  assumes "\<And>v. ok v \<Longrightarrow> length (enc v) = n"
  shows "\<forall>x \<in> set vs. ok x \<Longrightarrow> length (enc_list vs) = length vs * n"
  using assms by (induction vs) (simp_all add: enc_list_def)

lemma array_fixed_laws:
  assumes "\<And>v. ok v \<Longrightarrow> length (enc v) = n" "0 < N"
  shows "serializer_laws (ArraySerializer_fixed S N) (ok_array N) enc_array"
proof unfold_locales
  fix v assume "ok_array N v"
  then obtain vs where v: "v = V_list vs" "length vs = N" "\<forall>x \<in> set vs. ok x" "enc_array v = enc_list vs"
    by (rule ok_arrayE)
  have "hd vs \<in> set vs" using v(2) assms(2) by auto
  then have "sr_length S (hd vs) = of_nat n" using v(3) length_ok assms(1) by simp
  then show "sr_length (ArraySerializer_fixed S N) v = of_nat (length (enc_array v))"
    unfolding v(4) by (simp add: ArraySerializer_fixed_def v(1,2) constant_list [OF assms(1) v(3)])
qed (simp_all add: ArraySerializer_fixed_def safe_map [OF read_elements_safe] read_array_reads write_array_writes)

end

lemma objects_concat: "(\<And>x. x \<in> set xs \<Longrightarrow> length x = n) \<Longrightarrow> objects n (length xs) (concat xs) = xs"
  by (induction xs) simp_all

text \<open>A simple type: the object of a value is its encoding.\<close>

locale simple_laws = serializer_laws +
  fixes size_of :: nat and object_of :: "ros_val \<Rightarrow> u8 list" and of_object :: "u8 list \<Rightarrow> ros_val"
  assumes object_enc: "ok v \<Longrightarrow> object_of v = enc v" and enc_object: "ok v \<Longrightarrow> of_object (enc v) = v"
    and enc_size: "ok v \<Longrightarrow> length (enc v) = size_of"
begin

lemma objects_list:
  assumes "\<forall>x \<in> set vs. ok x"
  shows "concat (map object_of vs) = enc_list vs" "length (enc_list vs) = length vs * size_of"
    "map of_object (objects size_of (length vs) (enc_list vs)) = vs"
proof -
  show "concat (map object_of vs) = enc_list vs" using assms by (induction vs) (simp_all add: enc_list_def object_enc)
  show "length (enc_list vs) = length vs * size_of" by (rule constant_list [OF enc_size assms])
  have "objects size_of (length vs) (enc_list vs) = map enc vs"
    using objects_concat [of "map enc vs" size_of] assms enc_size by (auto simp: enc_list_def)
  then show "map of_object (objects size_of (length vs) (enc_list vs)) = vs"
    using assms enc_object by (simp add: map_idI)
qed

abbreviation read_objects :: "u32 \<Rightarrow> nat \<Rightarrow> ser_stream \<Rightarrow> ser_error + ros_val \<times> ser_stream" where
  "read_objects data_len n \<equiv> (\<lambda>s. and_then (copy_out data_len (unat data_len) s) (\<lambda>(bs, s').
     Inr (V_list (map of_object (objects size_of n (bs @ replicate (size_of * n - unat data_len) 0))), s')))"

lemma read_objects_reads:
  assumes "\<forall>x \<in> set vs. ok x" "length (enc_list vs) < 2 ^ 32" "data_len = of_nat (length vs * size_of)"
  shows "reads (read_objects data_len (length vs)) (enc_list vs) (V_list vs)"
proof -
  note o = objects_list [OF assms(1)]
  have u: "unat data_len = length (enc_list vs)" using assms(2,3) o(2) by (simp add: unat_of_nat_less del: of_nat_mult)
  have "reads (copy_out data_len (unat data_len)) (enc_list vs) (enc_list vs)"
    using assms(2,3) o(2) u by (intro copy_out_reads) simp_all
  from reads_map [OF this, of "\<lambda>bs. V_list (map of_object (objects size_of (length vs)
      (bs @ replicate (size_of * length vs - unat data_len) 0)))"]
  show ?thesis using o u by (simp add: mult.commute)
qed

lemma read_objects_safe: "safe_reader (read_objects data_len n)"
  by (intro safe_map copy_out_safe) simp

lemma write_objects_writes:
  assumes "\<forall>x \<in> set vs. ok x" "length (enc_list vs) < 2 ^ 32" "data_len = of_nat (length vs * size_of)"
  shows "writes (copy_in data_len (take (unat data_len) (concat (map object_of vs)))) (enc_list vs)"
proof -
  note o = objects_list [OF assms(1)]
  have "unat data_len = length (enc_list vs)" using assms(2,3) o(2) by (simp add: unat_of_nat_less del: of_nat_mult)
  then show ?thesis using assms(2,3) o by (simp add: writes_copy)
qed

lemma vector_simple_laws: "serializer_laws (VectorSerializer_simple size_of object_of of_object) ok_vector enc_vector"
proof unfold_locales
  fix v assume ov: "ok_vector v"
  then obtain vs where v: "v = V_list vs" "length vs < 2 ^ 32" "\<forall>x \<in> set vs. ok x"
      "enc_vector v = le_bytes 4 (of_nat (length vs) :: u32) @ enc_list vs"
    by (rule ok_vectorE)
  note o = objects_list [OF v(3)]
  let ?V = "VectorSerializer_simple size_of object_of of_object" and ?len = "of_nat (length vs) :: u32"
  show "sr_length ?V v = of_nat (length (enc_vector v))"
    unfolding v(4) by (simp add: VectorSerializer_simple_def v(1) o(2))
  assume l: "length (enc_vector v) < 2 ^ 32"
  then have l2: "length (enc_list vs) < 2 ^ 32" by (simp add: v(4))
  let ?rest = "\<lambda>s1. if vs \<noteq> [] then copy_in (?len * of_nat size_of)
      (take (unat (?len * of_nat size_of)) (concat (map object_of vs))) s1 else Inr s1"
  have "writes ?rest (enc_list vs)"
    using write_objects_writes [OF v(3) l2] writes_nothing by (cases "vs = []") (simp_all add: enc_list_def)
  then have "writes (\<lambda>s. and_then (next_uint32 ?len s) ?rest) (enc_vector v)"
    unfolding v(4) by (rule writes_then [OF next_uint32_writes])
  then show "writes (sr_write ?V v) (enc_vector v)" by (simp add: VectorSerializer_simple_def v(1) Let_def)
  let ?more = "\<lambda>len :: u32. if len > 0 then read_objects (of_nat size_of * len) (unat len) else (\<lambda>s. Inr (V_list [], s))"
  have u: "unat ?len = length vs" using v(2) by (simp add: unat_of_nat_less)
  have "reads (?more ?len) (enc_list vs) (V_list vs)"
  proof (cases "vs = []")
    case True
    then show ?thesis using reads_nothing by (simp add: enc_list_def)
  next
    case False
    then have "0 < ?len" using u by (simp add: word_gt_0 unat_eq_zero [symmetric] flip: length_greater_0_conv)
    then show ?thesis using read_objects_reads [OF v(3) l2] u by (simp add: mult.commute)
  qed
  then have "reads (\<lambda>s. and_then (read_uint32 s) (\<lambda>(len, s1). ?more len s1)) (enc_vector v) v"
    unfolding v(4) unfolding v(1) by (rule reads_then [where ?r2.0 = ?more, OF read_uint32_reads])
  moreover have "sr_read ?V = (\<lambda>s. and_then (read_uint32 s) (\<lambda>(len, s1). ?more len s1))"
    by (simp add: VectorSerializer_simple_def Let_def if_distrib [where f = "\<lambda>r. r _"] cong: if_cong)
  ultimately show "reads (sr_read ?V) (enc_vector v) v" by simp
next
  let ?V = "VectorSerializer_simple size_of object_of of_object"
  let ?more = "\<lambda>len :: u32. if len > 0 then read_objects (of_nat size_of * len) (unat len) else (\<lambda>s. Inr (V_list [], s))"
  have "\<And>len. safe_reader (?more len)" by (simp add: read_objects_safe safe_return)
  from safe_then [OF read_uint32_safe this]
  show "safe_reader (sr_read ?V)"
    by (simp add: VectorSerializer_simple_def Let_def if_distrib [where f = "\<lambda>r. r _"] cong: if_cong)
qed

lemma array_simple_laws: "serializer_laws (ArraySerializer_simple size_of object_of of_object N) (ok_array N) enc_array"
proof unfold_locales
  let ?A = "ArraySerializer_simple size_of object_of of_object N"
  fix v assume ov: "ok_array N v"
  then obtain vs where v: "v = V_list vs" "length vs = N" "\<forall>x \<in> set vs. ok x" "enc_array v = enc_list vs"
    by (rule ok_arrayE)
  note o = objects_list [OF v(3)]
  show "sr_length ?A v = of_nat (length (enc_array v))"
    unfolding v(4) by (simp add: ArraySerializer_simple_def o(2) v(2) Let_def)
  assume "length (enc_array v) < 2 ^ 32"
  then have l: "length (enc_list vs) < 2 ^ 32" by (simp add: v(4))
  show "writes (sr_write ?A v) (enc_array v)"
    unfolding v(4) using write_objects_writes [OF v(3) l refl] by (simp add: ArraySerializer_simple_def v(1,2) Let_def)
  show "reads (sr_read ?A) (enc_array v) v"
    unfolding v(4) using read_objects_reads [OF v(3) l refl]
    by (simp add: ArraySerializer_simple_def v(1,2) Let_def mult.commute)
next
  show "safe_reader (sr_read (ArraySerializer_simple size_of object_of of_object N))"
    using read_objects_safe [of "of_nat (N * size_of)" N] by (simp add: ArraySerializer_simple_def Let_def mult.commute)
qed

end

section \<open>The encoding of a type\<close>

primrec type_ok :: "ros_type \<Rightarrow> bool" where
  "type_ok (T_prim n) \<longleftrightarrow> n \<in> {1, 2, 4, 8}"
| "type_ok T_bool \<longleftrightarrow> True"
| "type_ok T_string \<longleftrightarrow> True"
| "type_ok T_time \<longleftrightarrow> True"
| "type_ok T_duration \<longleftrightarrow> True"
| "type_ok (T_vector T) \<longleftrightarrow> type_ok T"
| "type_ok (T_array T N) \<longleftrightarrow> type_ok T \<and> 0 < N"
| "type_ok (T_struct Ts) \<longleftrightarrow> list_all id (map type_ok Ts)"

primrec has_type :: "ros_type \<Rightarrow> ros_val \<Rightarrow> bool" where
  "has_type (T_prim n) v = (case v of V_prim bs \<Rightarrow> length bs = n | _ \<Rightarrow> False)"
| "has_type T_bool v = (case v of V_bool b \<Rightarrow> True | _ \<Rightarrow> False)"
| "has_type T_string v = (case v of V_string str \<Rightarrow> True | _ \<Rightarrow> False)"
| "has_type T_time v = (case v of V_time sec nsec \<Rightarrow> True | _ \<Rightarrow> False)"
| "has_type T_duration v = (case v of V_duration sec nsec \<Rightarrow> True | _ \<Rightarrow> False)"
| "has_type (T_vector T) v = (case v of V_list vs \<Rightarrow> length vs < 2 ^ 32 \<and> list_all (has_type T) vs | _ \<Rightarrow> False)"
| "has_type (T_array T N) v = (case v of V_list vs \<Rightarrow> length vs = N \<and> list_all (has_type T) vs | _ \<Rightarrow> False)"
| "has_type (T_struct Ts) v = (case v of V_struct vs \<Rightarrow> list_all2 (\<lambda>p v. p v) (map has_type Ts) vs | _ \<Rightarrow> False)"

primrec wire :: "ros_type \<Rightarrow> ros_val \<Rightarrow> u8 list" where
  "wire (T_prim n) v = (case v of V_prim bs \<Rightarrow> bs | _ \<Rightarrow> [])"
| "wire T_bool v = (case v of V_bool b \<Rightarrow> [if b then 1 else 0] | _ \<Rightarrow> [])"
| "wire T_string v = (case v of V_string str \<Rightarrow> le_bytes 4 (of_nat (length str) :: u32) @ str | _ \<Rightarrow> [])"
| "wire T_time v = (case v of V_time sec nsec \<Rightarrow> le_bytes 4 sec @ le_bytes 4 nsec | _ \<Rightarrow> [])"
| "wire T_duration v = (case v of V_duration sec nsec \<Rightarrow> le_bytes 4 sec @ le_bytes 4 nsec | _ \<Rightarrow> [])"
| "wire (T_vector T) v =
     (case v of V_list vs \<Rightarrow> le_bytes 4 (of_nat (length vs) :: u32) @ concat (map (wire T) vs) | _ \<Rightarrow> [])"
| "wire (T_array T N) v = (case v of V_list vs \<Rightarrow> concat (map (wire T) vs) | _ \<Rightarrow> [])"
| "wire (T_struct Ts) v = (case v of V_struct vs \<Rightarrow> concat (map2 (\<lambda>w v. w v) (map wire Ts) vs) | _ \<Rightarrow> [])"

lemma prim_laws:
  assumes "n \<in> {1, 2, 4, 8}"
  shows "simple_laws (simple_Serializer n) (has_type (T_prim n)) (wire (T_prim n)) n object_bytes (object_value (T_prim n))"
proof unfold_locales
  fix v assume "has_type (T_prim n) v"
  then obtain bs where v: "v = V_prim bs" "length bs = n" by (auto split: ros_val.splits)
  show "sr_length (simple_Serializer n) v = of_nat (length (wire (T_prim n) v))" by (simp add: v simple_Serializer_def)
  have l: "length bs < 2 ^ 32" using assms v(2) by auto
  show "writes (sr_write (simple_Serializer n) v) (wire (T_prim n) v)"
    using writes_copy [OF l, of "of_nat n"] v(2) by (simp add: v(1) simple_Serializer_def)
  have "reads (copy_out (of_nat n) n) bs bs" by (rule copy_out_reads [OF l]) (simp_all add: v(2))
  from reads_map [OF this, of V_prim]
  show "reads (sr_read (simple_Serializer n)) (wire (T_prim n) v) v" by (simp add: v(1) simple_Serializer_def)
  show "object_bytes v = wire (T_prim n) v" "object_value (T_prim n) (wire (T_prim n) v) = v" "length (wire (T_prim n) v) = n"
    by (simp_all add: v)
next
  have "n \<le> unat (of_nat n :: u32)" using assms by auto
  then show "safe_reader (sr_read (simple_Serializer n))"
    unfolding simple_Serializer_def serializer.select_convs by (intro safe_map copy_out_safe)
qed

interpretation bool: serializer_laws bool_Serializer "has_type T_bool" "wire T_bool"
proof unfold_locales
  fix v assume "has_type T_bool v"
  then obtain b where v: "v = V_bool b" by (cases v) simp_all
  show "sr_length bool_Serializer v = of_nat (length (wire T_bool v))" by (simp add: v bool_Serializer_def)
  show "writes (sr_write bool_Serializer v) (wire T_bool v)"
    using writes_copy [of "[if b then 1 else 0]" 1] by (simp add: v bool_Serializer_def)
  have "reads (copy_out 1 1) [if b then 1 else 0] [if b then 1 else 0]" by (rule copy_out_reads) simp_all
  from reads_map [OF this, of "\<lambda>bs. V_bool (hd bs \<noteq> 0)"]
  show "reads (sr_read bool_Serializer) (wire T_bool v) v" by (cases b) (simp_all add: v bool_Serializer_def)
next
  show "safe_reader (sr_read bool_Serializer)"
    unfolding bool_Serializer_def serializer.select_convs by (intro safe_map copy_out_safe) simp
qed

lemma two_words_reads:
  "reads (\<lambda>s. and_then (read_uint32 s) (\<lambda>(a, s1). and_then (read_uint32 s1) (\<lambda>(b, s2). Inr (f a b, s2))))
     (le_bytes 4 a @ le_bytes 4 b) (f a b)"
  by (rule reads_then [where ?r2.0 = "\<lambda>a s1. and_then (read_uint32 s1) (\<lambda>(b, s2). Inr (f a b, s2))",
      OF read_uint32_reads reads_map [OF read_uint32_reads]])

lemma two_words_safe:
  "safe_reader (\<lambda>s. and_then (read_uint32 s) (\<lambda>(a, s1). and_then (read_uint32 s1) (\<lambda>(b, s2). Inr (f a b, s2))))"
  by (rule safe_then [where ?r2.0 = "\<lambda>a s1. and_then (read_uint32 s1) (\<lambda>(b, s2). Inr (f a b, s2))",
      OF read_uint32_safe safe_map [OF read_uint32_safe]])

interpretation time: simple_laws time_Serializer "has_type T_time" "wire T_time" 8 object_bytes "object_value T_time"
proof unfold_locales
  fix v assume "has_type T_time v"
  then obtain a b where v: "v = V_time a b" by (cases v) simp_all
  show "sr_length time_Serializer v = of_nat (length (wire T_time v))" by (simp add: v time_Serializer_def)
  show "writes (sr_write time_Serializer v) (wire T_time v)"
    using writes_then [OF next_uint32_writes [of a] next_uint32_writes [of b]] by (simp add: v time_Serializer_def)
  show "reads (sr_read time_Serializer) (wire T_time v) v"
    using two_words_reads [of V_time a b] by (simp add: v time_Serializer_def)
  show "object_bytes v = wire T_time v" "object_value T_time (wire T_time v) = v" "length (wire T_time v) = 8"
    by (simp_all add: v le_word_le_bytes)
next
  show "safe_reader (sr_read time_Serializer)" using two_words_safe [of V_time] by (simp add: time_Serializer_def)
qed

interpretation duration:
  simple_laws duration_Serializer "has_type T_duration" "wire T_duration" 8 object_bytes "object_value T_duration"
proof unfold_locales
  fix v assume "has_type T_duration v"
  then obtain a b where v: "v = V_duration a b" by (cases v) simp_all
  show "sr_length duration_Serializer v = of_nat (length (wire T_duration v))" by (simp add: v duration_Serializer_def)
  show "writes (sr_write duration_Serializer v) (wire T_duration v)"
    using writes_then [OF next_uint32_writes [of a] next_uint32_writes [of b]] by (simp add: v duration_Serializer_def)
  show "reads (sr_read duration_Serializer) (wire T_duration v) v"
    using two_words_reads [of V_duration a b] by (simp add: v duration_Serializer_def)
  show "object_bytes v = wire T_duration v" "object_value T_duration (wire T_duration v) = v" "length (wire T_duration v) = 8"
    by (simp_all add: v le_word_le_bytes)
next
  show "safe_reader (sr_read duration_Serializer)" using two_words_safe [of V_duration] by (simp add: duration_Serializer_def)
qed

interpretation string: serializer_laws string_Serializer "has_type T_string" "wire T_string"
proof unfold_locales
  fix v assume "has_type T_string v"
  then obtain str where v: "v = V_string str" by (cases v) simp_all
  let ?len = "of_nat (length str) :: u32"
  show "sr_length string_Serializer v = of_nat (length (wire T_string v))" by (simp add: v string_Serializer_def)
  assume "length (wire T_string v) < 2 ^ 32"
  then have l: "length str < 2 ^ 32" by (simp add: v)
  let ?rest = "\<lambda>s. if length str > 0 then copy_in ?len str s else Inr s"
  have "writes ?rest str" using writes_copy [OF l refl] writes_nothing by (cases "str = []") simp_all
  from writes_then [OF next_uint32_writes this, of ?len]
  show "writes (sr_write string_Serializer v) (wire T_string v)" by (simp add: v string_Serializer_def)
  let ?more = "\<lambda>len :: u32. if len > 0 then (\<lambda>s1. and_then (copy_out len (unat len) s1) (\<lambda>(str, s2). Inr (V_string str, s2)))
      else (\<lambda>s. Inr (V_string [], s))"
  have u: "unat ?len = length str" using l by (simp add: unat_of_nat_less)
  have "reads (?more ?len) str (V_string str)"
  proof (cases "str = []")
    case True
    then show ?thesis using reads_nothing by simp
  next
    case False
    then have "0 < ?len" using u by (simp add: word_gt_0 unat_eq_zero [symmetric] flip: length_greater_0_conv)
    then show ?thesis using reads_map [OF copy_out_reads [OF l refl u], of V_string] by simp
  qed
  from reads_then [where ?r2.0 = ?more, OF read_uint32_reads this]
  show "reads (sr_read string_Serializer) (wire T_string v) v"
    by (simp add: v string_Serializer_def if_distrib [where f = "\<lambda>r. r _"] cong: if_cong)
next
  let ?more = "\<lambda>len :: u32. if len > 0 then (\<lambda>s1. and_then (copy_out len (unat len) s1) (\<lambda>(str, s2). Inr (V_string str, s2)))
      else (\<lambda>s. Inr (V_string [], s))"
  have "\<And>len. safe_reader (?more len)" by (simp add: safe_return safe_map [OF copy_out_safe])
  from safe_then [where ?r2.0 = ?more, OF read_uint32_safe this]
  show "safe_reader (sr_read string_Serializer)"
    by (simp add: string_Serializer_def if_distrib [where f = "\<lambda>r. r _"] cong: if_cong)
qed

section \<open>Messages of any type\<close>

abbreviation laws_for :: "serializer \<Rightarrow> ros_type \<Rightarrow> bool" where
  "laws_for S T \<equiv> serializer_laws S (has_type T) (wire T)"

lemma has_type_struct_Cons: "has_type (T_struct (T # Ts)) (V_struct vs) \<Longrightarrow>
    \<exists>v vs'. vs = v # vs' \<and> has_type T v \<and> has_type (T_struct Ts) (V_struct vs')"
  by (auto simp: list_all2_Cons1)

lemma wire_struct_Cons [simp]: "wire (T_struct (T # Ts)) (V_struct (v # vs)) = wire T v @ wire (T_struct Ts) (V_struct vs)"
  by simp

lemma fields_write:
  assumes "list_all2 laws_for Ss Ts" "has_type (T_struct Ts) (V_struct vs)" "length (wire (T_struct Ts) (V_struct vs)) < 2 ^ 32"
  shows "writes (write_fields Ss vs) (wire (T_struct Ts) (V_struct vs))"
  using assms
proof (induction arbitrary: vs rule: list_all2_induct)
  case Nil
  have "write_fields [] vs = Inr" by (rule ext) simp
  then show ?case using writes_nothing by simp
next
  case (Cons S Ss T Ts)
  obtain v vs' where vs: "vs = v # vs'" "has_type T v" "has_type (T_struct Ts) (V_struct vs')"
    using has_type_struct_Cons [OF Cons.prems(1)] by blast
  have l: "length (wire T v) < 2 ^ 32" "length (wire (T_struct Ts) (V_struct vs')) < 2 ^ 32"
    using Cons.prems(2) unfolding vs(1) wire_struct_Cons by simp_all
  have "write_fields (S # Ss) vs = (\<lambda>s. and_then (sr_write S v s) (write_fields Ss vs'))" by (rule ext) (simp add: vs(1))
  then show ?case
    using writes_then [OF serializer_laws.write_ok [OF Cons.hyps(1) vs(2) l(1)] Cons.IH [OF vs(3) l(2)]]
    unfolding vs(1) wire_struct_Cons by simp
qed

lemma fields_read:
  assumes "list_all2 laws_for Ss Ts" "has_type (T_struct Ts) (V_struct vs)" "length (wire (T_struct Ts) (V_struct vs)) < 2 ^ 32"
  shows "reads (read_fields Ss) (wire (T_struct Ts) (V_struct vs)) vs"
  using assms
proof (induction arbitrary: vs rule: list_all2_induct)
  case Nil
  have "read_fields [] = (\<lambda>s. Inr ([], s))" by (rule ext) simp
  then show ?case using Nil reads_nothing by simp
next
  case (Cons S Ss T Ts)
  obtain v vs' where vs: "vs = v # vs'" "has_type T v" "has_type (T_struct Ts) (V_struct vs')"
    using has_type_struct_Cons [OF Cons.prems(1)] by blast
  have l: "length (wire T v) < 2 ^ 32" "length (wire (T_struct Ts) (V_struct vs')) < 2 ^ 32"
    using Cons.prems(2) unfolding vs(1) wire_struct_Cons by simp_all
  let ?more = "\<lambda>v s1. and_then (read_fields Ss s1) (\<lambda>(vs, s2). Inr (v # vs, s2))"
  have "read_fields (S # Ss) = (\<lambda>s. and_then (sr_read S s) (\<lambda>(v, s1). ?more v s1))" by (rule ext) simp
  then show ?case
    using reads_then [where ?r2.0 = ?more, OF serializer_laws.read_ok [OF Cons.hyps(1) vs(2) l(1)]
        reads_map [OF Cons.IH [OF vs(3) l(2)], of "(#) v"]]
    unfolding vs(1) wire_struct_Cons by simp
qed

lemma fields_length:
  assumes "list_all2 laws_for Ss Ts" "has_type (T_struct Ts) (V_struct vs)"
  shows "length_fields Ss vs n = n + of_nat (length (wire (T_struct Ts) (V_struct vs)))"
  using assms
proof (induction arbitrary: vs n rule: list_all2_induct)
  case (Cons S Ss T Ts)
  obtain v vs' where vs: "vs = v # vs'" "has_type T v" "has_type (T_struct Ts) (V_struct vs')"
    using has_type_struct_Cons [OF Cons.prems] by blast
  show ?case
    unfolding vs(1) wire_struct_Cons
    using Cons.IH [OF vs(3), of "lstream_next S v n"] serializer_laws.length_ok [OF Cons.hyps(1) vs(2)]
    by (simp add: lstream_next_def)
qed simp

lemma fields_safe: "list_all2 laws_for Ss Ts \<Longrightarrow> safe_reader (read_fields Ss)"
proof (induction rule: list_all2_induct)
  case Nil
  have "read_fields [] = (\<lambda>s. Inr ([], s))" by (rule ext) simp
  then show ?case using safe_return by simp
next
  case (Cons S Ss T Ts)
  let ?more = "\<lambda>v s1. and_then (read_fields Ss s1) (\<lambda>(vs, s2). Inr (v # vs, s2))"
  have "read_fields (S # Ss) = (\<lambda>s. and_then (sr_read S s) (\<lambda>(v, s1). ?more v s1))" by (rule ext) simp
  then show ?case
    using safe_then [where ?r2.0 = ?more, OF serializer_laws.read_safe [OF Cons.hyps(1)] safe_map [OF Cons.IH]] by simp
qed

lemma struct_laws:
  assumes "list_all2 laws_for Ss Ts"
  shows "laws_for (allInOne_Serializer Ss) (T_struct Ts)"
proof unfold_locales
  fix v assume t: "has_type (T_struct Ts) v"
  then obtain vs where v: "v = V_struct vs" by (cases v) simp_all
  show "sr_length (allInOne_Serializer Ss) v = of_nat (length (wire (T_struct Ts) v))"
    using fields_length [OF assms, of vs 0] t by (simp only: v allInOne_Serializer_def) simp
  assume l: "length (wire (T_struct Ts) v) < 2 ^ 32"
  show "writes (sr_write (allInOne_Serializer Ss) v) (wire (T_struct Ts) v)"
    using fields_write [OF assms t [unfolded v] l [unfolded v]] unfolding v allInOne_Serializer_def by simp
  show "reads (sr_read (allInOne_Serializer Ss)) (wire (T_struct Ts) v) v"
    using reads_map [OF fields_read [OF assms t [unfolded v] l [unfolded v]], of V_struct]
    unfolding v allInOne_Serializer_def by simp
next
  show "safe_reader (sr_read (allInOne_Serializer Ss))"
    using safe_map [OF fields_safe [OF assms]] by (simp add: allInOne_Serializer_def)
qed

text \<open>
  What the package of the traits documents: values of a simple type can be copied as they are in memory, and
  values of a type of fixed size are always serialised to the same number of bytes.
\<close>

locale traits_laws =
  fixes tr :: type_traits
  assumes simple_types: "IsSimple tr T \<Longrightarrow> T \<in> {T_time, T_duration} \<or> (\<exists>n. T = T_prim n)"
    and fixed_types: "IsFixedSize tr T \<Longrightarrow> \<exists>n. \<forall>v. has_type T v \<longrightarrow> length (wire T v) = n"
begin

lemma simple_type_laws:
  assumes "IsSimple tr T" "type_ok T"
  shows "simple_laws (Serializer tr T) (has_type T) (wire T) (ros_sizeof T) object_bytes (object_value T)"
proof -
  consider "T = T_time" | "T = T_duration" | n where "T = T_prim n" using simple_types [OF assms(1)] by blast
  then show ?thesis
  proof cases
    case 1
    then show ?thesis using time.simple_laws_axioms by (simp del: has_type.simps wire.simps)
  next
    case 2
    then show ?thesis using duration.simple_laws_axioms by (simp del: has_type.simps wire.simps)
  next
    case 3
    then show ?thesis using assms(2) prim_laws [of n] by (simp del: has_type.simps wire.simps)
  qed
qed

lemma Serializer_laws: "type_ok T \<Longrightarrow> laws_for (Serializer tr T) T"
proof (induction T)
  case (T_prim n)
  then show ?case using simple_laws.axioms(1) [OF prim_laws [of n]] by (simp del: has_type.simps wire.simps)
next
  case (T_vector T)
  then have L: "laws_for (Serializer tr T) T" by simp
  have e: "serializer_laws.ok_vector (has_type T) = has_type (T_vector T)"
      "serializer_laws.enc_vector (wire T) = wire (T_vector T)"
    by (rule ext, simp add: serializer_laws.ok_vector_def [OF L] serializer_laws.enc_vector_def [OF L]
      serializer_laws.enc_list_def [OF L] split: ros_val.split)+
  show ?case
    using serializer_laws.vector_laws [OF L] serializer_laws.vector_fixed_laws [OF L] fixed_types [of T]
      simple_laws.vector_simple_laws [OF simple_type_laws [of T]] T_vector.prems
    unfolding e by (auto simp del: has_type.simps wire.simps)
next
  case (T_array T N)
  then have L: "laws_for (Serializer tr T) T" by simp
  have e: "serializer_laws.ok_array (has_type T) N = has_type (T_array T N)"
      "serializer_laws.enc_array (wire T) = wire (T_array T N)"
    by (rule ext, simp add: serializer_laws.ok_array_def [OF L] serializer_laws.enc_array_def [OF L]
      serializer_laws.enc_list_def [OF L] split: ros_val.split)+
  show ?case
    using serializer_laws.array_laws [OF L, of N] serializer_laws.array_fixed_laws [OF L, of _ N] fixed_types [of T]
      simple_laws.array_simple_laws [OF simple_type_laws [of T], of N] T_array.prems
    unfolding e by (auto simp del: has_type.simps wire.simps)
next
  case (T_struct Ts)
  have "list_all2 laws_for (map (Serializer tr) Ts) Ts"
    using T_struct by (auto simp: list_all2_conv_all_nth list_all_length)
  from struct_laws [OF this] show ?case by (simp del: has_type.simps wire.simps)
qed (simp_all add: bool.serializer_laws_axioms string.serializer_laws_axioms time.serializer_laws_axioms
    duration.serializer_laws_axioms del: has_type.simps wire.simps)

end

lemma fresh_stream:
  assumes "k \<le> unat num_bytes"
  shows "stream_ok (new_stream (map fresh [0..<unat num_bytes]) 0 num_bytes)"
    "length (ahead (new_stream (map fresh [0..<unat num_bytes]) 0 num_bytes)) = unat num_bytes"
    "ss_data (new_stream (map fresh [0..<unat num_bytes]) 0 num_bytes) = 0"
  by (simp_all add: new_stream_def stream_ok_def ahead_def)

text \<open>Filling a freshly allocated buffer exactly.\<close>

lemma writes_all:
  assumes "writes w bs" "length bs = unat num_bytes"
  shows "\<exists>s. w (new_stream (map fresh [0..<unat num_bytes]) 0 num_bytes) = Inr s \<and> ss_buf s = bs"
  using assms fresh_stream [of 0 num_bytes fresh] by (auto simp: writes_def put_def new_stream_def)

lemma reads_all:
  assumes "reads r bs v" "start + length bs = length buf" "drop start buf = bs" "unat count = length bs"
  shows "\<exists>s. r (new_stream buf start count) = Inr (v, s)"
proof -
  have "stream_ok (new_stream buf start count)" "ahead (new_stream buf start count) = bs @ []"
    using assms(2-4) by (auto simp: new_stream_def stream_ok_def ahead_def)
  then show ?thesis using assms(1) unfolding reads_def by blast
qed

lemma message_written:
  assumes "laws_for S T" "has_type T v" "length (wire T v) + length head < 2 ^ 32" "writes w head"
    and "num_bytes = of_nat (length head + length (wire T v))"
  shows "\<exists>s. and_then (w (new_stream (map fresh [0..<unat num_bytes]) 0 num_bytes)) (sr_write S v) = Inr s \<and>
    ss_buf s = head @ wire T v"
proof -
  have "writes (\<lambda>s. and_then (w s) (sr_write S v)) (head @ wire T v)"
    using assms(2,3) by (intro writes_then assms(4) serializer_laws.write_ok [OF assms(1)]) simp_all
  moreover have "length (head @ wire T v) = unat num_bytes"
    unfolding assms(5) using assms(3) by (subst unat_of_nat_less) simp_all
  ultimately show ?thesis by (rule writes_all)
qed

section \<open>Traits of the built-in types and of messages made of them\<close>

primrec fixed_size :: "ros_type \<Rightarrow> bool" where
  "fixed_size (T_prim n) \<longleftrightarrow> True"
| "fixed_size T_bool \<longleftrightarrow> True"
| "fixed_size T_string \<longleftrightarrow> False"
| "fixed_size T_time \<longleftrightarrow> True"
| "fixed_size T_duration \<longleftrightarrow> True"
| "fixed_size (T_vector T) \<longleftrightarrow> False"
| "fixed_size (T_array T N) \<longleftrightarrow> fixed_size T"
| "fixed_size (T_struct Ts) \<longleftrightarrow> list_all id (map fixed_size Ts)"

definition message_traits :: type_traits where
  "message_traits =
     \<lparr>IsSimple = (\<lambda>T. case T of T_prim n \<Rightarrow> True | T_time \<Rightarrow> True | T_duration \<Rightarrow> True | _ \<Rightarrow> False),
      IsFixedSize = fixed_size\<rparr>"

lemma struct_constant:
  assumes "\<And>T. T \<in> set Ts \<Longrightarrow> \<exists>n. \<forall>v. has_type T v \<longrightarrow> length (wire T v) = n"
  shows "\<exists>n. \<forall>vs. has_type (T_struct Ts) (V_struct vs) \<longrightarrow> length (wire (T_struct Ts) (V_struct vs)) = n"
  using assms
proof (induction Ts)
  case (Cons T Ts)
  obtain n where n: "\<forall>v. has_type T v \<longrightarrow> length (wire T v) = n" using Cons.prems by force
  obtain k where k: "\<forall>vs. has_type (T_struct Ts) (V_struct vs) \<longrightarrow> length (wire (T_struct Ts) (V_struct vs)) = k"
    using Cons by force
  have "length (wire (T_struct (T # Ts)) (V_struct vs)) = n + k" if t: "has_type (T_struct (T # Ts)) (V_struct vs)" for vs
  proof -
    obtain v vs' where vs: "vs = v # vs'" "has_type T v" "has_type (T_struct Ts) (V_struct vs')"
      using has_type_struct_Cons [OF t] by blast
    show ?thesis using n k vs(2,3) unfolding vs(1) wire_struct_Cons by simp
  qed
  then show ?case by blast
qed simp

lemma fixed_constant: "fixed_size T \<Longrightarrow> \<exists>n. \<forall>v. has_type T v \<longrightarrow> length (wire T v) = n"
proof (induction T)
  case (T_array T N)
  then obtain n where n: "\<forall>v. has_type T v \<longrightarrow> length (wire T v) = n" by auto
  have "length (concat (map (wire T) vs)) = length vs * n" if "list_all (has_type T) vs" for vs
    using that n by (induction vs) simp_all
  then show ?case by (intro exI [of _ "N * n"]) (auto split: ros_val.splits)
next
  case (T_struct Ts)
  then have "\<exists>n. \<forall>vs. has_type (T_struct Ts) (V_struct vs) \<longrightarrow> length (wire (T_struct Ts) (V_struct vs)) = n"
    by (intro struct_constant) (auto simp: list_all_iff)
  then obtain n where n: "\<forall>vs. has_type (T_struct Ts) (V_struct vs) \<longrightarrow> length (wire (T_struct Ts) (V_struct vs)) = n" by blast
  have "length (wire (T_struct Ts) v) = n" if t: "has_type (T_struct Ts) v" for v
  proof -
    obtain vs where "v = V_struct vs" using t by (cases v) simp_all
    then show ?thesis using n t by blast
  qed
  then show ?case by blast
qed (auto split: ros_val.splits)

interpretation message: traits_laws message_traits
  by unfold_locales (auto simp: message_traits_def intro: fixed_constant split: ros_type.splits)

section \<open>Properties\<close>

text \<open>
  C36: A ROS message of any type, nested as deeply as it may be, survives serialisation: the buffer allocated from the
  computed length is filled exactly, with the length first and the encoding of the fields after it, whichever
  specialisations the traits select, and reading the message back gives the same value.
\<close>

theorem ros_message_roundtrip:
  assumes "traits_laws tr" "type_ok T" "has_type T v" "length (wire T v) + 4 < 2 ^ 32"
  shows "\<exists>m. serializeMessage fresh (Serializer tr T) v = Inr m \<and>
    sm_buf m = le_bytes 4 (of_nat (length (wire T v)) :: u32) @ wire T v \<and>
    deserializeMessage (Serializer tr T) m = Inr v"
proof -
  let ?S = "Serializer tr T" and ?n = "length (wire T v)"
  have L: "laws_for ?S T" using assms(1,2) by (rule traits_laws.Serializer_laws)
  have len: "sr_length ?S v = of_nat ?n" by (rule serializer_laws.length_ok [OF L assms(3)])
  let ?nb = "of_nat (4 + ?n) :: u32" and ?head = "le_bytes 4 (of_nat ?n :: u32)"
  let ?s = "new_stream (map fresh [0..<unat ?nb]) 0 ?nb"
  have nb: "sr_length ?S v + 4 = ?nb" "?nb - 4 = of_nat ?n" by (simp_all add: len)
  have u: "unat ?nb = 4 + ?n" using assms(4) by (subst unat_of_nat_less) simp_all
  obtain s2 where s2: "and_then (next_uint32 (of_nat ?n) ?s) (sr_write ?S v) = Inr s2" "ss_buf s2 = ?head @ wire T v"
    using message_written [OF L assms(3) _ next_uint32_writes, of "of_nat ?n" ?nb fresh] assms(4) by auto
  have "next_uint32 (of_nat ?n) ?s = Inr (put ?head ?s)"
    using next_uint32_writes [of "of_nat ?n"] fresh_stream [of 0 ?nb fresh] u by (simp add: writes_def del: of_nat_add)
  moreover have "ss_data (put ?head ?s) = 4" by (simp add: put_def new_stream_def)
  ultimately have m: "serializeMessage fresh ?S v =
      Inr \<lparr>sm_buf = ?head @ wire T v, sm_num_bytes = ?nb, sm_message_start = Some 4\<rparr>" (is "_ = Inr ?m")
    using s2 unfolding serializeMessage_def Let_def nb by auto
  have "\<exists>s. sr_read ?S (new_stream (?head @ wire T v) 4 (?nb - of_nat 4)) = Inr (v, s)"
    by (rule reads_all [OF serializer_laws.read_ok [OF L assms(3)]]) (use assms(4) in \<open>simp_all add: unat_of_nat_less\<close>)
  then have "deserializeMessage ?S ?m = Inr v" unfolding deserializeMessage_def by auto
  then show ?thesis using m by simp
qed

text \<open>A message of a header (sequence number, time, frame) and a vector of points of two numbers each.\<close>

definition scan_type :: ros_type where
  "scan_type = T_struct [T_struct [T_prim 4, T_time, T_string], T_vector (T_struct [T_prim 2, T_prim 2]), T_array T_bool 2]"

definition scan :: ros_val where
  "scan = V_struct [V_struct [V_prim [1, 0, 0, 0], V_time 7 8, V_string [97, 98]],
     V_list [V_struct [V_prim [1, 2], V_prim [3, 4]]], V_list [V_bool True, V_bool False]]"

lemma scan_ok: "type_ok scan_type" "has_type scan_type scan" "length (wire scan_type scan) = 28"
  by (simp_all add: scan_type_def scan_def)

theorem ros_message_roundtrip_witness:
  "\<exists>m. serializeMessage (\<lambda>_. 0) (Serializer message_traits scan_type) scan = Inr m \<and>
     length (sm_buf m) = 32 \<and> deserializeMessage (Serializer message_traits scan_type) m = Inr scan"
  using ros_message_roundtrip [OF message.traits_laws_axioms scan_ok(1,2), of "\<lambda>_. 0"] scan_ok(3) by fastforce

text \<open>
  C37: Reading never leaves the buffer, whatever the bytes are: it returns a value and a position within the bytes
  given, or ends with the overrun exception; and every proper prefix of a message ends with the exception.
\<close>

theorem ros_read_safe:
  assumes "traits_laws tr" "type_ok T" "length bs < 2 ^ 32"
  shows "(case sr_read (Serializer tr T) (new_stream bs 0 (of_nat (length bs))) of
      Inl e \<Rightarrow> e = StreamOverrunException
    | Inr (v, s) \<Rightarrow> ss_buf s = bs \<and> ss_data s \<le> length bs) \<and>
    (has_type T v \<and> length (wire T v) < 2 ^ 32 \<and> strict_prefix bs (wire T v) \<longrightarrow>
      sr_read (Serializer tr T) (new_stream bs 0 (of_nat (length bs))) = Inl StreamOverrunException)"
proof -
  let ?s = "new_stream bs 0 (of_nat (length bs))"
  have L: "laws_for (Serializer tr T) T" using assms(1,2) by (rule traits_laws.Serializer_laws)
  have s: "stream_ok ?s" "ahead ?s = bs" "ss_buf ?s = bs" "ss_data ?s = 0"
    using assms(3) by (simp_all add: new_stream_def stream_ok_def ahead_def unat_of_nat_less)
  have "case sr_read (Serializer tr T) ?s of Inl e \<Rightarrow> e = StreamOverrunException
      | Inr (x, s') \<Rightarrow> \<exists>n \<le> length (ahead ?s). s' = skip n ?s"
    using serializer_laws.read_safe [OF L] s(1) by (simp add: safe_reader_def)
  moreover have "ss_buf (skip n ?s) = bs \<and> ss_data (skip n ?s) \<le> length bs" if "n \<le> length bs" for n
    using s that by (simp add: skip_def)
  ultimately show ?thesis
    using serializer_laws.read_ok [OF L, of v] s(1,2) by (auto simp: reads_def s(2) split: sum.splits)
qed

theorem ros_read_safe_witness:
  "sr_read (Serializer message_traits T_string) (new_stream [3, 0, 0, 0, 97] 0 5) = Inl StreamOverrunException"
proof -
  have "le_bytes 4 (3 :: u32) = [3, 0, 0, 0]" by code_simp
  then have "strict_prefix [3, 0, 0, 0, 97] (wire T_string (V_string [97, 98, 99]))" by simp
  then show ?thesis
    using ros_read_safe [OF message.traits_laws_axioms, of T_string "[3, 0, 0, 0, 97]" "V_string [97, 98, 99]"] by simp
qed

text \<open>
  The response to a service call: one byte for success, then the length and the encoding; after a failure no
  length of its own, so the caller passes a zero of four bytes as the message.
\<close>

theorem service_response_frame:
  assumes "traits_laws tr" "type_ok T" "has_type T v" "length (wire T v) + 5 < 2 ^ 32"
  shows "\<exists>m. serializeServiceResponse fresh success (Serializer tr T) v = Inr m \<and>
    sm_buf m = (if success then [1] @ le_bytes 4 (of_nat (length (wire T v)) :: u32) else [0]) @ wire T v"
proof -
  let ?S = "Serializer tr T" and ?n = "length (wire T v)"
  have L: "laws_for ?S T" using assms(1,2) by (rule traits_laws.Serializer_laws)
  have len: "sr_length ?S v = of_nat ?n" by (rule serializer_laws.length_ok [OF L assms(3)])
  have one: "writes (sr_write (simple_Serializer 1) (V_prim [b])) [b]" for b
    using simple_laws.axioms(1) [OF prim_laws [of 1], THEN serializer_laws.write_ok, of "V_prim [b]"] by simp
  show ?thesis
  proof (cases success)
    case True
    let ?w = "\<lambda>s. and_then (sr_write (simple_Serializer 1) (V_prim [1]) s) (next_uint32 (of_nat ?n))"
    let ?head = "[1] @ le_bytes 4 (of_nat ?n :: u32)" and ?nb = "of_nat (5 + ?n) :: u32"
    have nb: "sr_length ?S v + 5 = ?nb" "?nb - 5 = of_nat ?n" by (simp_all add: len)
    obtain s where "and_then (?w (new_stream (map fresh [0..<unat ?nb]) 0 ?nb)) (sr_write ?S v) = Inr s"
        "ss_buf s = ?head @ wire T v"
      using message_written [OF L assms(3) _ writes_then [OF one next_uint32_writes], of 1 "of_nat ?n" ?nb fresh] assms(4)
      by auto
    then show ?thesis
      using True unfolding serializeServiceResponse_def Let_def nb by (auto simp: and_then_def split: sum.splits)
  next
    case False
    let ?nb = "of_nat (1 + ?n) :: u32"
    have nb: "sr_length ?S v + 1 = ?nb" by (simp add: len)
    obtain s where "and_then (sr_write (simple_Serializer 1) (V_prim [0]) (new_stream (map fresh [0..<unat ?nb]) 0 ?nb))
          (sr_write ?S v) = Inr s" "ss_buf s = [0] @ wire T v"
      using message_written [OF L assms(3) _ one, of 0 ?nb fresh] assms(4) by auto
    then show ?thesis
      using False unfolding serializeServiceResponse_def Let_def nb by (auto simp: and_then_def split: sum.splits)
  qed
qed

text \<open>
  The number of bytes of a vector of four-byte elements is computed in 32 bits: a message of eight bytes is
  accepted as a vector of \<open>2 ^ 30 + 1\<close> elements, of which it has one.
\<close>

theorem vector_size_wraps:
  "\<exists>vs s. sr_read (VectorSerializer_simple 4 object_bytes (object_value (T_prim 4)))
       (new_stream (le_bytes 4 (0x40000001 :: u32) @ [a, b, c, d]) 0 8) = Inr (V_list vs, s) \<and>
     length vs = 2 ^ 30 + 1 \<and> ss_data s = 8"
proof -
  let ?s = "new_stream (le_bytes 4 (0x40000001 :: u32) @ [a, b, c, d]) 0 8"
  have ok: "stream_ok ?s" "ahead ?s = le_bytes 4 (0x40000001 :: u32) @ [a, b, c, d]"
    by (simp_all add: new_stream_def stream_ok_def ahead_def)
  have r1: "read_uint32 ?s = Inr (0x40000001, skip 4 ?s)"
    using read_uint32_reads [of "0x40000001 :: u32"] ok unfolding reads_def by (metis length_le_bytes)
  have ok2: "stream_ok (skip 4 ?s)" "ahead (skip 4 ?s) = [a, b, c, d] @ []" using skip_ok [OF ok(1), of 4] ok(2) by simp_all
  have "reads (copy_out 4 4) [a, b, c, d] [a, b, c, d]" by (rule copy_out_reads) simp_all
  then have r2: "copy_out 4 4 (skip 4 ?s) = Inr ([a, b, c, d], skip 8 ?s)" using ok2 unfolding reads_def by force
  have lo: "length (objects n k bs) = k" for n k bs by (induction k arbitrary: bs) simp_all
  have "ss_data (skip 8 ?s) = 8" by (simp add: skip_def new_stream_def)
  moreover have w: "(4294967300 :: u32) = 4" by code_simp
  ultimately show ?thesis using r1 r2 lo by (simp add: VectorSerializer_simple_def Let_def w)
qed

end
