(* ===== verification/Ros_Time.thy ===== *)
theory Ros_Time
  imports Prelude
begin

text \<open>
  \<open>ros/time.h\<close>, \<open>ros/duration.h\<close>, \<open>time.cpp\<close> and \<open>duration.cpp\<close>: instants and durations in seconds
  and nanoseconds. Every field is a 32-bit word; a signed field is read with \<open>sint\<close>. The
  operations on instants are exact modulo the range of a 32-bit seconds counter, which is the wrap
  the source's comment describes. The conversions from and to \<open>double\<close> are not modelled.
\<close>

section \<open>Data and operations\<close>

record Time =
  t_sec :: u32
  t_nsec :: u32

record Duration =
  d_sec :: u32
  d_nsec :: u32

definition normalizeSecNSec :: "u32 \<Rightarrow> u32 \<Rightarrow> u32 \<times> u32" where
  "normalizeSecNSec sec nsec =
     (let nsec_part = nsec mod 1000000000; sec_part = nsec div 1000000000
      in (sec + sec_part, nsec_part))"

definition Time_of :: "u32 \<times> u32 \<Rightarrow> Time" where
  "Time_of p = \<lparr>t_sec = fst p, t_nsec = snd p\<rparr>"

definition new_Time :: "u32 \<Rightarrow> u32 \<Rightarrow> Time" where
  "new_Time sec nsec = Time_of (normalizeSecNSec sec nsec)"

definition toNsec :: "Time \<Rightarrow> u32" where
  "toNsec t = ucast (ucast (t_sec t) * 1000000000 + ucast (t_nsec t) :: u64)"

definition sdiv_const :: "u32 \<Rightarrow> int \<Rightarrow> u32" where
  "sdiv_const t c = word_of_int (sgn (sint t) * (\<bar>sint t\<bar> div c))"

definition smod_const :: "u32 \<Rightarrow> int \<Rightarrow> u32" where
  "smod_const t c = word_of_int (sgn (sint t) * (\<bar>sint t\<bar> mod c))"

definition fromNSec :: "u32 \<Rightarrow> Time" where
  "fromNSec t = Time_of (normalizeSecNSec (sdiv_const t 1000000000) (smod_const t 1000000000))"

definition time_plus :: "Time \<Rightarrow> Duration \<Rightarrow> Time" where
  "time_plus t rhs =
     Time_of (normalizeSecNSec (t_sec t - 1 + d_sec rhs) (t_nsec t + 1000000000 + d_nsec rhs))"

definition time_minus :: "Time \<Rightarrow> Duration \<Rightarrow> Time" where
  "time_minus t rhs =
     Time_of (normalizeSecNSec (t_sec t - 1 - d_sec rhs) (t_nsec t + 1000000000 - d_nsec rhs))"

text \<open>The two loops of \<open>normalizeSecNSecSigned\<close>; the words are compared as signed numbers.\<close>

function (sequential) norm_down :: "u32 \<Rightarrow> u32 \<Rightarrow> u32 \<times> u32" where
  "norm_down sec_part nsec_part =
     (if sint nsec_part > 1000000000 then norm_down (sec_part + 1) (nsec_part - 1000000000)
      else (sec_part, nsec_part))"
  by auto

function (sequential) norm_up :: "u32 \<Rightarrow> u32 \<Rightarrow> u32 \<times> u32" where
  "norm_up sec_part nsec_part =
     (if sint nsec_part < 0 then norm_up (sec_part - 1) (nsec_part + 1000000000)
      else (sec_part, nsec_part))"
  by auto

lemma sint_u32_range: "- 2147483648 \<le> sint (w :: u32)" "sint (w :: u32) < 2147483648"
  using sint_ge [of w] sint_lt [of w] by simp_all

lemma sint_word_of_int_u32:
  "- 2147483648 \<le> i \<Longrightarrow> i < 2147483648 \<Longrightarrow> sint (word_of_int i :: u32) = i"
  by (simp add: signed_of_int signed_take_bit_int_eq_self)

lemma u32_as_sint: "w = word_of_int (sint (w :: u32))"
  by simp

lemma sint_sub_giga: "sint (w :: u32) > 1000000000 \<Longrightarrow> sint (w - 1000000000) = sint w - 1000000000"
  using sint_u32_range [of w] sint_word_of_int_u32 [of "sint w - 1000000000"]
  by (simp add: of_int_diff)

lemma sint_add_giga: "sint (w :: u32) < 0 \<Longrightarrow> sint (w + 1000000000) = sint w + 1000000000"
  using sint_u32_range [of w] sint_word_of_int_u32 [of "sint w + 1000000000"]
  by (simp add: of_int_add)

termination norm_down
  by (relation "measure (\<lambda>(_, n). nat (sint n))") (auto simp: sint_sub_giga)

termination norm_up
  by (relation "measure (\<lambda>(_, n). nat (- sint n))") (auto simp: sint_add_giga)

declare norm_down.simps [simp del] norm_up.simps [simp del]

definition normalizeSecNSecSigned :: "u32 \<Rightarrow> u32 \<Rightarrow> u32 \<times> u32" where
  "normalizeSecNSecSigned sec nsec = (case norm_down sec nsec of (s, n) \<Rightarrow> norm_up s n)"

definition Duration_of :: "u32 \<times> u32 \<Rightarrow> Duration" where
  "Duration_of p = \<lparr>d_sec = fst p, d_nsec = snd p\<rparr>"

definition new_Duration :: "u32 \<Rightarrow> u32 \<Rightarrow> Duration" where
  "new_Duration sec nsec = Duration_of (normalizeSecNSecSigned sec nsec)"

definition duration_plus :: "Duration \<Rightarrow> Duration \<Rightarrow> Duration" where
  "duration_plus d rhs =
     Duration_of (normalizeSecNSecSigned (d_sec d + d_sec rhs) (d_nsec d + d_nsec rhs))"

definition duration_minus :: "Duration \<Rightarrow> Duration \<Rightarrow> Duration" where
  "duration_minus d rhs =
     Duration_of (normalizeSecNSecSigned (d_sec d + - d_sec rhs) (d_nsec d + - d_nsec rhs))"

definition time_diff :: "Time \<Rightarrow> Time \<Rightarrow> Duration" where
  "time_diff t rhs =
     Duration_of (normalizeSecNSecSigned
       (if t_sec t > t_sec rhs then t_sec t - t_sec rhs else - (t_sec rhs - t_sec t))
       (if t_nsec t > t_nsec rhs then t_nsec t - t_nsec rhs else - (t_nsec rhs - t_nsec t)))"

section \<open>Exact arithmetic modulo the range of the seconds counter\<close>

abbreviation giga :: int where "giga \<equiv> 1000000000"

definition time_range :: int where "time_range = 2 ^ 32 * giga"

definition time_ns :: "Time \<Rightarrow> int" where
  "time_ns t = uint (t_sec t) * giga + uint (t_nsec t)"

definition duration_ns :: "Duration \<Rightarrow> int" where
  "duration_ns d = sint (d_sec d) * giga + sint (d_nsec d)"

definition time_normal :: "Time \<Rightarrow> bool" where
  "time_normal t \<longleftrightarrow> t_nsec t < 1000000000"

definition duration_normal :: "Duration \<Rightarrow> bool" where
  "duration_normal d \<longleftrightarrow> 0 \<le> sint (d_nsec d) \<and> sint (d_nsec d) \<le> giga"

lemma range_mod_mult: "x mod 2 ^ 32 * giga = (x * giga) mod time_range"
  by (simp add: time_range_def mult_mod_left)

lemma range_mod_low:
  fixes x r :: int
  assumes "0 \<le> r" "r < giga"
  shows "x mod 2 ^ 32 * giga + r = (x * giga + r) mod time_range"
proof -
  have "x mod 2 ^ 32 * giga + r = (x mod 2 ^ 32 * giga + r) mod time_range"
  proof (rule mod_pos_pos_trivial [symmetric])
    have "x mod 2 ^ 32 \<le> 2 ^ 32 - 1" by simp
    then show "x mod 2 ^ 32 * giga + r < time_range" using assms by (simp add: time_range_def)
  qed (use assms in simp)
  then show ?thesis by (metis mod_add_left_eq range_mod_mult)
qed

lemma range_mod_any: "(x mod 2 ^ 32 * giga + y) mod time_range = (x * giga + y) mod time_range"
  by (simp only: range_mod_mult mod_add_left_eq)

lemma normalizeSecNSec_ns:
  "time_ns (Time_of (normalizeSecNSec sec nsec)) = (uint sec * giga + uint nsec) mod time_range"
proof -
  have "uint (sec + nsec div 1000000000) = (uint sec + uint nsec div giga) mod 2 ^ 32"
    by (simp add: uint_word_ariths uint_div take_bit_eq_mod)
  then have "time_ns (Time_of (normalizeSecNSec sec nsec)) =
      (uint sec + uint nsec div giga) mod 2 ^ 32 * giga + uint nsec mod giga"
    by (simp add: time_ns_def Time_of_def normalizeSecNSec_def uint_mod Let_def)
  also have "\<dots> = ((uint sec + uint nsec div giga) * giga + uint nsec mod giga) mod time_range"
    by (rule range_mod_low) simp_all
  also have "(uint sec + uint nsec div giga) * giga + uint nsec mod giga = uint sec * giga + uint nsec"
    by (simp add: algebra_simps)
  finally show ?thesis .
qed

lemma normalizeSecNSec_normal: "time_normal (Time_of (normalizeSecNSec sec nsec))"
  by (simp add: time_normal_def Time_of_def normalizeSecNSec_def Let_def word_less_def uint_mod)

lemma time_normal_uint: "time_normal t \<longleftrightarrow> uint (t_nsec t) < giga"
  by (simp add: time_normal_def word_less_def)

lemma time_ns_range: "time_normal t \<Longrightarrow> 0 \<le> time_ns t \<and> time_ns t < time_range"
  using uint_lt2p [of "t_sec t"] by (simp add: time_ns_def time_normal_uint time_range_def)

lemma time_ns_inj:
  assumes "time_normal t" "time_normal t'" "time_ns t = time_ns t'"
  shows "t = t'"
proof -
  have "uint (t_sec t) = time_ns t div giga" "uint (t_nsec t) = time_ns t mod giga"
    "uint (t_sec t') = time_ns t' div giga" "uint (t_nsec t') = time_ns t' mod giga"
    using assms(1,2) by (simp_all add: time_ns_def time_normal_uint)
  with assms(3) have "t_sec t = t_sec t'" "t_nsec t = t_nsec t'"
    by (simp_all add: word_uint_eq_iff)
  then show ?thesis by simp
qed

lemma uint_sint_mod: "uint (w :: u32) = sint w mod 2 ^ 32"
proof -
  have "uint w = uint (word_of_int (sint w) :: u32)" by simp
  also have "\<dots> = sint w mod 2 ^ 32" by (subst uint_word_of_int) simp
  finally show ?thesis .
qed

text \<open>A duration that is at most a second of nanoseconds away from normal can be added or subtracted.\<close>

lemma nsec_sum_exact:
  assumes "uint (a :: u32) < giga" "- giga \<le> sint (b :: u32)" "sint b \<le> giga"
  shows "uint (a + 1000000000 + b) = uint a + giga + sint b"
    and "uint (a + 1000000000 - b) = uint a + giga - sint b"
proof -
  have eq: "a + 1000000000 + b = word_of_int (uint a + giga + sint b)"
    "a + 1000000000 - b = word_of_int (uint a + giga - sint b)"
    by simp_all
  have u: "uint (word_of_int i :: u32) = i" if "0 \<le> i" "i < 4294967296" for i
    using that by (simp add: uint_word_of_int)
  have pos: "0 \<le> uint a" by simp
  show "uint (a + 1000000000 + b) = uint a + giga + sint b"
    unfolding eq by (rule u) (use pos assms in linarith)+
  show "uint (a + 1000000000 - b) = uint a + giga - sint b"
    unfolding eq by (rule u) (use pos assms in linarith)+
qed

lemma sec_sum_mod:
  "uint ((a :: u32) - 1 + b) = (uint a - 1 + sint b) mod 2 ^ 32"
  "uint ((a :: u32) - 1 - b) = (uint a - 1 - sint b) mod 2 ^ 32"
proof -
  have eq: "a - 1 + b = word_of_int (uint a - 1 + sint b)" "a - 1 - b = word_of_int (uint a - 1 - sint b)"
    by simp_all
  show "uint (a - 1 + b) = (uint a - 1 + sint b) mod 2 ^ 32"
    unfolding eq by (subst uint_word_of_int) simp
  show "uint (a - 1 - b) = (uint a - 1 - sint b) mod 2 ^ 32"
    unfolding eq by (subst uint_word_of_int) simp
qed

lemma time_plus_exact:
  assumes "time_normal t" "\<bar>sint (d_nsec d)\<bar> \<le> giga"
  shows "time_ns (time_plus t d) = (time_ns t + duration_ns d) mod time_range"
proof -
  have "time_ns (time_plus t d) = ((uint (t_sec t) - 1 + sint (d_sec d)) mod 2 ^ 32 * giga +
      (uint (t_nsec t) + giga + sint (d_nsec d))) mod time_range"
    using assms by (simp only: time_plus_def normalizeSecNSec_ns sec_sum_mod)
      (subst nsec_sum_exact, auto simp: time_normal_uint)
  then show ?thesis
    by (simp only: range_mod_any) (simp add: time_ns_def duration_ns_def algebra_simps)
qed

lemma time_minus_exact:
  assumes "time_normal t" "\<bar>sint (d_nsec d)\<bar> \<le> giga"
  shows "time_ns (time_minus t d) = (time_ns t - duration_ns d) mod time_range"
proof -
  have "time_ns (time_minus t d) = ((uint (t_sec t) - 1 - sint (d_sec d)) mod 2 ^ 32 * giga +
      (uint (t_nsec t) + giga - sint (d_nsec d))) mod time_range"
    using assms by (simp only: time_minus_def normalizeSecNSec_ns sec_sum_mod)
      (subst nsec_sum_exact, auto simp: time_normal_uint)
  then show ?thesis
    by (simp only: range_mod_any) (simp add: time_ns_def duration_ns_def algebra_simps)
qed

section \<open>The signed normalisation\<close>

lemma norm_down_ns:
  "norm_down s n = (s', n') \<Longrightarrow>
     sint n' \<le> giga \<and> (sint n \<le> giga \<longrightarrow> n' = n) \<and> (0 \<le> sint n \<longrightarrow> 0 \<le> sint n') \<and>
     (uint s' * giga + sint n') mod time_range = (uint s * giga + sint n) mod time_range"
proof (induction s n rule: norm_down.induct)
  case (1 s n)
  show ?case
  proof (cases "sint n > giga")
    case True
    then have "(uint (s + 1) * giga + sint (n - 1000000000)) mod time_range =
        ((uint s + 1) mod 2 ^ 32 * giga + (sint n - giga)) mod time_range"
      by (simp add: uint_word_ariths sint_sub_giga)
    also have "\<dots> = (uint s * giga + sint n) mod time_range"
      by (simp only: range_mod_any) (simp add: algebra_simps)
    finally show ?thesis
      using 1 True by (simp add: norm_down.simps [of s n] sint_sub_giga)
  next
    case False
    with 1(2) show ?thesis by (auto simp: norm_down.simps [of s n])
  qed
qed

lemma norm_up_ns:
  "norm_up s n = (s', n') \<Longrightarrow> sint n \<le> giga \<Longrightarrow>
     0 \<le> sint n' \<and> sint n' \<le> giga \<and>
     (uint s' * giga + sint n') mod time_range = (uint s * giga + sint n) mod time_range"
proof (induction s n rule: norm_up.induct)
  case (1 s n)
  show ?case
  proof (cases "sint n < 0")
    case True
    then have "(uint (s - 1) * giga + sint (n + 1000000000)) mod time_range =
        ((uint s - 1) mod 2 ^ 32 * giga + (sint n + giga)) mod time_range"
      by (simp add: uint_word_ariths sint_add_giga)
    also have "\<dots> = (uint s * giga + sint n) mod time_range"
      by (simp only: range_mod_any) (simp add: algebra_simps)
    finally show ?thesis
      using 1 True by (simp add: norm_up.simps [of s n] sint_add_giga)
  next
    case False
    with 1(2,3) show ?thesis by (auto simp: norm_up.simps [of s n])
  qed
qed

lemma duration_ns_mod: "duration_ns d mod time_range = (uint (d_sec d) * giga + sint (d_nsec d)) mod time_range"
  unfolding uint_sint_mod range_mod_any by (simp add: duration_ns_def)

lemma normalizeSecNSecSigned_ns:
  "duration_normal (Duration_of (normalizeSecNSecSigned s n)) \<and>
   duration_ns (Duration_of (normalizeSecNSecSigned s n)) mod time_range =
     (uint s * giga + sint n) mod time_range"
proof -
  obtain s1 n1 where d: "norm_down s n = (s1, n1)" by fastforce
  obtain s2 n2 where u: "norm_up s1 n1 = (s2, n2)" by fastforce
  show ?thesis
    using norm_down_ns [OF d] norm_up_ns [OF u]
    by (simp add: normalizeSecNSecSigned_def d u Duration_of_def duration_normal_def duration_ns_mod)
qed

lemma time_diff_ns:
  assumes "time_normal t" "time_normal rhs"
  shows "duration_ns (time_diff t rhs) mod time_range = (time_ns t - time_ns rhs) mod time_range"
proof -
  let ?s = "t_sec t - t_sec rhs" and ?n = "t_nsec t - t_nsec rhs"
  have d: "time_diff t rhs = Duration_of (normalizeSecNSecSigned ?s ?n)"
    by (simp add: time_diff_def)
  have w: "?n = word_of_int (uint (t_nsec t) - uint (t_nsec rhs))" by simp
  have "0 \<le> uint (t_nsec t)" "uint (t_nsec t) < giga" "0 \<le> uint (t_nsec rhs)" "uint (t_nsec rhs) < giga"
    using assms by (simp_all add: time_normal_uint)
  then have n: "sint ?n = uint (t_nsec t) - uint (t_nsec rhs)"
    unfolding w by (intro sint_word_of_int_u32) linarith+
  have "uint ?s = (uint (t_sec t) - uint (t_sec rhs)) mod 2 ^ 32"
    by (simp add: uint_word_ariths)
  then have "(uint ?s * giga + sint ?n) mod time_range =
      ((uint (t_sec t) - uint (t_sec rhs)) * giga + (uint (t_nsec t) - uint (t_nsec rhs))) mod time_range"
    by (simp only: n range_mod_any)
  then show ?thesis
    unfolding d using normalizeSecNSecSigned_ns [of ?s ?n] by (simp add: time_ns_def algebra_simps)
qed

section \<open>Properties\<close>

text \<open>
  C19: Adding a duration to a normalised instant and subtracting it again are exact modulo the range
  of the 32-bit seconds counter, keep the instant normalised, and undo each other.
\<close>

theorem time_add_exact:
  assumes "time_normal t" "duration_normal d"
  shows "time_normal (time_plus t d) \<and>
    time_ns (time_plus t d) = (time_ns t + duration_ns d) mod time_range \<and>
    time_minus (time_plus t d) d = t \<and> time_plus (time_minus t d) d = t"
proof -
  have d: "\<bar>sint (d_nsec d)\<bar> \<le> giga" using assms(2) by (simp add: duration_normal_def)
  have n: "time_normal (time_plus u d)" "time_normal (time_minus u d)" for u
    by (simp_all add: time_plus_def time_minus_def normalizeSecNSec_normal)
  have r: "time_ns t mod time_range = time_ns t"
    using time_ns_range [OF assms(1)] by simp
  have "time_ns (time_minus (time_plus t d) d) = time_ns t" "time_ns (time_plus (time_minus t d) d) = time_ns t"
    using assms(1) n d r by (simp_all add: time_plus_exact time_minus_exact mod_simps)
  then show ?thesis
    using assms(1) n d by (auto intro!: time_ns_inj simp: time_plus_exact)
qed

theorem time_add_exact_witness:
  "time_normal \<lparr>t_sec = 0, t_nsec = 5\<rparr> \<and> duration_normal \<lparr>d_sec = - 1, d_nsec = 999999999\<rparr> \<and>
   time_plus \<lparr>t_sec = 0, t_nsec = 5\<rparr> \<lparr>d_sec = - 1, d_nsec = 999999999\<rparr> = \<lparr>t_sec = 0, t_nsec = 4\<rparr> \<and>
   time_minus \<lparr>t_sec = 0, t_nsec = 4\<rparr> \<lparr>d_sec = - 1, d_nsec = 999999999\<rparr> = \<lparr>t_sec = 0, t_nsec = 5\<rparr>"
proof -
  have n: "time_normal \<lparr>t_sec = 0, t_nsec = 5\<rparr>" "duration_normal \<lparr>d_sec = - 1, d_nsec = 999999999\<rparr>"
    by (simp_all add: time_normal_def duration_normal_def)
  moreover have "time_plus \<lparr>t_sec = 0, t_nsec = 5\<rparr> \<lparr>d_sec = - 1, d_nsec = 999999999\<rparr> = \<lparr>t_sec = 0, t_nsec = 4\<rparr>"
    by (simp add: time_plus_def normalizeSecNSec_def Time_of_def Let_def)
  ultimately show ?thesis using time_add_exact [OF n] by simp
qed

text \<open>
  The difference of two normalised instants, added to the second, gives the first, also across
  the wrap of the seconds counter.
\<close>

theorem time_diff_inverse:
  assumes "time_normal t" "time_normal rhs"
  shows "duration_normal (time_diff t rhs) \<and> time_plus rhs (time_diff t rhs) = t"
proof -
  have d: "duration_normal (time_diff t rhs)"
    using normalizeSecNSecSigned_ns by (simp add: time_diff_def)
  then have "time_ns (time_plus rhs (time_diff t rhs)) = (time_ns rhs + duration_ns (time_diff t rhs)) mod time_range"
    using assms(2) by (intro time_plus_exact) (auto simp: duration_normal_def)
  also have "\<dots> = (time_ns rhs + duration_ns (time_diff t rhs) mod time_range) mod time_range"
    by (simp add: mod_simps)
  also have "\<dots> = time_ns t"
    using time_ns_range [OF assms(1)] by (simp only: time_diff_ns [OF assms]) (simp add: mod_simps)
  finally show ?thesis
    using d assms by (auto intro!: time_ns_inj simp: time_plus_def normalizeSecNSec_normal)
qed

theorem time_diff_inverse_witness:
  "time_diff \<lparr>t_sec = 0, t_nsec = 0\<rparr> \<lparr>t_sec = 0xFFFFFFFF, t_nsec = 0\<rparr> = \<lparr>d_sec = 1, d_nsec = 0\<rparr> \<and>
   time_plus \<lparr>t_sec = 0xFFFFFFFF, t_nsec = 0\<rparr> \<lparr>d_sec = 1, d_nsec = 0\<rparr> = \<lparr>t_sec = 0, t_nsec = 0\<rparr>"
proof -
  have "time_diff \<lparr>t_sec = 0, t_nsec = 0\<rparr> \<lparr>t_sec = 0xFFFFFFFF, t_nsec = 0\<rparr> = \<lparr>d_sec = 1, d_nsec = 0\<rparr>"
    by (simp add: time_diff_def normalizeSecNSecSigned_def norm_down.simps norm_up.simps Duration_of_def)
  then show ?thesis
    using time_diff_inverse [of "\<lparr>t_sec = 0, t_nsec = 0\<rparr>" "\<lparr>t_sec = 0xFFFFFFFF, t_nsec = 0\<rparr>"]
    by (simp add: time_normal_def)
qed

text \<open>
  The signed normalisation terminates, keeps the duration it is given modulo the range of the
  seconds counter, and leaves a nanosecond part between 0 and one full second, both included: a
  part of exactly one second is not carried into the seconds.
\<close>

theorem normalize_signed:
  "duration_normal (Duration_of (normalizeSecNSecSigned s n)) \<and>
   duration_ns (Duration_of (normalizeSecNSecSigned s n)) mod time_range =
     duration_ns \<lparr>d_sec = s, d_nsec = n\<rparr> mod time_range \<and>
   normalizeSecNSecSigned s 1000000000 = (s, 1000000000)"
  using normalizeSecNSecSigned_ns [of s n] duration_ns_mod [of "\<lparr>d_sec = s, d_nsec = n\<rparr>"]
  by (simp add: normalizeSecNSecSigned_def norm_down.simps [of s 1000000000] norm_up.simps [of s 1000000000])

end
