(* ===== verification/Node_Handle.thy ===== *)
theory Node_Handle
  imports Generated_Messages Ros_Time Frame
begin

text \<open>
  The device node of \<open>ros/node_handle.h\<close> with \<open>ros/publisher.h\<close>, \<open>ros/subscriber.h\<close>,
  \<open>ros/service_server.h\<close> and \<open>ros/service_client.h\<close>: the frame writer \<open>publish\<close>, the byte state
  machine of \<open>spinOnce\<close>, time synchronisation and topic registration.

  The template parameters, the hardware clock and the application's callbacks are the fields of an
  environment record. The results of successive calls of \<open>hardware_.time()\<close> are a function of the
  number of calls made; the results of successive calls of \<open>hardware_.read()\<close> are a list, and after
  its end \<open>read\<close> answers -1; what \<open>hardware_.write\<close> sends is collected. Publishers and subscribers
  are objects of the application: the node holds their addresses, and an object store holds their
  members. The node's CDR buffers have no full-buffer callback. A step that leaves the bounds of an array or of the storage of a message, or a \<open>publish\<close> whose error report does not
  fit either and recurs without end, is a fault.
\<close>

section \<open>Data\<close>

type_synonym msg = "gen_type list \<times> gen_value list"

record Publisher =
  pub_topic :: "u8 list"
  pub_type :: "u8 list"
  pub_md5 :: "u8 list"
  pub_endpoint :: int
  pub_id :: int

datatype sub_kind = K_Subscriber | K_ServiceServer | K_ServiceClient

record Subscriber =
  sub_kind :: sub_kind
  sub_topic :: "u8 list"
  sub_type :: "u8 list"
  sub_md5 :: "u8 list"
  sub_endpoint :: int
  sub_id :: int
  sub_fields :: "gen_type list"
  sub_msg :: "gen_value list"
  sub_resp_fields :: "gen_type list"
  sub_pub :: nat
  sub_waiting :: bool

record 'a node_handle =
  nh_rt_time :: u32
  nh_sec_offset :: u32
  nh_nsec_offset :: u32
  nh_spin_timeout :: u32
  nh_mem :: mem
  nh_output_cdr :: ucdrBuffer
  nh_input_cdr :: ucdrBuffer
  nh_publishers :: "nat option list"
  nh_subscribers :: "nat option list"
  nh_mode :: int
  nh_bytes :: int
  nh_topic :: int
  nh_index :: int
  nh_checksum :: int
  nh_configured :: bool
  nh_last_sync_time :: u32
  nh_last_sync_receive_time :: u32
  nh_last_msg_timeout_time :: u32
  nh_param_received :: bool
  nh_clock :: nat
  nh_written :: "u8 list"
  nh_pub_obj :: "nat \<Rightarrow> Publisher"
  nh_sub_obj :: "nat \<Rightarrow> Subscriber"
  nh_app :: 'a

text \<open>
  \<open>app_callback\<close> gets the message object as the deserialiser left it: the source ignores the deserialiser's
  result and calls the callback with a message that may be filled in part only.
  \<open>app_service\<close> also returns the response it filled in. \<open>nh_gen\<close> is the memory of the messages.
\<close>

record 'a nh_env =
  MAX_SUBSCRIBERS :: nat
  MAX_PUBLISHERS :: nat
  INPUT_SIZE :: nat
  OUTPUT_SIZE :: nat
  message_in :: nat
  hw_time :: "nat \<Rightarrow> u32"
  nh_gen :: gen_env
  app_callback :: "nat \<Rightarrow> gen_value list \<Rightarrow> 'a node_handle \<Rightarrow> 'a node_handle"
  app_service :: "nat \<Rightarrow> gen_value list \<Rightarrow> 'a node_handle \<Rightarrow> gen_value list \<times> 'a node_handle"

definition message_out :: "'a nh_env \<Rightarrow> nat" where
  "message_out E = message_in E + INPUT_SIZE E"

datatype fault = Message_in_overflow | Subscriber_index | Log_recursion | Message_storage

datatype 'n step = Continue 'n | Return int 'n | Fault fault

definition SPIN_OK :: int where "SPIN_OK = 0"
definition SPIN_ERR :: int where "SPIN_ERR = - 1"
definition SPIN_TIMEOUT :: int where "SPIN_TIMEOUT = - 2"
definition SYNC_SECONDS :: u32 where "SYNC_SECONDS = 2"
definition SERIAL_MSG_TIMEOUT :: u32 where "SERIAL_MSG_TIMEOUT = 20"

definition MODE_FIRST_FF :: int where "MODE_FIRST_FF = 0"
definition MODE_PROTOCOL_VER :: int where "MODE_PROTOCOL_VER = 1"
definition MODE_SIZE_L :: int where "MODE_SIZE_L = 2"
definition MODE_SIZE_H :: int where "MODE_SIZE_H = 3"
definition MODE_SIZE_CHECKSUM :: int where "MODE_SIZE_CHECKSUM = 4"
definition MODE_TOPIC_L :: int where "MODE_TOPIC_L = 5"
definition MODE_TOPIC_H :: int where "MODE_TOPIC_H = 6"
definition MODE_MESSAGE :: int where "MODE_MESSAGE = 7"
definition MODE_MSG_CHECKSUM :: int where "MODE_MSG_CHECKSUM = 8"

lemmas mode_defs = MODE_FIRST_FF_def MODE_PROTOCOL_VER_def MODE_SIZE_L_def MODE_SIZE_H_def
  MODE_SIZE_CHECKSUM_def MODE_TOPIC_L_def MODE_TOPIC_H_def MODE_MESSAGE_def MODE_MSG_CHECKSUM_def

definition ID_PUBLISHER :: int where "ID_PUBLISHER = 0"
definition ID_SUBSCRIBER :: int where "ID_SUBSCRIBER = 1"
definition ID_SERVICE_SERVER :: int where "ID_SERVICE_SERVER = 2"
definition ID_SERVICE_CLIENT :: int where "ID_SERVICE_CLIENT = 4"
definition ID_PARAMETER_REQUEST :: int where "ID_PARAMETER_REQUEST = 6"
definition ID_LOG :: int where "ID_LOG = 7"
definition ID_TIME :: int where "ID_TIME = 10"
definition ID_TX_STOP :: int where "ID_TX_STOP = 11"

lemmas id_defs = ID_PUBLISHER_def ID_SUBSCRIBER_def ID_SERVICE_SERVER_def ID_SERVICE_CLIENT_def
  ID_PARAMETER_REQUEST_def ID_LOG_def ID_TIME_def ID_TX_STOP_def

section \<open>Messages of the protocol\<close>

definition msg_Time :: "u32 \<Rightarrow> u32 \<Rightarrow> msg" where
  "msg_Time sec nanosec =
     ([G_prim T_int32_t, G_prim T_uint32_t], [W_prim (le_bytes 4 sec), W_prim (le_bytes 4 nanosec)])"

definition msg_Log :: "u8 \<Rightarrow> u8 list \<Rightarrow> msg" where
  "msg_Log level txt = ([G_prim T_uint8_t, G_string], [W_prim [level], W_string txt])"

definition msg_TopicInfo :: "u16 \<Rightarrow> u8 list \<Rightarrow> u8 list \<Rightarrow> u8 list \<Rightarrow> u32 \<Rightarrow> msg" where
  "msg_TopicInfo topic_id topic_name message_type md5sum buffer_size =
     ([G_prim T_uint16_t, G_string, G_string, G_string, G_prim T_int32_t],
      [W_prim (le_bytes 2 topic_id), W_string topic_name, W_string message_type, W_string md5sum, W_prim (le_bytes 4 buffer_size)])"

definition c_str :: "string \<Rightarrow> u8 list" where
  "c_str s = map of_char s"

section \<open>Setup\<close>

text \<open>A new node, with the member initialisers of the class; the CDR buffers come with \<open>initNode\<close>.\<close>

definition new_NodeHandle ::
    "'a nh_env \<Rightarrow> ucdrBuffer \<Rightarrow> (nat \<Rightarrow> Publisher) \<Rightarrow> (nat \<Rightarrow> Subscriber) \<Rightarrow> 'a \<Rightarrow> 'a node_handle" where
  "new_NodeHandle E garbage pubs subs app =
     \<lparr>nh_rt_time = 0, nh_sec_offset = 0, nh_nsec_offset = 0, nh_spin_timeout = 0, nh_mem = (\<lambda>_. 0),
      nh_output_cdr = garbage, nh_input_cdr = garbage,
      nh_publishers = replicate (MAX_PUBLISHERS E) None, nh_subscribers = replicate (MAX_SUBSCRIBERS E) None,
      nh_mode = MODE_FIRST_FF, nh_bytes = 0, nh_topic = 0, nh_index = 0, nh_checksum = 0,
      nh_configured = False, nh_last_sync_time = 0, nh_last_sync_receive_time = 0,
      nh_last_msg_timeout_time = 0, nh_param_received = False, nh_clock = 0, nh_written = [],
      nh_pub_obj = pubs, nh_sub_obj = subs, nh_app = app\<rparr>"

definition initNode :: "'a nh_env \<Rightarrow> 'a node_handle \<Rightarrow> 'a node_handle" where
  "initNode E nh =
     nh\<lparr>nh_mode := MODE_FIRST_FF, nh_bytes := 0, nh_index := 0, nh_topic := 0,
        nh_output_cdr := ucdr_init_buffer (message_out E + 7) (OUTPUT_SIZE E - 7),
        nh_input_cdr := ucdr_init_buffer (message_in E) (INPUT_SIZE E)\<rparr>"

text \<open>The variant for a named port does not set the CDR buffers up.\<close>

definition initNode_named :: "'a node_handle \<Rightarrow> 'a node_handle" where
  "initNode_named nh = nh\<lparr>nh_mode := MODE_FIRST_FF, nh_bytes := 0, nh_index := 0, nh_topic := 0\<rparr>"

definition setSpinTimeout :: "u32 \<Rightarrow> 'a node_handle \<Rightarrow> 'a node_handle" where
  "setSpinTimeout timeout nh = nh\<lparr>nh_spin_timeout := timeout\<rparr>"

definition isTopicValid :: "'a nh_env \<Rightarrow> int \<Rightarrow> bool" where
  "isTopicValid E topic \<longleftrightarrow> topic \<ge> 0 \<and> topic < int (MAX_SUBSCRIBERS E) + 100"

definition time_now :: "'a nh_env \<Rightarrow> 'a node_handle \<Rightarrow> u32 \<times> 'a node_handle" where
  "time_now E nh = (hw_time E (nh_clock nh), nh\<lparr>nh_clock := Suc (nh_clock nh)\<rparr>)"

definition hw_write :: "u8 list \<Rightarrow> 'a node_handle \<Rightarrow> 'a node_handle" where
  "hw_write bs nh = nh\<lparr>nh_written := nh_written nh @ bs\<rparr>"

section \<open>Publishing\<close>

text \<open>The work of \<open>publish\<close> before the size check: the serialised message, its header and its checksum.\<close>

definition publish_body :: "'a nh_env \<Rightarrow> int \<Rightarrow> msg \<Rightarrow> 'a node_handle \<Rightarrow> nat \<times> u8 \<times> 'a node_handle" where
  "publish_body E i msg nh =
     (let out = message_out E;
          s0 = (nh_mem nh, ucdr_reset_buffer (nh_output_cdr nh));
          s1 = snd (serialize_encapsulation no_callback s0);
          (m2, ub2) = snd (gen_cdr_serialize no_callback (fst msg) (snd msg) s1);
          l = ucdr_buffer_length ub2;
          b2 = ucast ((of_nat l :: u16) AND 255) :: u8;
          b3 = ucast (drop_bit 8 (of_nat l :: u16)) :: u8;
          b4 = of_int (255 - (uint b2 + uint b3) mod 256) :: u8;
          b5 = ucast ((of_int i :: u16) AND 255) :: u8;
          b6 = ucast (signed_drop_bit 8 (of_int i :: u16)) :: u8;
          m3 = mem_write out [0xff, PROTOCOL_VER, b2, b3, b4, b5, b6] m2;
          l7 = l + 7;
          chk = (\<Sum>j\<leftarrow>[5..<l7]. uint (m3 (out + j)))
      in (l7, of_int (255 - chk mod 256), nh\<lparr>nh_mem := m3, nh_output_cdr := ub2\<rparr>))"

definition ROS_ERROR :: u8 where "ROS_ERROR = 3"

definition drop_text :: "u8 list" where
  "drop_text = c_str ''Message from device dropped: message larger than buffer.''"

text \<open>
  \<open>publish\<close> reports a message that is too large with \<open>logerror\<close>, which publishes again. The first
  argument bounds the depth of this recursion; \<open>None\<close> is a recursion that got deeper.
\<close>

primrec publish_rec ::
    "nat \<Rightarrow> 'a nh_env \<Rightarrow> int \<Rightarrow> msg \<Rightarrow> 'a node_handle \<Rightarrow> (int \<times> 'a node_handle) option" where
  "publish_rec 0 E i msg nh = None"
| "publish_rec (Suc depth) E i msg nh =
     (if i \<ge> 100 \<and> \<not> nh_configured nh then Some (0, nh)
      else (case publish_body E i msg nh of (l, c, nh1) \<Rightarrow>
        if l < OUTPUT_SIZE E
        then (let m = (nh_mem nh1)(message_out E + l := c)
              in Some (int l + 1, hw_write (mem_read (message_out E) (l + 1) m) (nh1\<lparr>nh_mem := m\<rparr>)))
        else (case publish_rec depth E ID_LOG (msg_Log ROS_ERROR drop_text) nh1 of
                None \<Rightarrow> None
              | Some (_, nh2) \<Rightarrow> Some (- 1, nh2))))"

definition publish :: "'a nh_env \<Rightarrow> int \<Rightarrow> msg \<Rightarrow> 'a node_handle \<Rightarrow> (int \<times> 'a node_handle) option" where
  "publish E i msg nh = publish_rec 2 E i msg nh"

definition log_msg :: "'a nh_env \<Rightarrow> u8 \<Rightarrow> u8 list \<Rightarrow> 'a node_handle \<Rightarrow> 'a node_handle option" where
  "log_msg E level txt nh = map_option snd (publish E ID_LOG (msg_Log level txt) nh)"

definition logdebug :: "'a nh_env \<Rightarrow> u8 list \<Rightarrow> 'a node_handle \<Rightarrow> 'a node_handle option" where
  "logdebug E txt nh = log_msg E 0 txt nh"

definition loginfo :: "'a nh_env \<Rightarrow> u8 list \<Rightarrow> 'a node_handle \<Rightarrow> 'a node_handle option" where
  "loginfo E txt nh = log_msg E 1 txt nh"

definition logwarn :: "'a nh_env \<Rightarrow> u8 list \<Rightarrow> 'a node_handle \<Rightarrow> 'a node_handle option" where
  "logwarn E txt nh = log_msg E 2 txt nh"

definition logerror :: "'a nh_env \<Rightarrow> u8 list \<Rightarrow> 'a node_handle \<Rightarrow> 'a node_handle option" where
  "logerror E txt nh = log_msg E ROS_ERROR txt nh"

definition logfatal :: "'a nh_env \<Rightarrow> u8 list \<Rightarrow> 'a node_handle \<Rightarrow> 'a node_handle option" where
  "logfatal E txt nh = log_msg E 4 txt nh"

section \<open>Time\<close>

definition requestSyncTime :: "'a nh_env \<Rightarrow> 'a node_handle \<Rightarrow> 'a node_handle option" where
  "requestSyncTime E nh =
     (case publish E ID_TIME (msg_Time 0x78563412 0x78563412) nh of
        None \<Rightarrow> None
      | Some (_, nh1) \<Rightarrow> (case time_now E nh1 of (t, nh2) \<Rightarrow> Some (nh2\<lparr>nh_rt_time := t\<rparr>)))"

definition setNow :: "'a nh_env \<Rightarrow> u32 \<Rightarrow> u32 \<Rightarrow> 'a node_handle \<Rightarrow> 'a node_handle" where
  "setNow E sec nanosec nh =
     (case time_now E nh of (ms, nh1) \<Rightarrow>
        (case normalizeSecNSec (sec - ms div 1000 - 1) (nanosec - (ms mod 1000) * 1000000 + 1000000000) of
           (s, n) \<Rightarrow> nh1\<lparr>nh_sec_offset := s, nh_nsec_offset := n\<rparr>))"

definition now :: "'a nh_env \<Rightarrow> 'a node_handle \<Rightarrow> Time \<times> 'a node_handle" where
  "now E nh =
     (case time_now E nh of (ms, nh1) \<Rightarrow>
        (Time_of (normalizeSecNSec (ms div 1000 + nh_sec_offset nh1)
                                   ((ms mod 1000) * 1000000 + nh_nsec_offset nh1)), nh1))"

definition syncTime :: "'a nh_env \<Rightarrow> 'a node_handle \<Rightarrow> 'a node_handle" where
  "syncTime E nh =
     (case time_now E nh of (t0, nh1) \<Rightarrow>
        (let offset = t0 - nh_rt_time nh1;
             (sec, s1) = prim_deserialize no_callback T_int32_t [0, 0, 0, 0] (nh_mem nh1, nh_input_cdr nh1);
             (nanosec, s2) = prim_deserialize no_callback T_uint32_t [0, 0, 0, 0] s1;
             nh2 = setNow E (le_word sec + offset div 1000) (le_word nanosec + (offset mod 1000) * 1000000)
                     (nh1\<lparr>nh_mem := fst s2, nh_input_cdr := snd s2\<rparr>);
             (t1, nh3) = time_now E nh2
         in nh3\<lparr>nh_last_sync_receive_time := t1\<rparr>))"

section \<open>Topic management\<close>

definition first_free :: "nat option list \<Rightarrow> nat option" where
  "first_free slots = find (\<lambda>i. slots ! i = None) [0..<length slots]"

definition advertise :: "'a nh_env \<Rightarrow> nat \<Rightarrow> 'a node_handle \<Rightarrow> bool \<times> 'a node_handle" where
  "advertise E p nh =
     (case first_free (nh_publishers nh) of
        None \<Rightarrow> (False, nh)
      | Some i \<Rightarrow>
          (True, nh\<lparr>nh_publishers := (nh_publishers nh)[i := Some p],
                    nh_pub_obj := (nh_pub_obj nh)
                      (p := (nh_pub_obj nh p)\<lparr>pub_id := int i + 100 + int (MAX_SUBSCRIBERS E)\<rparr>)\<rparr>))"

definition subscribe :: "nat \<Rightarrow> 'a node_handle \<Rightarrow> bool \<times> 'a node_handle" where
  "subscribe s nh =
     (case first_free (nh_subscribers nh) of
        None \<Rightarrow> (False, nh)
      | Some i \<Rightarrow>
          (True, nh\<lparr>nh_subscribers := (nh_subscribers nh)[i := Some s],
                    nh_sub_obj := (nh_sub_obj nh)
                      (s := (nh_sub_obj nh s)\<lparr>sub_id := int i + 100\<rparr>)\<rparr>))"

definition advertiseService :: "'a nh_env \<Rightarrow> nat \<Rightarrow> 'a node_handle \<Rightarrow> bool \<times> 'a node_handle" where
  "advertiseService E srv nh =
     (case advertise E (sub_pub (nh_sub_obj nh srv)) nh of (v, nh1) \<Rightarrow>
        case subscribe srv nh1 of (w, nh2) \<Rightarrow> (v \<and> w, nh2))"

definition serviceClient :: "'a nh_env \<Rightarrow> nat \<Rightarrow> 'a node_handle \<Rightarrow> bool \<times> 'a node_handle" where
  "serviceClient E srv nh =
     (case advertise E (sub_pub (nh_sub_obj nh srv)) nh of (v, nh1) \<Rightarrow>
        case subscribe srv nh1 of (w, nh2) \<Rightarrow> (v \<and> w, nh2))"

definition publisher_info :: "'a nh_env \<Rightarrow> Publisher \<Rightarrow> msg" where
  "publisher_info E p =
     msg_TopicInfo (of_int (pub_id p)) (pub_topic p) (pub_type p) (pub_md5 p) (of_nat (OUTPUT_SIZE E))"

definition subscriber_info :: "'a nh_env \<Rightarrow> Subscriber \<Rightarrow> msg" where
  "subscriber_info E s =
     msg_TopicInfo (of_int (sub_id s)) (sub_topic s) (sub_type s) (sub_md5 s) (of_nat (INPUT_SIZE E))"

primrec negotiate_publishers ::
    "'a nh_env \<Rightarrow> nat option list \<Rightarrow> 'a node_handle \<Rightarrow> 'a node_handle option" where
  "negotiate_publishers E [] nh = Some nh"
| "negotiate_publishers E (slot # slots) nh =
     (case slot of
        None \<Rightarrow> negotiate_publishers E slots nh
      | Some p \<Rightarrow>
          (case publish E (pub_endpoint (nh_pub_obj nh p)) (publisher_info E (nh_pub_obj nh p)) nh of
             None \<Rightarrow> None
           | Some (_, nh1) \<Rightarrow> negotiate_publishers E slots nh1))"

primrec negotiate_subscribers ::
    "'a nh_env \<Rightarrow> nat option list \<Rightarrow> 'a node_handle \<Rightarrow> 'a node_handle option" where
  "negotiate_subscribers E [] nh = Some nh"
| "negotiate_subscribers E (slot # slots) nh =
     (case slot of
        None \<Rightarrow> negotiate_subscribers E slots nh
      | Some s \<Rightarrow>
          (case publish E (sub_endpoint (nh_sub_obj nh s)) (subscriber_info E (nh_sub_obj nh s)) nh of
             None \<Rightarrow> None
           | Some (_, nh1) \<Rightarrow> negotiate_subscribers E slots nh1))"

definition negotiateTopics :: "'a nh_env \<Rightarrow> 'a node_handle \<Rightarrow> 'a node_handle option" where
  "negotiateTopics E nh =
     (case negotiate_publishers E (nh_publishers nh) nh of
        None \<Rightarrow> None
      | Some nh1 \<Rightarrow>
          (case negotiate_subscribers E (nh_subscribers nh1) nh1 of
             None \<Rightarrow> None
           | Some nh2 \<Rightarrow> Some (nh2\<lparr>nh_configured := True\<rparr>)))"

section \<open>Subscriber callbacks\<close>

definition deserialize_into :: "'a nh_env \<Rightarrow> nat \<Rightarrow> 'a node_handle \<Rightarrow> (gen_value list \<times> 'a node_handle) option" where
  "deserialize_into E s nh =
     (let ob = nh_sub_obj nh s in
      case gen_cdr_deserialize no_callback (nh_gen E) (sub_fields ob) (sub_msg ob) (nh_mem nh, nh_input_cdr nh) of
        None \<Rightarrow> None
      | Some (ok, vs, m, ub) \<Rightarrow>
          Some (vs, nh\<lparr>nh_mem := m, nh_input_cdr := ub, nh_sub_obj := (nh_sub_obj nh)(s := ob\<lparr>sub_msg := vs\<rparr>)\<rparr>))"

definition sub_callback :: "'a nh_env \<Rightarrow> nat \<Rightarrow> 'a node_handle \<Rightarrow> fault + 'a node_handle" where
  "sub_callback E s nh =
     (case deserialize_into E s nh of
        None \<Rightarrow> Inl Message_storage
      | Some (vs, nh1) \<Rightarrow>
          (case sub_kind (nh_sub_obj nh s) of
             K_Subscriber \<Rightarrow> Inr (app_callback E s vs nh1)
           | K_ServiceServer \<Rightarrow>
               (case app_service E s vs nh1 of (resp, nh2) \<Rightarrow>
                  case publish E (pub_id (nh_pub_obj nh2 (sub_pub (nh_sub_obj nh2 s))))
                         (sub_resp_fields (nh_sub_obj nh2 s), resp) nh2 of
                    None \<Rightarrow> Inl Log_recursion
                  | Some (_, nh3) \<Rightarrow> Inr nh3)
           | K_ServiceClient \<Rightarrow>
               Inr (nh1\<lparr>nh_sub_obj := (nh_sub_obj nh1)(s := (nh_sub_obj nh1 s)\<lparr>sub_waiting := False\<rparr>)\<rparr>)))"

section \<open>spinOnce\<close>

definition spin_message :: "'a nh_env \<Rightarrow> int \<Rightarrow> 'a node_handle \<Rightarrow> 'a node_handle step" where
  "spin_message E data nh =
     (if nh_index nh < 0 \<or> int (INPUT_SIZE E) \<le> nh_index nh then Fault Message_in_overflow
      else (let nh1 = nh\<lparr>nh_mem := (nh_mem nh)(message_in E + nat (nh_index nh) := of_int data),
                         nh_index := nh_index nh + 1, nh_bytes := nh_bytes nh - 1\<rparr>
            in Continue (if nh_bytes nh1 = 0 then nh1\<lparr>nh_mode := MODE_MSG_CHECKSUM\<rparr> else nh1)))"

definition spin_first_ff :: "'a nh_env \<Rightarrow> u32 \<Rightarrow> int \<Rightarrow> 'a node_handle \<Rightarrow> 'a node_handle step" where
  "spin_first_ff E c_time data nh =
     (if data = 0xff
      then Continue (nh\<lparr>nh_mode := nh_mode nh + 1, nh_last_msg_timeout_time := c_time + SERIAL_MSG_TIMEOUT\<rparr>)
      else (case time_now E nh of (t, nh1) \<Rightarrow>
              if t - c_time > SYNC_SECONDS * 1000
              then Return SPIN_TIMEOUT (nh1\<lparr>nh_configured := False\<rparr>)
              else Continue nh1))"

definition spin_protocol_ver :: "'a nh_env \<Rightarrow> int \<Rightarrow> 'a node_handle \<Rightarrow> 'a node_handle step" where
  "spin_protocol_ver E data nh =
     (if data = uint PROTOCOL_VER then Continue (nh\<lparr>nh_mode := nh_mode nh + 1\<rparr>)
      else (let nh1 = nh\<lparr>nh_mode := MODE_FIRST_FF\<rparr>
            in if \<not> nh_configured nh1
               then (case requestSyncTime E nh1 of None \<Rightarrow> Fault Log_recursion | Some nh2 \<Rightarrow> Continue nh2)
               else Continue nh1))"

definition spin_size_l :: "int \<Rightarrow> 'a node_handle \<Rightarrow> 'a node_handle step" where
  "spin_size_l data nh =
     Continue (nh\<lparr>nh_bytes := data, nh_index := 0, nh_mode := nh_mode nh + 1, nh_checksum := data\<rparr>)"

definition spin_size_h :: "int \<Rightarrow> 'a node_handle \<Rightarrow> 'a node_handle step" where
  "spin_size_h data nh =
     Continue (nh\<lparr>nh_bytes := nh_bytes nh + push_bit 8 data, nh_mode := nh_mode nh + 1\<rparr>)"

definition spin_size_checksum :: "'a node_handle \<Rightarrow> 'a node_handle step" where
  "spin_size_checksum nh =
     Continue (if nh_checksum nh mod 256 = 255 then nh\<lparr>nh_mode := nh_mode nh + 1\<rparr>
               else nh\<lparr>nh_mode := MODE_FIRST_FF\<rparr>)"

definition spin_topic_l :: "int \<Rightarrow> 'a node_handle \<Rightarrow> 'a node_handle step" where
  "spin_topic_l data nh =
     Continue (nh\<lparr>nh_topic := data, nh_mode := nh_mode nh + 1, nh_checksum := data\<rparr>)"

definition spin_topic_h :: "'a nh_env \<Rightarrow> int \<Rightarrow> 'a node_handle \<Rightarrow> 'a node_handle step" where
  "spin_topic_h E data nh =
     (let nh1 = nh\<lparr>nh_topic := nh_topic nh + push_bit 8 data\<rparr>
      in Continue (if isTopicValid E (nh_topic nh1)
                   then (if nh_bytes nh1 = 0 then nh1\<lparr>nh_mode := MODE_MSG_CHECKSUM\<rparr>
                         else nh1\<lparr>nh_mode := MODE_MESSAGE\<rparr>)
                   else nh1\<lparr>nh_mode := MODE_FIRST_FF, nh_configured := False\<rparr>))"

definition open_input :: "'a nh_env \<Rightarrow> 'a node_handle \<Rightarrow> 'a node_handle" where
  "open_input E nh =
     (case deserialize_encapsulation no_callback (nh_mem nh, ucdr_reset_buffer (nh_input_cdr nh)) of
        (_, m, ub) \<Rightarrow> nh\<lparr>nh_mem := m, nh_input_cdr := ub\<rparr>)"

definition dispatch :: "'a nh_env \<Rightarrow> u32 \<Rightarrow> 'a node_handle \<Rightarrow> 'a node_handle step" where
  "dispatch E c_time nh =
     (if nh_topic nh = ID_PUBLISHER then
        (case requestSyncTime E nh of
           None \<Rightarrow> Fault Log_recursion
         | Some nh1 \<Rightarrow>
             (case negotiateTopics E nh1 of
                None \<Rightarrow> Fault Log_recursion
              | Some nh2 \<Rightarrow> Return SPIN_ERR
                  (nh2\<lparr>nh_last_sync_time := c_time, nh_last_sync_receive_time := c_time\<rparr>)))
      else if nh_topic nh = ID_TIME then Continue (syncTime E (open_input E nh))
      else if nh_topic nh = ID_PARAMETER_REQUEST then Continue (nh\<lparr>nh_param_received := True\<rparr>)
      else if nh_topic nh = ID_TX_STOP then Continue (nh\<lparr>nh_configured := False\<rparr>)
      else if isTopicValid E (nh_topic nh) then
        (if nh_topic nh < 100 then Fault Subscriber_index
         else (case nh_subscribers nh ! nat (nh_topic nh - 100) of
                 None \<Rightarrow> Continue nh
               | Some s \<Rightarrow>
                   (case sub_callback E s (open_input E nh) of
                      Inl f \<Rightarrow> Fault f
                    | Inr nh1 \<Rightarrow> Continue nh1)))
      else Continue nh)"

definition spin_msg_checksum :: "'a nh_env \<Rightarrow> u32 \<Rightarrow> 'a node_handle \<Rightarrow> 'a node_handle step" where
  "spin_msg_checksum E c_time nh =
     (let nh1 = nh\<lparr>nh_mode := MODE_FIRST_FF\<rparr>
      in if nh_checksum nh1 mod 256 = 255 then dispatch E c_time nh1 else Continue nh1)"

definition spin_byte :: "'a nh_env \<Rightarrow> u32 \<Rightarrow> int \<Rightarrow> 'a node_handle \<Rightarrow> 'a node_handle step" where
  "spin_byte E c_time data nh0 =
     (let nh = nh0\<lparr>nh_checksum := nh_checksum nh0 + data\<rparr>; mode = nh_mode nh
      in if mode = MODE_MESSAGE then spin_message E data nh
         else if mode = MODE_FIRST_FF then spin_first_ff E c_time data nh
         else if mode = MODE_PROTOCOL_VER then spin_protocol_ver E data nh
         else if mode = MODE_SIZE_L then spin_size_l data nh
         else if mode = MODE_SIZE_H then spin_size_h data nh
         else if mode = MODE_SIZE_CHECKSUM then spin_size_checksum nh
         else if mode = MODE_TOPIC_L then spin_topic_l data nh
         else if mode = MODE_TOPIC_H then spin_topic_h E data nh
         else if mode = MODE_MSG_CHECKSUM then spin_msg_checksum E c_time nh
         else Continue nh)"

definition spin_expired :: "'a nh_env \<Rightarrow> u32 \<Rightarrow> 'a node_handle \<Rightarrow> bool \<times> 'a node_handle" where
  "spin_expired E c_time nh =
     (if nh_spin_timeout nh > 0
      then (case time_now E nh of (t, nh1) \<Rightarrow> (t - c_time > nh_spin_timeout nh1, nh1))
      else (False, nh))"

text \<open>
  The loop of \<open>spinOnce\<close>. Its result is a fault, or the bytes that were not read, whether the
  function returned inside the loop, and with what.
\<close>

fun spin_loop ::
    "'a nh_env \<Rightarrow> u32 \<Rightarrow> int list \<Rightarrow> 'a node_handle \<Rightarrow> fault + (int list \<times> int option \<times> 'a node_handle)" where
  "spin_loop E c_time [] nh =
     (case spin_expired E c_time nh of (expired, nh1) \<Rightarrow>
        if expired then Inr ([], Some SPIN_TIMEOUT, nh1) else Inr ([], None, nh1))"
| "spin_loop E c_time (data # input) nh =
     (case spin_expired E c_time nh of (expired, nh1) \<Rightarrow>
        if expired then Inr (data # input, Some SPIN_TIMEOUT, nh1)
        else if data < 0 \<or> data > 0xff then Inr (input, None, nh1)
        else (case spin_byte E c_time data nh1 of
                Continue nh2 \<Rightarrow> spin_loop E c_time input nh2
              | Return code nh2 \<Rightarrow> Inr (input, Some code, nh2)
              | Fault f \<Rightarrow> Inl f))"

definition spin_start :: "u32 \<Rightarrow> 'a node_handle \<Rightarrow> 'a node_handle" where
  "spin_start c_time nh =
     (let nh1 = (if c_time - nh_last_sync_receive_time nh > SYNC_SECONDS * 2200
                 then nh\<lparr>nh_configured := False\<rparr> else nh)
      in if nh_mode nh1 \<noteq> MODE_FIRST_FF \<and> c_time > nh_last_msg_timeout_time nh1
         then nh1\<lparr>nh_mode := MODE_FIRST_FF\<rparr> else nh1)"

definition spinOnce ::
    "'a nh_env \<Rightarrow> int list \<Rightarrow> 'a node_handle \<Rightarrow> fault + (int \<times> int list \<times> 'a node_handle)" where
  "spinOnce E input nh =
     (case time_now E nh of (c_time, nh1) \<Rightarrow>
        case spin_loop E c_time input (spin_start c_time nh1) of
          Inl f \<Rightarrow> Inl f
        | Inr (rest, Some code, nh2) \<Rightarrow> Inr (code, rest, nh2)
        | Inr (rest, None, nh2) \<Rightarrow>
            if nh_configured nh2 \<and> c_time - nh_last_sync_time nh2 > SYNC_SECONDS * 1000
            then (case requestSyncTime E nh2 of
                    None \<Rightarrow> Inl Log_recursion
                  | Some nh3 \<Rightarrow> Inr (SPIN_OK, rest, nh3\<lparr>nh_last_sync_time := c_time\<rparr>))
            else Inr (SPIN_OK, rest, nh2))"

definition connected :: "'a node_handle \<Rightarrow> bool" where
  "connected nh = nh_configured nh"

section \<open>Publishers and service clients\<close>

definition publisher_publish :: "'a nh_env \<Rightarrow> nat \<Rightarrow> msg \<Rightarrow> 'a node_handle \<Rightarrow> (int \<times> 'a node_handle) option" where
  "publisher_publish E p msg nh = publish E (pub_id (nh_pub_obj nh p)) msg nh"

text \<open>
  The loop of \<open>ServiceClient::call\<close>. Each element of the list is what the serial line delivers in
  one turn of the loop; when the list ends the call is still waiting, which is \<open>None\<close>.
\<close>

fun call_loop ::
    "'a nh_env \<Rightarrow> nat \<Rightarrow> int list list \<Rightarrow> 'a node_handle \<Rightarrow> (fault + (bool \<times> 'a node_handle)) option" where
  "call_loop E s inputs nh =
     (if sub_waiting (nh_sub_obj nh s) \<and> connected nh
      then (case inputs of
              [] \<Rightarrow> None
            | input # rest \<Rightarrow>
                (case spinOnce E input nh of
                   Inl f \<Rightarrow> Some (Inl f)
                 | Inr (code, _, nh1) \<Rightarrow>
                     if code < 0 then Some (Inr (False, nh1)) else call_loop E s rest nh1))
      else Some (Inr (\<not> sub_waiting (nh_sub_obj nh s) \<and> connected nh, nh)))"

definition service_call ::
    "'a nh_env \<Rightarrow> nat \<Rightarrow> msg \<Rightarrow> int list list \<Rightarrow> 'a node_handle \<Rightarrow> (fault + (bool \<times> 'a node_handle)) option" where
  "service_call E s request inputs nh =
     (if \<not> connected nh then Some (Inr (False, nh))
      else (let nh1 = nh\<lparr>nh_sub_obj := (nh_sub_obj nh)(s := (nh_sub_obj nh s)\<lparr>sub_waiting := True\<rparr>)\<rparr>
            in case publisher_publish E (sub_pub (nh_sub_obj nh1 s)) request nh1 of
                 None \<Rightarrow> Some (Inl Log_recursion)
               | Some (_, nh2) \<Rightarrow> call_loop E s inputs nh2))"

end
