(* ===== verification/Avr_Float.thy ===== *)
theory Avr_Float
  imports Prelude
begin

text \<open>
  Doubles on targets without a 64-bit floating point type, \<open>ros/msg.h\<close>: \<open>serializeAvrFloat64\<close> widens a
  single to the eight bytes of a double, \<open>deserializeAvrFloat64\<close> narrows the eight bytes of a double to
  a single. A single is its object representation, the 32-bit word that the code copies it to and from
  with \<open>memcpy\<close>. \<open>mantissa\<close> is a 32-bit word as in the code; \<open>exp\<close>, an \<open>int16_t\<close> that stays between
  \<open>0\<close> and \<open>2047\<close>, is an integer. Widening is exact, narrowing undoes it, and in the range of the normal
  singles narrowing rounds to nearest.
\<close>

section \<open>Widening\<close>

text \<open>The comparison \<open>f < 0\<close>: the sign is set and the value is neither a zero nor a NaN.\<close>

definition float_negative :: "u32 \<Rightarrow> bool" where
  "float_negative val \<longleftrightarrow> bit val 31 \<and> 0 < take_bit 31 val \<and> take_bit 31 val \<le> 0x7F800000"

text \<open>The loop that shifts a denormal fraction; it would not end for a fraction of zero.\<close>

partial_function (option) avr_normalise :: "u32 \<Rightarrow> int \<Rightarrow> (u32 \<times> int) option" where
  "avr_normalise mantissa exp =
    (if mantissa AND 0x800000 = 0 then avr_normalise (push_bit 1 mantissa) (exp - 1) else Some (mantissa, exp))"

definition avr_promote :: "u32 \<Rightarrow> int \<Rightarrow> (u32 \<times> int) option" where
  "avr_promote mantissa exp =
    (if exp = 255 then Some (mantissa, 2047)
     else if exp \<noteq> 0 then Some (mantissa, exp + (1023 - 127))
     else if mantissa = 0 then Some (mantissa, 0)
     else map_option (\<lambda>(m, e). (m AND 0x7FFFFF, e)) (avr_normalise (push_bit 1 mantissa) (exp + (1023 - 127))))"

definition avr_bytes :: "bool \<Rightarrow> u32 \<Rightarrow> int \<Rightarrow> u8 list" where
  "avr_bytes neg mantissa exp =
    [0, 0, 0,
     ucast (push_bit 5 mantissa AND 0xff),
     ucast (drop_bit 3 mantissa AND 0xff),
     ucast (drop_bit 11 mantissa AND 0xff),
     of_int (push_bit 4 exp AND 0xF0) OR ucast (drop_bit 19 mantissa AND 0x0F),
     (of_int (drop_bit 4 exp AND 0x7F)) OR (if neg then 0x80 else 0)]"

definition serializeAvrFloat64 :: "u32 \<Rightarrow> u8 list option" where
  "serializeAvrFloat64 f =
    map_option (\<lambda>(mantissa, exp). avr_bytes (float_negative f) mantissa exp)
      (avr_promote (f AND 0x7FFFFF) (uint (drop_bit 23 f AND 255)))"

section \<open>Narrowing\<close>

text \<open>A buffer of fewer than eight bytes is read past its end, which is \<open>None\<close> here.\<close>

definition avr_mantissa :: "u8 \<Rightarrow> u8 \<Rightarrow> u8 \<Rightarrow> u8 \<Rightarrow> u32" where
  "avr_mantissa b3 b4 b5 b6 =
    ((drop_bit 4 (ucast b3) AND 0x0F) OR push_bit 4 (ucast b4 AND 0xff) OR push_bit 12 (ucast b5 AND 0xff))
      OR push_bit 20 (ucast b6 AND 0x0f)"

definition avr_exponent :: "u8 \<Rightarrow> u8 \<Rightarrow> u32" where
  "avr_exponent b6 b7 = drop_bit 4 (ucast b6 AND 0xf0) OR push_bit 4 (ucast b7 AND 0x7f)"

definition avr_demote :: "u32 \<Rightarrow> int \<Rightarrow> u32 \<times> int" where
  "avr_demote mantissa exp =
    (if exp = 2047 then (mantissa, 255)
     else if exp - 1023 > 127 then (0, 255)
     else if exp - 1023 \<ge> -126 then (mantissa, exp - (1023 - 127))
     else if exp - 1023 < -150 then (mantissa, 0)
     else (drop_bit (nat ((-126 + 1023) - exp)) (mantissa OR 0x1000000), 0))"

definition avr_round :: "u32 \<Rightarrow> u32" where
  "avr_round mantissa = drop_bit 1 (if mantissa \<noteq> 0xFFFFFF then mantissa + 1 else mantissa)"

fun deserializeAvrFloat64 :: "u8 list \<Rightarrow> u32 option" where
  "deserializeAvrFloat64 (b0 # b1 # b2 # b3 # b4 # b5 # b6 # b7 # rest) =
    (let (mantissa, exp) = avr_demote (avr_mantissa b3 b4 b5 b6) (uint (avr_exponent b6 b7));
         val = avr_round mantissa OR push_bit 23 (of_int exp) in
     Some (val OR push_bit 24 (ucast b7 AND 0x80)))"
| "deserializeAvrFloat64 _ = None"

section \<open>Integers as byte arrays\<close>

text \<open>
  \<open>varToArr\<close> and \<open>arrToVar\<close> copy an integer to and from a byte array, least significant byte first; the
  generated code uses them for the 32-bit length of a string. An array shorter than the integer is read
  past its end, which is \<open>None\<close>.
\<close>

definition varToArr :: "'a::len word \<Rightarrow> u8 list" where
  "varToArr var = map (\<lambda>i. ucast (drop_bit (8 * i) var)) [0..<LENGTH('a) div 8]"

definition arrToVar :: "u8 list \<Rightarrow> 'a::len word option" where
  "arrToVar arr = (if length arr < LENGTH('a) div 8 then None
    else Some (fold (\<lambda>i var. var OR push_bit (8 * i) (ucast (arr ! i))) [0..<LENGTH('a) div 8] 0))"

section \<open>The values represented\<close>

text \<open>
  The value of a finite single or double, in units of \<open>2\<^sup>-\<^sup>1\<^sup>0\<^sup>7\<^sup>4\<close>, the smallest positive double, so that every
  value is an integer: with exponent field \<open>0\<close> a single is its fraction times \<open>2\<^sup>-\<^sup>1\<^sup>4\<^sup>9\<close>, otherwise the
  fraction has a hidden leading one. \<open>le_value\<close> is the number a little-endian byte sequence stands for.
\<close>

definition float_exponent :: "u32 \<Rightarrow> int" where
  "float_exponent f = uint (drop_bit 23 f AND 255)"

definition float_fraction :: "u32 \<Rightarrow> int" where
  "float_fraction f = uint (f AND 0x7FFFFF)"

definition float_units :: "u32 \<Rightarrow> int" where
  "float_units f = (if bit f 31 then -1 else 1) *
    (if float_exponent f = 0 then float_fraction f * 2 ^ 925
     else (2 ^ 23 + float_fraction f) * 2 ^ (nat (float_exponent f) - 1 + 925))"

primrec le_value :: "u8 list \<Rightarrow> int" where
  "le_value [] = 0"
| "le_value (b # bs) = uint b + 256 * le_value bs"

definition double_exponent :: "u8 list \<Rightarrow> nat" where
  "double_exponent bs = nat (le_value bs div 2 ^ 52 mod 2048)"

definition double_fraction :: "u8 list \<Rightarrow> int" where
  "double_fraction bs = le_value bs mod 2 ^ 52"

definition double_units :: "u8 list \<Rightarrow> int" where
  "double_units bs = (if 2 ^ 63 \<le> le_value bs then -1 else 1) *
    (if double_exponent bs = 0 then double_fraction bs
     else (2 ^ 52 + double_fraction bs) * 2 ^ (double_exponent bs - 1))"

text \<open>
  What widening does to the fields: special values and normal numbers keep the fraction, and a denormal
  fraction is shifted until its leading one becomes the hidden bit.
\<close>

definition promoted :: "int \<Rightarrow> int \<Rightarrow> int \<Rightarrow> int \<Rightarrow> bool" where
  "promoted m E m' e' \<longleftrightarrow>
    E = 255 \<and> m' = m \<and> e' = 2047 \<or>
    0 < E \<and> E < 255 \<and> m' = m \<and> e' = E + 896 \<or>
    E = 0 \<and> m = 0 \<and> m' = 0 \<and> e' = 0 \<or>
    (\<exists>k. E = 0 \<and> 1 \<le> k \<and> k \<le> 23 \<and> 2 ^ 23 + m' = m * 2 ^ k \<and> e' = 897 - int k)"

lemma fold_bytes_bit:
  fixes arr :: "u8 list"
  shows "bit (fold (\<lambda>i var. var OR push_bit (8 * i) (ucast (arr ! i))) [0..<n] (0 :: 'a::len word)) j \<longleftrightarrow>
    j < LENGTH('a) \<and> j < 8 * n \<and> bit (arr ! (j div 8)) (j mod 8)"
proof (induction n)
  case (Suc n)
  have "bit (push_bit (8 * n) (ucast (arr ! n)) :: 'a word) j \<longleftrightarrow>
      j < LENGTH('a) \<and> 8 * n \<le> j \<and> j < 8 * Suc n \<and> bit (arr ! (j div 8)) (j mod 8)"
  proof (cases "8 * n \<le> j \<and> j < 8 * Suc n")
    case True
    then have "j div 8 = n" "j mod 8 = j - 8 * n" by (simp_all add: div_nat_eqI) (metis div_nat_eqI minus_mult_div_eq_mod mult.commute True)
    then show ?thesis using True by (auto simp: bit_simps)
  next
    case False
    moreover have "\<not> bit (arr ! n) (j - 8 * n)" if "8 * Suc n \<le> j"
      using that bit_imp_le_length [of "arr ! n" "j - 8 * n"] by auto
    ultimately show ?thesis by (auto simp: bit_simps not_less)
  qed
  then show ?case using Suc by (auto simp: bit_or_iff)
qed simp

text \<open>An integer is read back from the bytes it was copied to, whatever follows them.\<close>

lemma arrToVar_varToArr:
  assumes "LENGTH('a) = 8 * n"
  shows "arrToVar (varToArr (var :: 'a::len word) @ rest) = Some var"
proof -
  have l: "length (varToArr var) = n" using assms by (simp add: varToArr_def)
  have "fold (\<lambda>i v. v OR push_bit (8 * i) (ucast ((varToArr var @ rest) ! i))) [0..<n] (0 :: 'a word) = var"
  proof (rule bit_word_eqI)
    fix j assume "j < LENGTH('a)"
    moreover from this have "j div 8 < n" using assms by (simp add: less_mult_imp_div_less mult.commute)
    ultimately show "bit (fold (\<lambda>i v. v OR push_bit (8 * i) (ucast ((varToArr var @ rest) ! i))) [0..<n] (0 :: 'a word)) j = bit var j"
      using assms l by (subst fold_bytes_bit) (simp add: nth_append varToArr_def bit_simps)
  qed
  then show ?thesis using assms l by (simp add: arrToVar_def)
qed

section \<open>Words as integers\<close>

lemma int_or_push: "0 \<le> a \<Longrightarrow> a < 2 ^ n \<Longrightarrow> (a::int) OR 2 ^ n * b = a + 2 ^ n * b"
proof -
  assume a: "0 \<le> a" "a < 2 ^ n"
  have "a AND push_bit n b = 0"
  proof (rule bit_eqI)
    fix i
    have "\<not> bit a i" if "n \<le> i"
      using a that by (metis bit_take_bit_iff not_le take_bit_int_eq_self)
    then show "bit (a AND push_bit n b) i = bit (0::int) i" by (auto simp: bit_simps)
  qed
  then have "a + push_bit n b = a OR push_bit n b" by (rule disjunctive_add_eq_or)
  then show ?thesis by (simp add: push_bit_eq_mult mult.commute)
qed

lemma uint_or_push:
  assumes "uint (a :: 'a::len word) < 2 ^ n" "uint b = 2 ^ n * c"
  shows "uint (a OR b) = uint a + uint b"
  using int_or_push [of "uint a" n c] assms by (simp add: unsigned_or_eq)

lemma uint_and_mask: "uint (w AND mask n) = uint (w :: 'a::len word) mod 2 ^ n"
  by (metis and_mask_bintr bintr_uint take_bit_eq_mod take_bit_eq_mask unsigned_take_bit_eq)

lemma uint_drop: "uint (drop_bit n (w :: 'a::len word)) = uint w div 2 ^ n"
  by (subst unsigned_drop_bit_eq) (simp add: drop_bit_eq_div take_bit_int_eq_self)

lemma uint_push: "uint (push_bit n (w :: 'a::len word)) = (uint w * 2 ^ n) mod 2 ^ LENGTH('a)"
  by (subst unsigned_push_bit_eq) (simp only: take_bit_eq_mod push_bit_eq_mult)

lemma masks: "(0xff::u32) = mask 8" "(0x0F::u32) = mask 4" "(0x7F::u32) = mask 7" "(0x7FFFFF::u32) = mask 23"
    "(0xF0::u32) = push_bit 4 (mask 4)"
  by (simp_all add: mask_eq_exp_minus_1)

lemma uint_cast: "uint (ucast (w :: 'a::len word) :: 'b::len word) = uint w mod 2 ^ LENGTH('b)"
  by (simp add: unsigned_ucast_eq take_bit_eq_mod)

lemmas uint_ops = uint_and_mask uint_drop uint_push uint_cast

lemma int_and_nibble: "(16 * e) AND 0xF0 = 16 * ((e::int) mod 16)"
proof -
  have "16 * e AND 0xF0 = push_bit 4 e AND push_bit 4 (mask 4)" by (simp add: push_bit_eq_mult mask_eq_exp_minus_1 mult.commute)
  also have "\<dots> = push_bit 4 (take_bit 4 e)" by (simp only: push_bit_and take_bit_eq_mask)
  finally show ?thesis by (simp add: push_bit_eq_mult take_bit_eq_mod)
qed

lemma high_nibble: "0 \<le> x \<Longrightarrow> x < 256 \<Longrightarrow> x div 16 mod 16 = x div (16::int)"
  by (rule mod_pos_pos_trivial) (auto simp: div_less_iff_less_mult)

lemma zdiv_less_2: "0 \<le> x \<Longrightarrow> x < 2 * d \<Longrightarrow> x div d = 0 \<or> x div d = (1::int)"
  by (cases "x < d") (simp_all add: div_pos_pos_trivial div_pos_geq)

lemma recombine: "x = d * q + r \<Longrightarrow> q = 256 * s + t \<Longrightarrow> x = r + d * t + d * 256 * (s::int)"
  by (simp add: algebra_simps)

lemma power_numeral_256: "2 ^ 23 * 256 = (2 ^ 31 :: int)" "x + (0::int) = x"
  by simp_all

lemma low_digit: "0 \<le> x \<Longrightarrow> x < n \<Longrightarrow> (x + n * k) mod n = (x::int)"
  by simp

lemma regroup:
  fixes x0 x1 x2 x3 x4 x5 x6 x7 :: int
  assumes "x3 = 16 * h3 + l3" "x6 = 16 * h6 + l6" "x7 = 128 * h7 + l7"
  shows "x0 + 256 * (x1 + 256 * (x2 + 256 * (x3 + 256 * (x4 + 256 * (x5 + 256 * (x6 + 256 * (x7 + 256 * 0))))))) =
    (x0 + 256 * x1 + 65536 * x2 + 16777216 * l3) + 2 ^ 28 * (h3 + 16 * x4 + 4096 * x5 + 1048576 * l6) +
    (h6 + 16 * l7) * 2 ^ 52 + 2 ^ 63 * h7"
  unfolding assms by simp

section \<open>The fields of the byte sequence\<close>

lemma split_mantissa:
  fixes M :: int
  assumes "0 \<le> M" "M < 2 ^ 23"
  obtains a b c d where "M = a + 8 * b + 2048 * c + 524288 * d" "0 \<le> a" "a < 8" "0 \<le> b" "b < 256"
    "0 \<le> c" "c < 256" "0 \<le> d" "d < (16::int)"
proof
  let ?q = "M div 8"
  let ?r = "?q div 256"
  show "M = M mod 8 + 8 * (?q mod 256) + 2048 * (?r mod 256) + 524288 * (?r div 256)"
    using mult_div_mod_eq [of 8 M] mult_div_mod_eq [of 256 ?q] mult_div_mod_eq [of 256 ?r] by linarith
  show "?r div 256 < 16" "0 \<le> ?r div 256" using assms by (simp_all add: div_mult2_eq [symmetric] zdiv_zmult2_eq [symmetric])
qed simp_all

lemma avr_mantissa_value:
  "uint (avr_mantissa b3 b4 b5 b6) = uint b3 div 16 + 16 * uint b4 + 4096 * uint b5 + 1048576 * (uint b6 mod 16)"
proof -
  let ?p3 = "drop_bit 4 (ucast b3) AND 0x0F :: u32" and ?p4 = "push_bit 4 (ucast b4 AND 0xff) :: u32"
  let ?p5 = "push_bit 12 (ucast b5 AND 0xff) :: u32" and ?p6 = "push_bit 20 (ucast b6 AND 0x0f) :: u32"
  have bd: "uint b3 < 256" "uint b4 < 256" "uint b5 < 256" "uint b6 < 256"
    using uint_lt2p [of b3] uint_lt2p [of b4] uint_lt2p [of b5] uint_lt2p [of b6] by simp_all
  have v3: "uint ?p3 = uint b3 div 16" using bd by (simp only: masks uint_ops) (simp add: high_nibble)
  have v4: "uint ?p4 = 2 ^ 4 * uint b4" using bd by (simp only: masks uint_ops) simp
  have v5: "uint ?p5 = 2 ^ 12 * uint b5" using bd by (simp only: masks uint_ops) simp
  have v6: "uint ?p6 = 2 ^ 20 * (uint b6 mod 16)" using bd by (simp only: masks uint_ops) simp
  have s1: "uint (?p3 OR ?p4) = uint ?p3 + uint ?p4" by (rule uint_or_push [OF _ v4]) (use bd v3 in simp)
  have s2: "uint (?p3 OR ?p4 OR ?p5) = uint ?p3 + uint ?p4 + uint ?p5"
    using uint_or_push [OF _ v5, of "?p3 OR ?p4"] bd v3 v4 s1 by (simp add: or.assoc)
  have s3: "uint ((?p3 OR ?p4 OR ?p5) OR ?p6) = uint ?p3 + uint ?p4 + uint ?p5 + uint ?p6"
    using uint_or_push [OF _ v6, of "?p3 OR ?p4 OR ?p5"] bd v3 v4 v5 s2 by simp
  show ?thesis unfolding avr_mantissa_def s3 v3 v4 v5 v6 by simp
qed

lemma avr_exponent_value: "uint (avr_exponent b6 b7) = uint b6 div 16 + 16 * (uint b7 mod 128)"
proof -
  let ?q6 = "drop_bit 4 (ucast b6 AND 0xf0) :: u32" and ?q7 = "push_bit 4 (ucast b7 AND 0x7f) :: u32"
  have bd: "uint b6 < 256" "uint b7 < 256"
    using uint_lt2p [of b6] uint_lt2p [of b7] by simp_all
  have "drop_bit 4 (ucast b6 AND 0xf0) = (drop_bit 4 (ucast b6) AND 0x0f :: u32)"
    by (simp add: drop_bit_and)
  then have v6: "uint ?q6 = uint b6 div 16"
    using bd by (simp only: masks uint_ops) (simp add: high_nibble)
  have v7: "uint ?q7 = 2 ^ 4 * (uint b7 mod 128)"
    using bd by (simp only: masks uint_ops) simp
  have "uint (?q6 OR ?q7) = uint ?q6 + uint ?q7" by (rule uint_or_push [OF _ v7]) (use bd v6 in simp)
  then show ?thesis unfolding avr_exponent_def v6 v7 by simp
qed

lemma avr_fields_bound:
  "0 \<le> uint (avr_mantissa b3 b4 b5 b6)" "uint (avr_mantissa b3 b4 b5 b6) < 2 ^ 24"
  "0 \<le> uint (avr_exponent b6 b7)" "uint (avr_exponent b6 b7) < 2048"
proof -
  have bd: "uint b < 256" for b :: u8 using uint_lt2p [of b] by simp
  have "uint b3 div 16 < 16" "uint b6 div 16 < 16" using bd [of b3] bd [of b6] by simp_all
  moreover have "uint b6 mod 16 < 16" "uint b7 mod 128 < 128" by simp_all
  ultimately show "uint (avr_mantissa b3 b4 b5 b6) < 2 ^ 24" "uint (avr_exponent b6 b7) < 2048"
    using bd [of b4] bd [of b5] unfolding avr_mantissa_value avr_exponent_value by simp_all
qed simp_all

lemma byte_3: "uint (ucast (push_bit 5 m AND 0xff) :: u8) = (uint (m::u32) * 32) mod 256"
proof -
  have "uint m * 32 mod 2 ^ 32 mod 2 ^ 8 = uint m * 32 mod (2 ^ 8 :: int)" by (rule mod_mod_cancel) simp
  then show ?thesis by (simp only: masks uint_ops) simp
qed

lemma byte_4: "uint (ucast (drop_bit 3 m AND 0xff) :: u8) = uint (m::u32) div 8 mod 256"
  by (simp only: masks uint_ops) simp

lemma byte_5: "uint (ucast (drop_bit 11 m AND 0xff) :: u8) = uint (m::u32) div 2048 mod 256"
  by (simp only: masks uint_ops) simp

lemma byte_6:
  "uint (of_int (push_bit 4 e AND 0xF0) OR ucast (drop_bit 19 m AND 0x0F) :: u8) =
    uint (m::u32) div 524288 mod 16 + 16 * (e mod 16)"
proof -
  let ?hi = "of_int (push_bit 4 e AND 0xF0) :: u8" and ?lo = "ucast (drop_bit 19 m AND 0x0F) :: u8"
  have "push_bit 4 e AND 0xF0 = 16 * (e mod 16)" using int_and_nibble [of e] by (simp add: push_bit_eq_mult mult.commute)
  then have hi: "uint ?hi = 2 ^ 4 * (e mod 16)" by (simp only: unsigned_of_int) (simp add: take_bit_int_eq_self)
  have lo: "uint ?lo = uint m div 524288 mod 16" by (simp only: masks uint_ops) simp
  have "uint (?lo OR ?hi) = uint ?lo + uint ?hi" by (rule uint_or_push [OF _ hi]) (simp add: lo)
  then show ?thesis by (simp only: or.commute [of ?hi] hi lo) simp
qed

lemma byte_7:
  assumes "0 \<le> e" "e < 2048"
  shows "uint (of_int (drop_bit 4 e AND 0x7F) OR (if neg then 0x80 else 0) :: u8) = e div 16 + (if neg then 128 else 0)"
proof -
  have "drop_bit 4 e AND (2 ^ 7 - 1) = e div 16 mod 128"
    by (simp only: mask_eq_exp_minus_1 [symmetric] take_bit_eq_mask [symmetric]) (simp add: drop_bit_eq_div take_bit_eq_mod)
  then have lo: "uint (of_int (drop_bit 4 e AND 0x7F) :: u8) = e div 16"
    using assms by (simp add: unsigned_of_int take_bit_int_eq_self mod_pos_pos_trivial)
  have hi: "uint (0x80 :: u8) = 2 ^ 7 * 1" by simp
  show ?thesis using uint_or_push [OF _ hi, of "of_int (drop_bit 4 e AND 0x7F)"] lo assms by simp
qed

lemma avr_bytes_fields:
  assumes "uint m < 2 ^ 23" "0 \<le> e" "e < 2048"
  obtains b3 b4 b5 b6 b7 where "avr_bytes neg m e = [0, 0, 0, b3, b4, b5, b6, b7]"
    "uint (avr_mantissa b3 b4 b5 b6) = 2 * uint m" "uint (avr_exponent b6 b7) = e"
    "uint b7 = e div 16 + (if neg then 128 else 0)"
    "le_value (avr_bytes neg m e) = uint m * 2 ^ 29 + e * 2 ^ 52 + (if neg then 2 ^ 63 else 0)"
proof -
  obtain b3 b4 b5 b6 b7 where bs: "avr_bytes neg m e = [0, 0, 0, b3, b4, b5, b6, b7]"
    and b: "uint b3 = (uint m * 32) mod 256" "uint b4 = uint m div 8 mod 256" "uint b5 = uint m div 2048 mod 256"
      "uint b6 = uint m div 524288 mod 16 + 16 * (e mod 16)" "uint b7 = e div 16 + (if neg then 128 else 0)"
    using byte_3 [of m] byte_4 [of m] byte_5 [of m] byte_6 [of e m] byte_7 [OF assms(2,3), of neg]
    unfolding avr_bytes_def by blast
  obtain x y z t where M: "uint m = x + 8 * y + 2048 * z + 524288 * t"
      "0 \<le> x" "x < 8" "0 \<le> y" "y < 256" "0 \<le> z" "z < 256" "0 \<le> t" "t < 16"
    using split_mantissa [of "uint m"] assms(1) by (metis unsigned_greater_eq)
  have q: "uint m div 8 = y + 256 * z + 65536 * t" "uint m div 2048 = z + 256 * t" "uint m div 524288 = t"
    using M by simp_all
  have c: "uint b3 = 32 * x" "uint b4 = y" "uint b5 = z" "uint b6 = t + 16 * (e mod 16)"
    using M low_digit [of "32 * x" 256 "y + 256 * z + 65536 * t"] low_digit [of y 256 "z + 256 * t"] low_digit [of z 256 t]
    unfolding b q by (simp_all add: algebra_simps)
  have e: "e * 2 ^ 52 = 2 ^ 52 * (e mod 16) + 2 ^ 56 * (e div 16)"
  proof -
    have "(16 * q + r) * 2 ^ 52 = 2 ^ 52 * r + 2 ^ 56 * q" for q r :: int by (simp add: algebra_simps)
    from this [of "e div 16" "e mod 16"] show ?thesis by (simp only: mult_div_mod_eq)
  qed
  show thesis
    by (rule that [OF bs], unfold e)
      (use M assms in \<open>simp_all add: avr_mantissa_value avr_exponent_value c b(5) bs\<close>)
qed

lemma le_value_8:
  fixes b0 b1 b2 b3 b4 b5 b6 b7 :: u8
  defines "bs \<equiv> [b0, b1, b2, b3, b4, b5, b6, b7]"
  obtains lo where "0 \<le> lo" "lo < 2 ^ 28"
    "le_value bs = lo + 2 ^ 28 * uint (avr_mantissa b3 b4 b5 b6) + uint (avr_exponent b6 b7) * 2 ^ 52 +
      (if 1 = uint b7 div 128 then 2 ^ 63 else 0)"
proof -
  have bd: "uint b < 256" for b :: u8 using uint_lt2p [of b] by simp
  have digits: "x = 16 * (x div 16) + x mod 16" "x = 128 * (x div 128) + x mod 128" for x :: int by simp_all
  let ?lo = "uint b0 + 256 * uint b1 + 65536 * uint b2 + 16777216 * (uint b3 mod 16)"
  have "uint b3 mod 16 \<le> 15" using pos_mod_bound [of 16 "uint b3"] by linarith
  then have "?lo < 2 ^ 28" using bd [of b0] bd [of b1] bd [of b2] by simp
  moreover have "uint b7 div 128 = 0 \<or> uint b7 div 128 = 1" using zdiv_less_2 [of "uint b7" 128] bd [of b7] by simp
  then have s: "2 ^ 63 * (uint b7 div 128) = (if 1 = uint b7 div 128 then 2 ^ 63 else 0)" by auto
  have "le_value bs = ?lo + 2 ^ 28 * uint (avr_mantissa b3 b4 b5 b6) + uint (avr_exponent b6 b7) * 2 ^ 52 + 2 ^ 63 * (uint b7 div 128)"
    unfolding bs_def avr_mantissa_value avr_exponent_value
      le_value.simps
    by (rule regroup [OF digits(1) [of "uint b3"] digits(1) [of "uint b6"] digits(2) [of "uint b7"]])
  then have "le_value bs = ?lo + 2 ^ 28 * uint (avr_mantissa b3 b4 b5 b6) + uint (avr_exponent b6 b7) * 2 ^ 52 +
      (if 1 = uint b7 div 128 then 2 ^ 63 else 0)" unfolding s .
  moreover have "0 \<le> ?lo" by simp
  ultimately show thesis by (intro that)
qed

section \<open>The fields of a single and of a double\<close>

lemma float_fields:
  "float_exponent f = uint f div 2 ^ 23 mod 256" "float_fraction f = uint f mod 2 ^ 23"
  "uint f = float_fraction f + 2 ^ 23 * float_exponent f + (if bit f 31 then 2 ^ 31 else 0)"
  "0 \<le> float_exponent f" "float_exponent f < 256" "0 \<le> float_fraction f" "float_fraction f < 2 ^ 23"
proof -
  show e: "float_exponent f = uint f div 2 ^ 23 mod 256" "float_fraction f = uint f mod 2 ^ 23"
    unfolding float_exponent_def float_fraction_def by (simp_all only: masks uint_ops) simp_all
  then show "0 \<le> float_exponent f" "float_exponent f < 256" "0 \<le> float_fraction f" "float_fraction f < 2 ^ 23" by simp_all
  have "uint f < 2 ^ 32" using uint_lt2p [of f] by simp
  then have "uint f div 2 ^ 31 = (if odd (uint f div 2 ^ 31) then 1 else 0)"
    using zdiv_less_2 [of "uint f" "2 ^ 31"] by auto
  moreover have "bit f 31 \<longleftrightarrow> odd (uint f div 2 ^ 31)" by (metis bit_iff_odd bit_uint_iff bit_imp_le_length bit_unsigned_iff)
  moreover have "uint f div 2 ^ 31 = uint f div 2 ^ 23 div 256" by (simp add: zdiv_zmult2_eq [symmetric])
  ultimately have "uint f div 2 ^ 23 div 256 = (if bit f 31 then 1 else 0)" by simp
  then have q: "uint f div 2 ^ 23 = 256 * (if bit f 31 then 1 else 0) + uint f div 2 ^ 23 mod 256"
    using mult_div_mod_eq [of 256 "uint f div 2 ^ 23", symmetric] by (simp only:)
  show "uint f = float_fraction f + 2 ^ 23 * float_exponent f + (if bit f 31 then 2 ^ 31 else 0)"
    using recombine [OF mult_div_mod_eq [of "2 ^ 23" "uint f", symmetric] q] unfolding e
    by (cases "bit f 31") (simp_all only: if_True if_False, simp_all only: mult_1_right mult_zero_right power_numeral_256)
qed

lemma uint_magnitude: "uint (take_bit 31 f) = float_fraction f + 2 ^ 23 * float_exponent f"
proof -
  have "uint (take_bit 31 f) = uint f mod 2 ^ 31" by (subst unsigned_take_bit_eq) (simp add: take_bit_eq_mod)
  also have "uint f = (float_fraction f + 2 ^ 23 * float_exponent f) + 2 ^ 31 * (if bit f 31 then 1 else 0)"
    by (subst float_fields(3)) simp
  also have "\<dots> mod 2 ^ 31 = float_fraction f + 2 ^ 23 * float_exponent f"
    by (rule low_digit) (use float_fields(4-7) [of f] in simp_all)
  finally show ?thesis .
qed

lemma kept_value:
  "uint (if float_negative f then f else take_bit 31 f) =
    float_fraction f + 2 ^ 23 * float_exponent f + (if float_negative f then 2 ^ 31 else 0)"
proof (cases "float_negative f")
  case True
  then have "bit f 31" by (simp add: float_negative_def)
  with True show ?thesis using float_fields(3) [of f] by (simp only: if_True)
next
  case False
  then show ?thesis using uint_magnitude [of f] by (simp only: if_False add_0_right)
qed

lemma float_negative_iff:
  "float_negative f \<longleftrightarrow> bit f 31 \<and> (float_exponent f \<noteq> 0 \<or> float_fraction f \<noteq> 0) \<and> \<not> (float_exponent f = 255 \<and> float_fraction f \<noteq> 0)"
proof -
  note t = uint_magnitude [of f]
  have bd: "0 \<le> float_fraction f" "float_fraction f < 2 ^ 23" "0 \<le> float_exponent f" "float_exponent f < 256"
    by (rule float_fields)+
  have "0 < take_bit 31 f \<longleftrightarrow> float_exponent f \<noteq> 0 \<or> float_fraction f \<noteq> 0"
    unfolding word_less_def t using bd by auto
  moreover have "take_bit 31 f \<le> 0x7F800000 \<longleftrightarrow> \<not> (float_exponent f = 255 \<and> float_fraction f \<noteq> 0)"
  proof (cases "float_exponent f = 255")
    case False
    then have "float_exponent f \<le> 254" using bd by simp
    then show ?thesis unfolding word_le_def t using bd False by simp
  next
    case True
    then show ?thesis unfolding word_le_def t using bd by auto
  qed
  ultimately show ?thesis unfolding float_negative_def by simp
qed

lemma float_fields_of:
  assumes "uint f = m + 2 ^ 23 * e + 2 ^ 31 * t" "0 \<le> m" "m < 2 ^ 23" "0 \<le> e" "e < 256" "t = 0 \<or> t = 1"
  shows "float_fraction f = m" "float_exponent f = e" "bit f 31 \<longleftrightarrow> t = 1"
proof -
  have v: "uint f = m + 2 ^ 23 * (e + 256 * t)" using assms(1) by simp
  show m: "float_fraction f = m" unfolding float_fields(2) v by (rule low_digit [OF assms(2,3)])
  have "uint f div 2 ^ 23 = e + 256 * t" unfolding v using assms(2,3) by simp
  then show e: "float_exponent f = e" unfolding float_fields(1) using low_digit [OF assms(4,5)] by simp
  show "bit f 31 \<longleftrightarrow> t = 1" using float_fields(3) [of f] assms(1,6) unfolding m e by (auto split: if_splits)
qed

lemma double_fields:
  assumes "le_value bs = M + e * 2 ^ 52 + (if neg then 2 ^ 63 else 0)" "0 \<le> M" "M < 2 ^ 52" "0 \<le> e" "e < 2048"
  shows "double_fraction bs = M" "double_exponent bs = nat e" "2 ^ 63 \<le> le_value bs \<longleftrightarrow> neg"
proof -
  have v: "le_value bs = M + 2 ^ 52 * (e + 2048 * (if neg then 1 else 0))" using assms(1) by simp
  show "double_fraction bs = M" unfolding double_fraction_def v by (rule low_digit [OF assms(2,3)])
  have "le_value bs div 2 ^ 52 = e + 2048 * (if neg then 1 else 0)" unfolding v using assms(2,3) by simp
  then show "double_exponent bs = nat e"
    unfolding double_exponent_def using low_digit [OF assms(4,5)] by simp
  show "2 ^ 63 \<le> le_value bs \<longleftrightarrow> neg"
  proof (cases neg)
    case False
    have "M + 2 ^ 52 * e < 2 ^ 52 + 2 ^ 52 * 2047" using assms(2-5) by (intro add_less_le_mono mult_left_mono) auto
    then show ?thesis using False assms(1) by (simp add: mult.commute)
  qed (use assms in simp)
qed

lemma double_units_value:
  assumes "le_value bs = M + e * 2 ^ 52 + (if neg then 2 ^ 63 else 0)" "0 \<le> M" "M < 2 ^ 52" "0 \<le> e" "e < 2048"
  shows "double_units bs = (if neg then -1 else 1) * (if e = 0 then M else (2 ^ 52 + M) * 2 ^ (nat e - 1))"
  unfolding double_units_def double_fields [OF assms] using assms(4) by auto

section \<open>Widening and narrowing\<close>

lemma avr_normalise_spec:
  "0 < uint w \<Longrightarrow> uint w < 2 ^ 24 \<Longrightarrow>
    \<exists>k w'. avr_normalise w e = Some (w', e - int k) \<and> uint w' = uint w * 2 ^ k \<and> 2 ^ 23 \<le> uint w' \<and> uint w' < 2 ^ 24"
proof (induction "nat (2 ^ 24 - uint w)" arbitrary: w e rule: less_induct)
  case less
  have b: "w AND 0x800000 = 0 \<longleftrightarrow> uint w < 2 ^ 23"
  proof -
    have "uint w div 2 ^ 23 < 2" using less.prems by simp
    then have "even (uint w div 2 ^ 23) \<longleftrightarrow> uint w < 2 ^ 23"
      using less.prems by (auto simp: pos_imp_zdiv_pos_iff elim!: evenE)
    moreover have "bit w 23 \<longleftrightarrow> odd (uint w div 2 ^ 23)" by (metis bit_iff_odd bit_uint_iff bit_imp_le_length bit_unsigned_iff)
    moreover have "w AND 2 ^ 23 = 0 \<longleftrightarrow> \<not> bit w 23" by (rule and_exp_eq_0_iff_not_bit)
    ultimately show ?thesis by simp
  qed
  show ?case
  proof (cases "uint w < 2 ^ 23")
    case True
    have u: "uint (push_bit 1 w) = uint w * 2" using True by (simp only: uint_push) simp
    have "nat (2 ^ 24 - uint (push_bit 1 w)) < nat (2 ^ 24 - uint w)" "0 < uint (push_bit 1 w)"
        "uint (push_bit 1 w) < 2 ^ 24"
      using less.prems True by (simp_all only: u) simp_all
    from less.hyps [OF this, of "e - 1"] obtain k w' where k:
        "avr_normalise (push_bit 1 w) (e - 1) = Some (w', e - 1 - int k)"
        "uint w' = uint w * 2 * 2 ^ k" "2 ^ 23 \<le> uint w'" "uint w' < 2 ^ 24"
      unfolding u by blast
    show ?thesis
    proof (intro exI conjI)
      show "avr_normalise w e = Some (w', e - int (Suc k))"
        using b True k(1) by (subst avr_normalise.simps) (simp add: algebra_simps)
      show "uint w' = uint w * 2 ^ Suc k" using k(2) by simp
    qed (use k in auto)
  next
    case False
    have "avr_normalise w e = Some (w, e - int 0)" using b False by (subst avr_normalise.simps) simp
    then show ?thesis using False less.prems by (intro exI [of _ 0] exI [of _ w]) simp
  qed
qed

lemma avr_promote_denormal:
  assumes "0 < uint m" "uint m < 2 ^ 23"
  shows "\<exists>m' k. avr_promote m 0 = Some (m', 897 - int k) \<and> uint m' < 2 ^ 23 \<and> 1 \<le> k \<and> k \<le> 23 \<and>
    2 ^ 23 + uint m' = uint m * 2 ^ k"
proof -
  have u: "uint (push_bit 1 m) = uint m * 2" using assms by (simp only: uint_push) simp
  obtain j w where j: "avr_normalise (push_bit 1 m) 896 = Some (w, 896 - int j)"
      "uint w = uint m * 2 * 2 ^ j" "2 ^ 23 \<le> uint w" "uint w < 2 ^ 24"
    using avr_normalise_spec [of "push_bit 1 m" 896] assms unfolding u by auto
  have w: "uint (w AND 0x7FFFFF) = uint w - 2 ^ 23"
    using j(3,4) low_digit [of "uint w - 2 ^ 23" "2 ^ 23" 1] by (simp only: masks uint_ops) simp
  have "j < 23"
  proof (rule ccontr)
    assume "\<not> j < 23"
    then have "(2::int) ^ 23 \<le> 2 ^ j" by (intro power_increasing) auto
    then have "1 * 2 ^ 23 \<le> uint m * 2 ^ j" using assms(1) by (intro mult_mono) auto
    then show False using j(2,4) by simp
  qed
  moreover have "m \<noteq> 0" using assms by auto
  then have "avr_promote m 0 = Some (w AND 0x7FFFFF, 897 - int (Suc j))"
    using j(1) by (simp add: avr_promote_def)
  ultimately show ?thesis
    using j w by (intro exI [of _ "w AND 0x7FFFFF"] exI [of _ "Suc j"]) simp
qed

lemma avr_promote_spec:
  assumes "uint m < 2 ^ 23" "0 \<le> E" "E < 256"
  obtains m' e' where "avr_promote m E = Some (m', e')" "uint m' < 2 ^ 23" "0 \<le> e'" "e' < 2048"
    "promoted (uint m) E (uint m') e'"
proof (cases "E = 0 \<and> m \<noteq> 0")
  case True
  then have "0 < uint m" by (simp add: word_neq_0_conv word_less_def)
  then obtain m' k where k: "avr_promote m 0 = Some (m', 897 - int k)" "uint m' < 2 ^ 23" "1 \<le> k" "k \<le> 23"
      "2 ^ 23 + uint m' = uint m * 2 ^ k"
    using avr_promote_denormal [OF _ assms(1)] by blast
  show thesis
    by (rule that [of m' "897 - int k"]) (use True k in \<open>auto simp: promoted_def\<close>)
next
  case False
  then have "avr_promote m E = Some (m, if E = 255 then 2047 else if E = 0 then 0 else E + 896)"
    by (auto simp: avr_promote_def)
  then show thesis
    by (rule that) (use assms False in \<open>auto simp: promoted_def\<close>)
qed

lemma promoted_exact:
  assumes "promoted m E m' e'" "E \<noteq> 255" "0 \<le> m'"
  shows "(if e' = 0 then m' * 2 ^ 29 else (2 ^ 52 + m' * 2 ^ 29) * 2 ^ (nat e' - 1)) =
    (if E = 0 then m * 2 ^ 925 else (2 ^ 23 + m) * 2 ^ (nat E - 1 + 925))"
  using assms(1) unfolding promoted_def
proof (elim disjE exE conjE)
  assume n: "0 < E" "E < 255" "m' = m" "e' = E + 896"
  then have e: "nat e' - 1 = nat E - 1 + 896" "e' \<noteq> 0" "E \<noteq> 0" by simp_all
  have "(2 ^ 52 + m * 2 ^ 29) * 2 ^ (j + 896) = (2 ^ 23 + m) * (2::int) ^ (j + 925)" for j
    by (simp add: power_add algebra_simps)
  then show ?thesis unfolding if_not_P [OF e(2)] if_not_P [OF e(3)] e(1) n(3) .
next
  fix k assume k: "E = 0" "1 \<le> k" "k \<le> 23" "2 ^ 23 + m' = m * 2 ^ k" "e' = 897 - int k"
  have "(2 ^ 52 + m' * 2 ^ 29) * 2 ^ (nat e' - 1) = (2 ^ 23 + m') * 2 ^ (29 + (896 - k))"
  proof -
    have "nat e' - 1 = 896 - k" using k(5) by simp
    moreover have "(2 ^ 52 + m' * 2 ^ 29) * 2 ^ j = (2 ^ 23 + m') * (2::int) ^ (29 + j)" for j
      by (simp add: power_add algebra_simps)
    ultimately show ?thesis by (simp only:)
  qed
  also have "\<dots> = m * 2 ^ (k + (29 + (896 - k)))" unfolding k(4) by (simp add: power_add)
  also have "k + (29 + (896 - k)) = 925" using k by simp
  finally show ?thesis using k by simp
qed (use assms in auto)

lemma serialize_fields:
  obtains m' e' where "serializeAvrFloat64 f = Some (avr_bytes (float_negative f) m' e')"
    "uint m' < 2 ^ 23" "0 \<le> e'" "e' < 2048" "promoted (float_fraction f) (float_exponent f) (uint m') e'"
proof -
  obtain m' e' where "avr_promote (f AND 0x7FFFFF) (float_exponent f) = Some (m', e')" "uint m' < 2 ^ 23"
      "0 \<le> e'" "e' < 2048" "promoted (uint (f AND 0x7FFFFF)) (float_exponent f) (uint m') e'"
    using avr_promote_spec [of "f AND 0x7FFFFF" "float_exponent f"] float_fields(4-7) [of f]
    unfolding float_fraction_def by blast
  then show thesis
    using that by (simp add: serializeAvrFloat64_def float_fraction_def float_exponent_def)
qed

lemma avr_round_even:
  assumes "uint w = 2 * x" "0 \<le> x" "x < 2 ^ 23"
  shows "uint (avr_round w) = x"
proof -
  have "w \<noteq> 0xFFFFFF" using assms by auto
  moreover have "uint (w + 1) = 2 * x + 1"
    using assms by (simp add: uint_word_ariths mod_pos_pos_trivial)
  ultimately show ?thesis by (simp only: avr_round_def uint_drop) simp
qed

lemma avr_round_nearest:
  assumes "uint w \<noteq> 2 ^ 24 - 1" "uint w < 2 ^ 24"
  shows "uint (avr_round w) = (uint w + 1) div 2" "uint (avr_round w) < 2 ^ 23"
proof -
  have "w \<noteq> 0xFFFFFF" using assms(1) by auto
  moreover have "uint (w + 1) = uint w + 1" using assms(2) by (simp add: uint_word_ariths)
  ultimately show r: "uint (avr_round w) = (uint w + 1) div 2" by (simp only: avr_round_def uint_drop if_P) simp
  have "uint w + 1 < 2 ^ 24" using assms by simp
  then show "uint (avr_round w) < 2 ^ 23" unfolding r by simp
qed

lemma avr_assemble:
  assumes "uint m < 2 ^ 23" "0 \<le> e" "e < 256"
  shows "uint ((m OR push_bit 23 (of_int e)) OR push_bit 24 (ucast (b7 :: u8) AND 0x80) :: u32) =
    uint m + 2 ^ 23 * e + 2 ^ 31 * (uint b7 div 128)"
proof -
  let ?e = "push_bit 23 (of_int e) :: u32" and ?s = "push_bit 24 (ucast b7 AND 0x80) :: u32"
  have e: "uint ?e = 2 ^ 23 * e"
    using assms by (simp only: uint_push unsigned_of_int) (simp add: take_bit_int_eq_self)
  have me: "uint (m OR ?e) = uint m + 2 ^ 23 * e" using uint_or_push [OF assms(1) e] e by simp
  have b: "uint b7 < 256" using uint_lt2p [of b7] by simp
  have "ucast b7 AND 0x80 = (push_bit 7 (drop_bit 7 (ucast b7)) :: u32)"
  proof (rule bit_word_eqI)
    fix n assume n: "n < LENGTH(32)"
    have "(0x80 :: u32) = push_bit 7 (mask 1)" by (simp add: mask_eq_exp_minus_1)
    then show "bit (ucast b7 AND 0x80 :: u32) n = bit (push_bit 7 (drop_bit 7 (ucast b7)) :: u32) n"
      using n by (auto simp only: bit_simps) (auto simp: bit_simps not_less dest: bit_imp_le_length)
  qed
  then have "?s = push_bit 24 (push_bit 7 (drop_bit 7 (ucast b7)))" by simp
  then have s: "uint ?s = 2 ^ 31 * (uint b7 div 128)"
  proof -
    have "uint b7 div 128 = 0 \<or> uint b7 div 128 = 1" using zdiv_less_2 [of "uint b7" 128] b by simp
    then show ?thesis using b by (simp only: \<open>?s = _\<close> uint_ops) auto
  qed
  have "uint (m OR ?e) < 2 ^ 31" unfolding me using assms by simp
  from uint_or_push [OF this s] show ?thesis unfolding me s .
qed

text \<open>Narrowing undoes widening, the shift of denormal fractions included.\<close>

lemma avr_demote_promoted:
  assumes "promoted m E m' e'" "0 \<le> m" "m < 2 ^ 23" "0 \<le> m'" "m' < 2 ^ 23" "uint w = 2 * m'"
  shows "\<exists>w'. avr_demote w e' = (w', E) \<and> uint (avr_round w') = m"
  using assms(1) unfolding promoted_def
proof (elim disjE exE conjE)
  fix k assume k: "E = 0" "1 \<le> k" "k \<le> 23" "2 ^ 23 + m' = m * 2 ^ k" "e' = 897 - int k"
  have one: "uint (0x1000000 :: u32) = 2 ^ 24 * 1" by simp
  have "uint (w OR 0x1000000) = uint w + uint (0x1000000 :: u32)"
    by (rule uint_or_push [OF _ one]) (use assms in simp)
  then have "uint (w OR 0x1000000) = 2 * m * 2 ^ k" using assms(6) k(4) by simp
  then have "uint (drop_bit k (w OR 0x1000000)) = 2 * m" by (simp only: uint_drop) simp
  from avr_round_even [OF this assms(2,3)]
  show ?thesis using k by (simp add: avr_demote_def)
qed (use avr_round_even [OF assms(6,4,5)] in \<open>auto simp: avr_demote_def\<close>)

lemma nearest_error:
  fixes lo T :: int
  assumes "0 \<le> lo" "lo < 2 ^ 28"
  shows "\<bar>(2 ^ 23 + (T + 1) div 2) * 2 ^ (j + 29) - (2 ^ 52 + (lo + 2 ^ 28 * T)) * 2 ^ j\<bar> \<le> 2 ^ (j + 28)"
proof -
  have "\<bar>2 ^ 29 * ((T + 1) div 2) - (lo + 2 ^ 28 * T)\<bar> \<le> 2 ^ 28"
  proof (cases "even T")
    case True
    then show ?thesis using assms by (auto elim!: evenE)
  next
    case False
    then obtain q where "T = 2 * q + 1" by (rule oddE)
    then show ?thesis using assms by auto
  qed
  then have "\<bar>(2 ^ 29 * ((T + 1) div 2) - (lo + 2 ^ 28 * T)) * 2 ^ j\<bar> \<le> 2 ^ 28 * 2 ^ j"
    unfolding abs_mult by (intro mult_mono) auto
  moreover have "(2 ^ 23 + (T + 1) div 2) * 2 ^ (j + 29) - (2 ^ 52 + (lo + 2 ^ 28 * T)) * 2 ^ j =
      (2 ^ 29 * ((T + 1) div 2) - (lo + 2 ^ 28 * T)) * 2 ^ j"
    by (simp add: power_add algebra_simps)
  ultimately show ?thesis by (simp add: power_add mult.commute)
qed

text \<open>What narrowing reads of a double: its exponent, the upper 24 bits of its fraction and its sign.\<close>

lemma deserialize_view:
  assumes "length bs = 8" and dom: "897 \<le> double_exponent bs \<and> double_exponent bs \<le> 1150 \<or> double_exponent bs < 873"
    and "double_fraction bs div 2 ^ 28 \<noteq> 2 ^ 24 - 1"
  defines "E \<equiv> if double_exponent bs < 873 then 0 else int (double_exponent bs) - 896"
  obtains f where "deserializeAvrFloat64 bs = Some f" "float_exponent f = E"
    "float_fraction f = (double_fraction bs div 2 ^ 28 + 1) div 2" "bit f 31 \<longleftrightarrow> 2 ^ 63 \<le> le_value bs"
proof -
  obtain b0 b1 b2 b3 b4 b5 b6 b7 where bs: "bs = [b0, b1, b2, b3, b4, b5, b6, b7]"
    using assms(1) by (auto simp: numeral_eq_Suc length_Suc_conv)
  define T where "T = uint (avr_mantissa b3 b4 b5 b6)"
  define e where "e = uint (avr_exponent b6 b7)"
  define t where "t = uint b7 div 128"
  obtain lo where lo: "0 \<le> lo" "lo < 2 ^ 28"
    and v: "le_value bs = lo + 2 ^ 28 * T + e * 2 ^ 52 + (if 1 = t then 2 ^ 63 else 0)"
    unfolding bs T_def e_def t_def by (rule le_value_8)
  have T: "0 \<le> T" "T < 2 ^ 24" and e: "0 \<le> e" "e < 2048"
    unfolding T_def e_def by (rule avr_fields_bound)+
  have t: "t = 0 \<or> t = 1" using zdiv_less_2 [of "uint b7" 128] uint_lt2p [of b7] by (simp add: t_def)
  have M: "0 \<le> lo + 2 ^ 28 * T" "lo + 2 ^ 28 * T < 2 ^ 52" using lo T by simp_all
  note D = double_fields [OF v M e]
  have dT: "double_fraction bs div 2 ^ 28 = T" using lo unfolding D(1) by simp
  have E: "0 \<le> E" "E < 256" "avr_demote (avr_mantissa b3 b4 b5 b6) e = (avr_mantissa b3 b4 b5 b6, E)"
    using dom e unfolding E_def D(2) by (auto simp: avr_demote_def)
  note R = avr_round_nearest [of "avr_mantissa b3 b4 b5 b6", folded T_def, OF assms(3) [unfolded dT] T(2)]
  let ?f = "(avr_round (avr_mantissa b3 b4 b5 b6) OR push_bit 23 (of_int E)) OR push_bit 24 (ucast b7 AND 0x80) :: u32"
  have f: "deserializeAvrFloat64 bs = Some ?f" using E(3) by (simp add: bs e_def)
  have "uint ?f = (T + 1) div 2 + 2 ^ 23 * E + 2 ^ 31 * t"
    using avr_assemble [of "avr_round (avr_mantissa b3 b4 b5 b6)" E b7] R E unfolding t_def by simp
  note F = float_fields_of [OF this _ _ E(1,2) t]
  show thesis by (rule that [OF f]) (use F T R D(3) in \<open>simp_all only: dT, auto\<close>)
qed

section \<open>Properties\<close>

text \<open>
  C30: Widening is exact: for every finite single, zeros and denormals included, the eight bytes written
  are a double of the same value. Writing them returns.
\<close>

theorem avr_promotion_exact:
  assumes "float_exponent f \<noteq> 255"
  shows "\<exists>bs. serializeAvrFloat64 f = Some bs \<and> length bs = 8 \<and> double_units bs = float_units f"
proof -
  obtain m' e' where p: "serializeAvrFloat64 f = Some (avr_bytes (float_negative f) m' e')"
      "uint m' < 2 ^ 23" "0 \<le> e'" "e' < 2048" "promoted (float_fraction f) (float_exponent f) (uint m') e'"
    by (rule serialize_fields)
  have v: "le_value (avr_bytes (float_negative f) m' e') =
      uint m' * 2 ^ 29 + e' * 2 ^ 52 + (if float_negative f then 2 ^ 63 else 0)"
    by (rule avr_bytes_fields [OF p(2-4)])
  have "double_units (avr_bytes (float_negative f) m' e') = (if float_negative f then -1 else 1) *
      (if e' = 0 then uint m' * 2 ^ 29 else (2 ^ 52 + uint m' * 2 ^ 29) * 2 ^ (nat e' - 1))"
    by (rule double_units_value [OF v]) (use p(2-4) in simp_all)
  also have "\<dots> = (if float_negative f then -1 else 1) *
      (if float_exponent f = 0 then float_fraction f * 2 ^ 925
       else (2 ^ 23 + float_fraction f) * 2 ^ (nat (float_exponent f) - 1 + 925))"
    by (subst promoted_exact [OF p(5) assms]) simp_all
  also have "\<dots> = float_units f"
    using float_negative_iff [of f] assms by (cases "bit f 31") (auto simp: float_units_def)
  finally show ?thesis using p(1) by (simp add: avr_bytes_def)
qed

theorem avr_promotion_exact_witness:
  "\<exists>bs. serializeAvrFloat64 0x00000003 = Some bs \<and> length bs = 8 \<and> double_units bs = 3 * 2 ^ 925"
  using avr_promotion_exact [of "0x00000003"] by (simp add: float_exponent_def float_units_def float_fraction_def)

text \<open>
  Narrowing undoes widening: every single is read back bit by bit, infinities, NaNs and denormals
  included, except that the sign of a negative zero or of a negative NaN is lost, which \<open>f < 0\<close> does not
  see.
\<close>

theorem avr_round_trip:
  "\<exists>bs. serializeAvrFloat64 f = Some bs \<and> length bs = 8 \<and>
    deserializeAvrFloat64 bs = Some (if float_negative f then f else take_bit 31 f)"
proof -
  obtain m' e' where p: "serializeAvrFloat64 f = Some (avr_bytes (float_negative f) m' e')"
      "uint m' < 2 ^ 23" "0 \<le> e'" "e' < 2048" "promoted (float_fraction f) (float_exponent f) (uint m') e'"
    by (rule serialize_fields)
  obtain b3 b4 b5 b6 b7 where b: "avr_bytes (float_negative f) m' e' = [0, 0, 0, b3, b4, b5, b6, b7]"
      "uint (avr_mantissa b3 b4 b5 b6) = 2 * uint m'" "uint (avr_exponent b6 b7) = e'"
      "uint b7 = e' div 16 + (if float_negative f then 128 else 0)"
      "le_value (avr_bytes (float_negative f) m' e') =
        uint m' * 2 ^ 29 + e' * 2 ^ 52 + (if float_negative f then 2 ^ 63 else 0)"
    by (rule avr_bytes_fields [OF p(2-4)])
  obtain w where w: "avr_demote (avr_mantissa b3 b4 b5 b6) e' = (w, float_exponent f)"
      "uint (avr_round w) = float_fraction f"
    using avr_demote_promoted [OF p(5) _ _ _ p(2) b(2)] float_fields(6,7) [of f] by auto
  have s: "uint b7 div 128 = (if float_negative f then 1 else 0)" using p(3,4) b(4) by auto
  let ?r = "(avr_round w OR push_bit 23 (of_int (float_exponent f))) OR push_bit 24 (ucast b7 AND 0x80) :: u32"
  have "uint ?r = float_fraction f + 2 ^ 23 * float_exponent f + (if float_negative f then 2 ^ 31 else 0)"
    using avr_assemble [of "avr_round w" "float_exponent f" b7] float_fields(4,5,7) [of f] unfolding w(2) s
    by (cases "float_negative f") (simp_all only: if_True if_False mult_1_right mult_zero_right)
  then have "?r = (if float_negative f then f else take_bit 31 f)"
    unfolding word_uint_eq_iff kept_value .
  then show ?thesis using p(1) b(1,3) w(1) by simp
qed



text \<open>
  A double below \<open>2\<^sup>-\<^sup>1\<^sup>5\<^sup>0\<close> is too small for a single. The branch for it clears the exponent but leaves the
  fraction, so that the result is a denormal single unrelated to the value instead of zero.
\<close>

theorem avr_tiny_double_keeps_fraction:
  assumes "length bs = 8" "double_exponent bs < 873" "double_fraction bs div 2 ^ 28 \<noteq> 2 ^ 24 - 1"
  shows "\<exists>f. deserializeAvrFloat64 bs = Some f \<and> float_exponent f = 0 \<and>
    float_fraction f = (double_fraction bs div 2 ^ 28 + 1) div 2"
  using assms deserialize_view [of bs] by auto

lemma avr_tiny_double_example:
  "deserializeAvrFloat64 [0, 0, 0, 0, 0, 0, 0x78, 0x33] = Some 0x00400000"
  by (simp add: avr_demote_def avr_mantissa_def avr_exponent_def avr_round_def)

end
