(* ===== verification/Client_Node.thy ===== *)
theory Client_Node
  imports Node_Handle Avr_Float "HOL-Library.Monad_Syntax"
begin

text \<open>
  The node of the ROS 1 client library under \<open>src/pending/rosserial_client\<close>, from which the device node
  of \<open>Node_Handle\<close> was ported: \<open>ros/node_handle.h\<close> with its publishers, subscribers and services. It
  speaks the same frames with the ROS 1 serialisation, reports what \<open>spinOnce\<close> saw, answers parameter
  requests, and checks less: neither the topic of a frame nor the size of a message is compared with an
  array before the array is used.

  As in \<open>Node_Handle\<close> the template parameters, the clock (a function of the number of calls made) and the
  application's callbacks, together with the generated deserialisers they start with, are an environment
  record. A message to be sent is the byte sequence its generated \<open>serialize\<close> writes. The operations
  return \<open>None\<close> when the code leaves the bounds of an array. An \<open>int\<close> is an integer.
\<close>

section \<open>Data\<close>

record cl_publisher =
  cp_topic :: "u8 list"
  cp_type :: "u8 list"
  cp_md5 :: "u8 list"
  cp_endpoint :: int
  cp_id :: int

record cl_subscriber =
  cs_kind :: sub_kind
  cs_topic :: "u8 list"
  cs_type :: "u8 list"
  cs_md5 :: "u8 list"
  cs_endpoint :: int
  cs_id :: int
  cs_pub :: nat
  cs_waiting :: bool

record param_response =
  rp_ints :: "u32 list"
  rp_floats :: "u32 list"

record 'a client_node =
  cn_rt_time :: u32
  cn_sec_offset :: u32
  cn_nsec_offset :: u32
  cn_spin_timeout :: u32
  cn_message_in :: "u8 list"
  cn_publishers :: "nat option list"
  cn_subscribers :: "nat option list"
  cn_mode :: int
  cn_bytes :: int
  cn_topic :: int
  cn_index :: int
  cn_checksum :: int
  cn_configured :: bool
  cn_last_sync_time :: u32
  cn_last_sync_receive_time :: u32
  cn_last_msg_timeout_time :: u32
  cn_param_received :: bool
  cn_param_resp :: param_response
  cn_clock :: nat
  cn_written :: "u8 list"
  cn_pub_obj :: "nat \<Rightarrow> cl_publisher"
  cn_sub_obj :: "nat \<Rightarrow> cl_subscriber"
  cn_app :: 'a

text \<open>
  \<open>ce_callback\<close> and \<open>ce_service\<close> get the address of the subscriber and the input buffer; they stand for
  the deserialiser of the message and the application's function, and \<open>ce_service\<close> also for the
  serialiser of the response. \<open>ce_response\<close> is the deserialiser that a service client runs on a
  response, \<open>ce_param\<close> the one of a parameter response.
\<close>

record 'a client_env =
  ce_MAX_SUBSCRIBERS :: nat
  ce_MAX_PUBLISHERS :: nat
  ce_INPUT_SIZE :: nat
  ce_OUTPUT_SIZE :: nat
  ce_time :: "nat \<Rightarrow> u32"
  ce_callback :: "nat \<Rightarrow> u8 list \<Rightarrow> 'a client_node \<Rightarrow> 'a client_node"
  ce_service :: "nat \<Rightarrow> u8 list \<Rightarrow> 'a client_node \<Rightarrow> u8 list \<times> 'a client_node"
  ce_response :: "nat \<Rightarrow> u8 list \<Rightarrow> 'a client_node \<Rightarrow> 'a client_node"
  ce_param :: "u8 list \<Rightarrow> param_response"

definition CL_SYNC_SECONDS :: u32 where "CL_SYNC_SECONDS = 5"
definition SPIN_TX_STOP_REQUESTED :: int where "SPIN_TX_STOP_REQUESTED = - 3"
definition SPIN_TIME_RECV :: int where "SPIN_TIME_RECV = - 4"

section \<open>Generated serialisers\<close>

text \<open>The bytes that the generated \<open>serialize\<close> of the protocol's own messages write.\<close>

definition ros1_string :: "u8 list \<Rightarrow> u8 list" where
  "ros1_string s = varToArr (of_nat (length s) :: u32) @ s"

definition ros1_Time :: "u32 \<Rightarrow> u32 \<Rightarrow> u8 list" where
  "ros1_Time sec nsec = varToArr sec @ varToArr nsec"

definition ros1_TopicInfo :: "u16 \<Rightarrow> u8 list \<Rightarrow> u8 list \<Rightarrow> u8 list \<Rightarrow> u32 \<Rightarrow> u8 list" where
  "ros1_TopicInfo topic_id topic_name message_type md5sum buffer_size =
     varToArr topic_id @ ros1_string topic_name @ ros1_string message_type @ ros1_string md5sum @
     varToArr buffer_size"

definition ros1_Log :: "u8 \<Rightarrow> u8 list \<Rightarrow> u8 list" where
  "ros1_Log level txt = level # ros1_string txt"

section \<open>Setup\<close>

definition new_ClientNode ::
    "'a client_env \<Rightarrow> (nat \<Rightarrow> cl_publisher) \<Rightarrow> (nat \<Rightarrow> cl_subscriber) \<Rightarrow> 'a \<Rightarrow> 'a client_node" where
  "new_ClientNode E pubs subs app =
     \<lparr>cn_rt_time = 0, cn_sec_offset = 0, cn_nsec_offset = 0, cn_spin_timeout = 0,
      cn_message_in = replicate (ce_INPUT_SIZE E) 0,
      cn_publishers = replicate (ce_MAX_PUBLISHERS E) None,
      cn_subscribers = replicate (ce_MAX_SUBSCRIBERS E) None,
      cn_mode = 0, cn_bytes = 0, cn_topic = 0, cn_index = 0, cn_checksum = 0, cn_configured = False,
      cn_last_sync_time = 0, cn_last_sync_receive_time = 0, cn_last_msg_timeout_time = 0,
      cn_param_received = False, cn_param_resp = \<lparr>rp_ints = [], rp_floats = []\<rparr>,
      cn_clock = 0, cn_written = [], cn_pub_obj = pubs, cn_sub_obj = subs, cn_app = app\<rparr>"

definition cl_initNode :: "'a client_node \<Rightarrow> 'a client_node" where
  "cl_initNode st = st\<lparr>cn_mode := 0, cn_bytes := 0, cn_index := 0, cn_topic := 0\<rparr>"

definition cl_setSpinTimeout :: "u32 \<Rightarrow> 'a client_node \<Rightarrow> 'a client_node" where
  "cl_setSpinTimeout timeout st = st\<lparr>cn_spin_timeout := timeout\<rparr>"

definition cl_time :: "'a client_env \<Rightarrow> 'a client_node \<Rightarrow> u32 \<times> 'a client_node" where
  "cl_time E st = (ce_time E (cn_clock st), st\<lparr>cn_clock := Suc (cn_clock st)\<rparr>)"

section \<open>Publishing\<close>

text \<open>
  The message, its header and its checksum are put into \<open>message_out\<close> before the length is compared
  with \<open>OUTPUT_SIZE\<close>; a message for which the comparison fails has been written past the end by then.
\<close>

definition cl_publish :: "'a client_env \<Rightarrow> int \<Rightarrow> u8 list \<Rightarrow> 'a client_node \<Rightarrow> (int \<times> 'a client_node) option" where
  "cl_publish E i msg st =
     (if i \<ge> 100 \<and> \<not> cn_configured st then Some (0, st)
      else if length msg + 8 > ce_OUTPUT_SIZE E then None
      else (let l = length msg;
                b2 = ucast ((of_nat l :: u16) AND 255) :: u8;
                b3 = ucast (drop_bit 8 (of_nat l :: u16)) :: u8;
                b4 = of_int (255 - (uint b2 + uint b3) mod 256) :: u8;
                b5 = ucast ((of_int i :: u16) AND 255) :: u8;
                b6 = ucast (signed_drop_bit 8 (of_int i :: u16)) :: u8;
                out = [0xff, PROTOCOL_VER, b2, b3, b4, b5, b6] @ msg;
                chk = (\<Sum>j\<leftarrow>[5..<l + 7]. uint (out ! j));
                out' = out @ [of_int (255 - chk mod 256)]
            in Some (int (length out'), st\<lparr>cn_written := cn_written st @ out'\<rparr>)))"

definition cl_log :: "'a client_env \<Rightarrow> u8 \<Rightarrow> u8 list \<Rightarrow> 'a client_node \<Rightarrow> 'a client_node option" where
  "cl_log E level txt st = map_option snd (cl_publish E ID_LOG (ros1_Log level txt) st)"

definition cl_logdebug :: "'a client_env \<Rightarrow> u8 list \<Rightarrow> 'a client_node \<Rightarrow> 'a client_node option" where
  "cl_logdebug E txt st = cl_log E 0 txt st"

definition cl_loginfo :: "'a client_env \<Rightarrow> u8 list \<Rightarrow> 'a client_node \<Rightarrow> 'a client_node option" where
  "cl_loginfo E txt st = cl_log E 1 txt st"

definition cl_logwarn :: "'a client_env \<Rightarrow> u8 list \<Rightarrow> 'a client_node \<Rightarrow> 'a client_node option" where
  "cl_logwarn E txt st = cl_log E 2 txt st"

definition cl_logerror :: "'a client_env \<Rightarrow> u8 list \<Rightarrow> 'a client_node \<Rightarrow> 'a client_node option" where
  "cl_logerror E txt st = cl_log E 3 txt st"

definition cl_logfatal :: "'a client_env \<Rightarrow> u8 list \<Rightarrow> 'a client_node \<Rightarrow> 'a client_node option" where
  "cl_logfatal E txt st = cl_log E 4 txt st"

section \<open>Time\<close>

definition cl_requestSyncTime :: "'a client_env \<Rightarrow> 'a client_node \<Rightarrow> 'a client_node option" where
  "cl_requestSyncTime E st = do {
     (_, st1) \<leftarrow> cl_publish E ID_TIME (ros1_Time 0 0) st;
     let (t, st2) = cl_time E st1;
     Some (st2\<lparr>cn_rt_time := t\<rparr>) }"

definition cl_setNow :: "'a client_env \<Rightarrow> u32 \<Rightarrow> u32 \<Rightarrow> 'a client_node \<Rightarrow> 'a client_node" where
  "cl_setNow E sec nsec st =
     (let (ms, st1) = cl_time E st;
          (s, n) = normalizeSecNSec (sec - ms div 1000 - 1) (nsec - (ms mod 1000) * 1000000 + 1000000000)
      in st1\<lparr>cn_sec_offset := s, cn_nsec_offset := n\<rparr>)"

definition cl_now :: "'a client_env \<Rightarrow> 'a client_node \<Rightarrow> Time \<times> 'a client_node" where
  "cl_now E st =
     (let (ms, st1) = cl_time E st
      in (Time_of (normalizeSecNSec (ms div 1000 + cn_sec_offset st1)
                                    ((ms mod 1000) * 1000000 + cn_nsec_offset st1)), st1))"

definition cl_syncTime :: "'a client_env \<Rightarrow> u8 list \<Rightarrow> 'a client_node \<Rightarrow> 'a client_node option" where
  "cl_syncTime E data st =
     (let (t0, st1) = cl_time E st; offset = t0 - cn_rt_time st1 in
      do { sec \<leftarrow> arrToVar data;
           nsec \<leftarrow> arrToVar (drop 4 data);
           let st2 = cl_setNow E (sec + offset div 1000) (nsec + (offset mod 1000) * 1000000) st1;
           let (t1, st3) = cl_time E st2;
           Some (st3\<lparr>cn_last_sync_receive_time := t1\<rparr>) })"

section \<open>Topic management\<close>

definition cl_advertise :: "'a client_env \<Rightarrow> nat \<Rightarrow> 'a client_node \<Rightarrow> bool \<times> 'a client_node" where
  "cl_advertise E p st =
     (case first_free (cn_publishers st) of
        None \<Rightarrow> (False, st)
      | Some i \<Rightarrow>
          (True, st\<lparr>cn_publishers := (cn_publishers st)[i := Some p],
                    cn_pub_obj := (cn_pub_obj st)
                      (p := (cn_pub_obj st p)\<lparr>cp_id := int i + 100 + int (ce_MAX_SUBSCRIBERS E)\<rparr>)\<rparr>))"

definition cl_subscribe :: "nat \<Rightarrow> 'a client_node \<Rightarrow> bool \<times> 'a client_node" where
  "cl_subscribe s st =
     (case first_free (cn_subscribers st) of
        None \<Rightarrow> (False, st)
      | Some i \<Rightarrow>
          (True, st\<lparr>cn_subscribers := (cn_subscribers st)[i := Some s],
                    cn_sub_obj := (cn_sub_obj st)(s := (cn_sub_obj st s)\<lparr>cs_id := int i + 100\<rparr>)\<rparr>))"

definition cl_advertiseService :: "'a client_env \<Rightarrow> nat \<Rightarrow> 'a client_node \<Rightarrow> bool \<times> 'a client_node" where
  "cl_advertiseService E srv st =
     (let (v, st1) = cl_advertise E (cs_pub (cn_sub_obj st srv)) st;
          (w, st2) = cl_subscribe srv st1
      in (v \<and> w, st2))"

definition cl_serviceClient :: "'a client_env \<Rightarrow> nat \<Rightarrow> 'a client_node \<Rightarrow> bool \<times> 'a client_node" where
  "cl_serviceClient E srv st =
     (let (v, st1) = cl_advertise E (cs_pub (cn_sub_obj st srv)) st;
          (w, st2) = cl_subscribe srv st1
      in (v \<and> w, st2))"

definition cl_publisher_info :: "'a client_env \<Rightarrow> cl_publisher \<Rightarrow> u8 list" where
  "cl_publisher_info E p =
     ros1_TopicInfo (of_int (cp_id p)) (cp_topic p) (cp_type p) (cp_md5 p) (of_nat (ce_OUTPUT_SIZE E))"

definition cl_subscriber_info :: "'a client_env \<Rightarrow> cl_subscriber \<Rightarrow> u8 list" where
  "cl_subscriber_info E s =
     ros1_TopicInfo (of_int (cs_id s)) (cs_topic s) (cs_type s) (cs_md5 s) (of_nat (ce_INPUT_SIZE E))"

primrec cl_negotiate_publishers ::
    "'a client_env \<Rightarrow> nat option list \<Rightarrow> 'a client_node \<Rightarrow> 'a client_node option" where
  "cl_negotiate_publishers E [] st = Some st"
| "cl_negotiate_publishers E (slot # slots) st =
     (case slot of
        None \<Rightarrow> cl_negotiate_publishers E slots st
      | Some p \<Rightarrow> do {
          (_, st1) \<leftarrow> cl_publish E (cp_endpoint (cn_pub_obj st p)) (cl_publisher_info E (cn_pub_obj st p)) st;
          cl_negotiate_publishers E slots st1 })"

primrec cl_negotiate_subscribers ::
    "'a client_env \<Rightarrow> nat option list \<Rightarrow> 'a client_node \<Rightarrow> 'a client_node option" where
  "cl_negotiate_subscribers E [] st = Some st"
| "cl_negotiate_subscribers E (slot # slots) st =
     (case slot of
        None \<Rightarrow> cl_negotiate_subscribers E slots st
      | Some s \<Rightarrow> do {
          (_, st1) \<leftarrow> cl_publish E (cs_endpoint (cn_sub_obj st s)) (cl_subscriber_info E (cn_sub_obj st s)) st;
          cl_negotiate_subscribers E slots st1 })"

definition cl_negotiateTopics :: "'a client_env \<Rightarrow> 'a client_node \<Rightarrow> 'a client_node option" where
  "cl_negotiateTopics E st = do {
     st1 \<leftarrow> cl_negotiate_publishers E (cn_publishers st) st;
     st2 \<leftarrow> cl_negotiate_subscribers E (cn_subscribers st1) st1;
     Some (st2\<lparr>cn_configured := True\<rparr>) }"

section \<open>Subscriber callbacks\<close>

definition cl_service_callback :: "'a client_env \<Rightarrow> nat \<Rightarrow> u8 list \<Rightarrow> 'a client_node \<Rightarrow> 'a client_node option" where
  "cl_service_callback E s data st =
     (let (resp, st1) = ce_service E s data st
      in map_option snd (cl_publish E (cp_id (cn_pub_obj st1 (cs_pub (cn_sub_obj st1 s)))) resp st1))"

definition cl_response_callback :: "'a client_env \<Rightarrow> nat \<Rightarrow> u8 list \<Rightarrow> 'a client_node \<Rightarrow> 'a client_node" where
  "cl_response_callback E s data st =
     (let st1 = ce_response E s data st
      in st1\<lparr>cn_sub_obj := (cn_sub_obj st1)(s := (cn_sub_obj st1 s)\<lparr>cs_waiting := False\<rparr>)\<rparr>)"

definition cl_callback :: "'a client_env \<Rightarrow> nat \<Rightarrow> u8 list \<Rightarrow> 'a client_node \<Rightarrow> 'a client_node option" where
  "cl_callback E s data st =
     (case cs_kind (cn_sub_obj st s) of
        K_Subscriber \<Rightarrow> Some (ce_callback E s data st)
      | K_ServiceServer \<Rightarrow> cl_service_callback E s data st
      | K_ServiceClient \<Rightarrow> Some (cl_response_callback E s data st))"

section \<open>spinOnce\<close>

text \<open>
  What one byte does: \<open>Some (None, st)\<close> goes on with the loop, \<open>Some (Some code, st)\<close> returns from
  \<open>spinOnce\<close>. The two flags of \<open>spinOnce\<close>, whether a stop or a time message was seen, go along.
\<close>

record spin_flags =
  tx_stop_requested :: bool
  saw_time_msg :: bool

type_synonym 'a cl_step = "(int option \<times> spin_flags \<times> 'a client_node) option"

definition cl_dispatch :: "'a client_env \<Rightarrow> u32 \<Rightarrow> spin_flags \<Rightarrow> 'a client_node \<Rightarrow> 'a cl_step" where
  "cl_dispatch E c_time fl st =
     (if cn_topic st = ID_PUBLISHER then do {
        st1 \<leftarrow> cl_requestSyncTime E st;
        st2 \<leftarrow> cl_negotiateTopics E st1;
        Some (Some SPIN_ERR, fl, st2\<lparr>cn_last_sync_time := c_time, cn_last_sync_receive_time := c_time\<rparr>) }
      else if cn_topic st = ID_TIME then do {
        st1 \<leftarrow> cl_syncTime E (cn_message_in st) st;
        Some (None, fl\<lparr>saw_time_msg := True\<rparr>, st1) }
      else if cn_topic st = ID_PARAMETER_REQUEST then
        Some (None, fl, st\<lparr>cn_param_resp := ce_param E (cn_message_in st), cn_param_received := True\<rparr>)
      else if cn_topic st = ID_TX_STOP then
        Some (None, fl\<lparr>tx_stop_requested := True\<rparr>, st\<lparr>cn_configured := False\<rparr>)
      else if cn_topic st < 100 \<or> int (ce_MAX_SUBSCRIBERS E) + 100 \<le> cn_topic st then None
      else (case cn_subscribers st ! nat (cn_topic st - 100) of
              None \<Rightarrow> Some (None, fl, st)
            | Some s \<Rightarrow> do { st1 \<leftarrow> cl_callback E s (cn_message_in st) st; Some (None, fl, st1) }))"

definition cl_spin_byte :: "'a client_env \<Rightarrow> u32 \<Rightarrow> int \<Rightarrow> spin_flags \<Rightarrow> 'a client_node \<Rightarrow> 'a cl_step" where
  "cl_spin_byte E c_time data fl st0 =
     (let st = st0\<lparr>cn_checksum := cn_checksum st0 + data\<rparr>; mode = cn_mode st
      in if mode = MODE_MESSAGE then
           (if cn_index st < 0 \<or> int (ce_INPUT_SIZE E) \<le> cn_index st then None
            else (let st1 = st\<lparr>cn_message_in := (cn_message_in st)[nat (cn_index st) := of_int data],
                               cn_index := cn_index st + 1, cn_bytes := cn_bytes st - 1\<rparr>
                  in Some (None, fl, if cn_bytes st1 = 0 then st1\<lparr>cn_mode := MODE_MSG_CHECKSUM\<rparr> else st1)))
         else if mode = MODE_FIRST_FF then
           (if data = 0xff
            then Some (None, fl, st\<lparr>cn_mode := cn_mode st + 1,
                                    cn_last_msg_timeout_time := c_time + SERIAL_MSG_TIMEOUT\<rparr>)
            else (let (t, st1) = cl_time E st
                  in if t - c_time > CL_SYNC_SECONDS * 1000
                     then Some (Some SPIN_TIMEOUT, fl, st1\<lparr>cn_configured := False\<rparr>)
                     else Some (None, fl, st1)))
         else if mode = MODE_PROTOCOL_VER then
           (if data = uint PROTOCOL_VER then Some (None, fl, st\<lparr>cn_mode := cn_mode st + 1\<rparr>)
            else (let st1 = st\<lparr>cn_mode := MODE_FIRST_FF\<rparr>
                  in if \<not> cn_configured st1
                     then do { st2 \<leftarrow> cl_requestSyncTime E st1; Some (None, fl, st2) }
                     else Some (None, fl, st1)))
         else if mode = MODE_SIZE_L then
           Some (None, fl, st\<lparr>cn_bytes := data, cn_index := 0, cn_mode := cn_mode st + 1, cn_checksum := data\<rparr>)
         else if mode = MODE_SIZE_H then
           Some (None, fl, st\<lparr>cn_bytes := cn_bytes st + push_bit 8 data, cn_mode := cn_mode st + 1\<rparr>)
         else if mode = MODE_SIZE_CHECKSUM then
           Some (None, fl, if cn_checksum st mod 256 = 255 then st\<lparr>cn_mode := cn_mode st + 1\<rparr>
                           else st\<lparr>cn_mode := MODE_FIRST_FF\<rparr>)
         else if mode = MODE_TOPIC_L then
           Some (None, fl, st\<lparr>cn_topic := data, cn_mode := cn_mode st + 1, cn_checksum := data\<rparr>)
         else if mode = MODE_TOPIC_H then
           Some (None, fl, st\<lparr>cn_topic := cn_topic st + push_bit 8 data,
                              cn_mode := if cn_bytes st = 0 then MODE_MSG_CHECKSUM else MODE_MESSAGE\<rparr>)
         else if mode = MODE_MSG_CHECKSUM then
           (let st1 = st\<lparr>cn_mode := MODE_FIRST_FF\<rparr>
            in if cn_checksum st1 mod 256 = 255 then cl_dispatch E c_time fl st1 else Some (None, fl, st1))
         else Some (None, fl, st))"

definition cl_spin_expired :: "'a client_env \<Rightarrow> u32 \<Rightarrow> 'a client_node \<Rightarrow> bool \<times> 'a client_node" where
  "cl_spin_expired E c_time st =
     (if cn_spin_timeout st > 0
      then (let (t, st1) = cl_time E st in (t - c_time > cn_spin_timeout st1, st1))
      else (False, st))"

text \<open>
  The loop: the results of \<open>hardware_.read()\<close> are a list, and after its end \<open>read\<close> answers \<open>-1\<close>. The
  result has the unread input, the code when the loop returned from \<open>spinOnce\<close>, the flags and the node.
\<close>

fun cl_spin_loop :: "'a client_env \<Rightarrow> u32 \<Rightarrow> int list \<Rightarrow> spin_flags \<Rightarrow> 'a client_node \<Rightarrow>
    (int list \<times> int option \<times> spin_flags \<times> 'a client_node) option" where
  "cl_spin_loop E c_time [] fl st =
     (let (expired, st1) = cl_spin_expired E c_time st
      in Some ([], if expired then Some SPIN_TIMEOUT else None, fl, st1))"
| "cl_spin_loop E c_time (data # input) fl st =
     (let (expired, st1) = cl_spin_expired E c_time st
      in if expired then Some (data # input, Some SPIN_TIMEOUT, fl, st1)
         else if data < 0 then Some (input, None, fl, st1)
         else (case cl_spin_byte E c_time data fl st1 of
                 None \<Rightarrow> None
               | Some (None, fl2, st2) \<Rightarrow> cl_spin_loop E c_time input fl2 st2
               | Some (Some code, fl2, st2) \<Rightarrow> Some (input, Some code, fl2, st2)))"

definition cl_spin_start :: "u32 \<Rightarrow> 'a client_node \<Rightarrow> 'a client_node" where
  "cl_spin_start c_time st =
     (let st1 = (if c_time - cn_last_sync_receive_time st > CL_SYNC_SECONDS * 2200
                 then st\<lparr>cn_configured := False\<rparr> else st)
      in if cn_mode st1 \<noteq> MODE_FIRST_FF \<and> c_time > cn_last_msg_timeout_time st1
         then st1\<lparr>cn_mode := MODE_FIRST_FF\<rparr> else st1)"

definition cl_spinOnce ::
    "'a client_env \<Rightarrow> int list \<Rightarrow> 'a client_node \<Rightarrow> (int \<times> int list \<times> 'a client_node) option" where
  "cl_spinOnce E input st =
     (let (c_time, st1) = cl_time E st
      in case cl_spin_loop E c_time input \<lparr>tx_stop_requested = False, saw_time_msg = False\<rparr>
                (cl_spin_start c_time st1) of
           None \<Rightarrow> None
         | Some (rest, Some code, _, st2) \<Rightarrow> Some (code, rest, st2)
         | Some (rest, None, fl, st2) \<Rightarrow> do {
             st3 \<leftarrow> (if cn_configured st2 \<and> c_time - cn_last_sync_time st2 > CL_SYNC_SECONDS * 500
                     then map_option (\<lambda>s. s\<lparr>cn_last_sync_time := c_time\<rparr>) (cl_requestSyncTime E st2)
                     else Some st2);
             Some (if saw_time_msg fl then SPIN_TIME_RECV
                   else if tx_stop_requested fl then SPIN_TX_STOP_REQUESTED else SPIN_OK, rest, st3) })"

definition cl_connected :: "'a client_node \<Rightarrow> bool" where
  "cl_connected st = cn_configured st"

declare cl_spin_loop.simps [simp del]

section \<open>Services and parameters\<close>

text \<open>
  The loops that wait for an answer: each element of the list is what the line delivers in one turn;
  when the list ends the call is still waiting, which is \<open>Some None\<close>.
\<close>

fun cl_call_loop :: "'a client_env \<Rightarrow> nat \<Rightarrow> int list list \<Rightarrow> 'a client_node \<Rightarrow> 'a client_node option option" where
  "cl_call_loop E s inputs st =
     (if cs_waiting (cn_sub_obj st s) \<and> cl_connected st
      then (case inputs of
              [] \<Rightarrow> Some None
            | input # rest \<Rightarrow> do {
                (code, _, st1) \<leftarrow> cl_spinOnce E input st;
                if code < 0 then Some (Some st1) else cl_call_loop E s rest st1 })
      else Some (Some st))"

definition cl_call ::
    "'a client_env \<Rightarrow> nat \<Rightarrow> u8 list \<Rightarrow> int list list \<Rightarrow> 'a client_node \<Rightarrow> 'a client_node option option" where
  "cl_call E s request inputs st =
     (if \<not> cl_connected st then Some (Some st)
      else (let st1 = st\<lparr>cn_sub_obj := (cn_sub_obj st)(s := (cn_sub_obj st s)\<lparr>cs_waiting := True\<rparr>)\<rparr>
            in do { (_, st2) \<leftarrow> cl_publish E (cp_id (cn_pub_obj st1 (cs_pub (cn_sub_obj st1 s)))) request st1;
                    cl_call_loop E s inputs st2 }))"

text \<open>Input that \<open>spinOnce\<close> left unread, because it returned early, is there for the next turn.\<close>

fun cl_param_loop :: "'a client_env \<Rightarrow> u32 \<Rightarrow> int list \<Rightarrow> int list list \<Rightarrow> 'a client_node \<Rightarrow>
    (bool \<times> 'a client_node) option option" where
  "cl_param_loop E end_time unread inputs st =
     (if cn_param_received st then Some (Some (True, st))
      else (case inputs of
              [] \<Rightarrow> Some None
            | input # rest \<Rightarrow> do {
                (_, unread1, st1) \<leftarrow> cl_spinOnce E (unread @ input) st;
                let (t, st2) = cl_time E st1;
                if t > end_time
                then do { st3 \<leftarrow> cl_logwarn E (c_str ''Failed to get param: timeout expired'') st2;
                          Some (Some (False, st3)) }
                else cl_param_loop E end_time unread1 rest st2 }))"

definition cl_requestParam ::
    "'a client_env \<Rightarrow> u8 list \<Rightarrow> u32 \<Rightarrow> int list list \<Rightarrow> 'a client_node \<Rightarrow> (bool \<times> 'a client_node) option option" where
  "cl_requestParam E name time_out inputs st = do {
     (_, st1) \<leftarrow> cl_publish E ID_PARAMETER_REQUEST (ros1_string name) (st\<lparr>cn_param_received := False\<rparr>);
     let (t, st2) = cl_time E st1;
     cl_param_loop E (t + time_out) [] inputs st2 }"

text \<open>
  \<open>getParam\<close> for integers, floats and booleans: the copied values, or \<open>None\<close> when it returns false. The variant for
  \<open>bool\<close> converts each integer. The strings of a response are pointers into the input buffer; the
  variant that copies them is not modelled.
\<close>

definition cl_getParam_with ::
    "(param_response \<Rightarrow> u32 list) \<Rightarrow> (u32 \<Rightarrow> 'v) \<Rightarrow> 'a client_env \<Rightarrow> u8 list \<Rightarrow> nat \<Rightarrow> u32 \<Rightarrow> int list list \<Rightarrow>
     'a client_node \<Rightarrow> ('v list option \<times> 'a client_node) option option" where
  "cl_getParam_with values conv E name len timeout inputs st = do {
     r \<leftarrow> cl_requestParam E name timeout inputs st;
     (case r of
        None \<Rightarrow> Some None
      | Some (False, st1) \<Rightarrow> Some (Some (None, st1))
      | Some (True, st1) \<Rightarrow>
          if len = length (values (cn_param_resp st1))
          then Some (Some (Some (map conv (values (cn_param_resp st1))), st1))
          else do { st2 \<leftarrow> cl_logwarn E (c_str ''Failed to get param: length mismatch'') st1;
                    Some (Some (None, st2)) }) }"

definition cl_getParam_int ::
    "'a client_env \<Rightarrow> u8 list \<Rightarrow> nat \<Rightarrow> u32 \<Rightarrow> int list list \<Rightarrow> 'a client_node \<Rightarrow>
     (int list option \<times> 'a client_node) option option" where
  "cl_getParam_int = cl_getParam_with rp_ints sint"

definition cl_getParam_float ::
    "'a client_env \<Rightarrow> u8 list \<Rightarrow> nat \<Rightarrow> u32 \<Rightarrow> int list list \<Rightarrow> 'a client_node \<Rightarrow>
     (u32 list option \<times> 'a client_node) option option" where
  "cl_getParam_float = cl_getParam_with rp_floats id"

definition cl_getParam_bool ::
    "'a client_env \<Rightarrow> u8 list \<Rightarrow> nat \<Rightarrow> u32 \<Rightarrow> int list list \<Rightarrow> 'a client_node \<Rightarrow>
     (bool list option \<times> 'a client_node) option option" where
  "cl_getParam_bool = cl_getParam_with rp_ints (\<lambda>v. v \<noteq> 0)"

declare cl_call_loop.simps [simp del]
declare cl_param_loop.simps [simp del]

end
