(* ===== verification/Node_Publish.thy ===== *)
theory Node_Publish
  imports Node_Handle
begin

text \<open>
  What \<open>publish\<close> puts on the line: the frame of the protocol around the encapsulated CDR message, as
  long as the message fits; the invariant of the node's buffers; and what happens when it does not
  fit.
\<close>

section \<open>The buffers of a node\<close>

definition env_ok :: "'a nh_env \<Rightarrow> bool" where
  "env_ok E \<longleftrightarrow> 7 < OUTPUT_SIZE E \<and> OUTPUT_SIZE E < 65536 \<and> message_out E + OUTPUT_SIZE E < 2 ^ 32"

definition buffer_for :: "nat \<Rightarrow> nat \<Rightarrow> ucdrBuffer \<Rightarrow> bool" where
  "buffer_for a n ub \<longleftrightarrow>
     ub_init ub = a \<and> ub_final ub = a + n \<and> ub_origin ub = 0 \<and> ub_on_full_buffer ub = None \<and>
     ub_endianness ub = UCDR_MACHINE_ENDIANNESS"

definition nh_ok :: "'a nh_env \<Rightarrow> 'a node_handle \<Rightarrow> bool" where
  "nh_ok E nh \<longleftrightarrow>
     buffer_for (message_out E + 7) (OUTPUT_SIZE E - 7) (nh_output_cdr nh) \<and>
     buffer_for (message_in E) (INPUT_SIZE E) (nh_input_cdr nh) \<and>
     length (nh_publishers nh) = MAX_PUBLISHERS E \<and> length (nh_subscribers nh) = MAX_SUBSCRIBERS E"

definition fresh :: "nat \<Rightarrow> nat \<Rightarrow> ucdrBuffer \<Rightarrow> bool" where
  "fresh a n ub \<longleftrightarrow>
     buffer_for a n ub \<and> ub_iterator ub = a \<and> ub_offset ub = 0 \<and> ub_last_data_size ub = 0 \<and>
     \<not> ub_error ub"

lemma reset_fresh: "buffer_for a n ub \<Longrightarrow> fresh a n (ucdr_reset_buffer ub)"
  by (simp add: fresh_def buffer_for_def ucdr_reset_buffer_def ucdr_reset_buffer_offset_def)

lemma init_fresh: "fresh a n (ucdr_init_buffer a n)"
  by (simp add: fresh_def buffer_for_def ucdr_init_buffer_def ucdr_init_buffer_origin_def
      ucdr_init_buffer_origin_offset_def ucdr_init_buffer_origin_offset_endian_def)

lemma fresh_fixed: "fresh a n ub \<Longrightarrow> a + n < 2 ^ 32 \<Longrightarrow> fixed_buffer ub"
  by (simp add: fresh_def buffer_for_def fixed_buffer_def ub_wf_def)

lemma safe_step_buffer_for:
  "safe_step (m, ub) (m', ub') \<Longrightarrow> buffer_for a n ub \<Longrightarrow> buffer_for a n ub'"
  by (simp add: safe_step_def buffer_for_def fixed_buffer_def)

section \<open>The header bytes\<close>

lemma of_int_mod_256: "(of_int (i mod 256) :: u8) = of_int i"
  by (simp add: word_of_int_eq_iff take_bit_eq_mod)

lemma signed_hi_byte_u16: "(ucast (signed_drop_bit 8 (w :: u16)) :: u8) = ucast (drop_bit 8 w)"
  by (rule bit_eqI) (auto simp: bit_simps)

lemma checksum_of_int:
  "(of_int (255 - (\<Sum>b\<leftarrow>bs. uint b) mod 256) :: u8) = checksum_of bs"
proof -
  have "(of_int (\<Sum>b\<leftarrow>bs. uint b) :: u8) = sum_list bs" by (induction bs) simp_all
  then show ?thesis by (simp add: checksum_of_def of_int_mod_256)
qed

lemma sum_mem_read: "(\<Sum>j\<leftarrow>[k..<k + n]. uint (m (a + j))) = (\<Sum>b\<leftarrow>mem_read (a + k) n m. uint b)"
  by (induction n) (simp_all add: mem_read_def ac_simps)

section \<open>The frame that is sent\<close>

definition packet_state :: "'a nh_env \<Rightarrow> msg \<Rightarrow> 'a node_handle \<Rightarrow> cdr_state" where
  "packet_state E msg nh =
     packet_serialize no_callback (fst msg) (snd msg) (nh_mem nh, ucdr_reset_buffer (nh_output_cdr nh))"

lemma packet_state_safe:
  assumes "env_ok E" "nh_ok E nh" "msg_valid K (fst msg) (snd msg)"
  shows "safe_step (nh_mem nh, ucdr_reset_buffer (nh_output_cdr nh)) (packet_state E msg nh)"
proof -
  have "fresh (message_out E + 7) (OUTPUT_SIZE E - 7) (ucdr_reset_buffer (nh_output_cdr nh))"
    using assms(2) by (intro reset_fresh) (simp add: nh_ok_def)
  then have "fixed_buffer (ucdr_reset_buffer (nh_output_cdr nh))"
    using assms(1) by (intro fresh_fixed) (auto simp: env_ok_def)
  then show ?thesis unfolding packet_state_def using assms(3) by (rule packet.ser_safe)
qed

lemma packet_state_buffer:
  assumes "env_ok E" "nh_ok E nh" "msg_valid K (fst msg) (snd msg)" "packet_state E msg nh = (m, ub)"
  shows "buffer_for (message_out E + 7) (OUTPUT_SIZE E - 7) ub"
    "message_out E + 7 \<le> ub_iterator ub" "ub_iterator ub \<le> message_out E + OUTPUT_SIZE E"
    "ucdr_buffer_length ub = ub_iterator ub - (message_out E + 7)"
proof -
  have fr: "fresh (message_out E + 7) (OUTPUT_SIZE E - 7) (ucdr_reset_buffer (nh_output_cdr nh))"
    using assms(2) by (intro reset_fresh) (simp add: nh_ok_def)
  have st: "safe_step (nh_mem nh, ucdr_reset_buffer (nh_output_cdr nh)) (m, ub)"
    using packet_state_safe [OF assms(1-3)] assms(4) by simp
  show b: "buffer_for (message_out E + 7) (OUTPUT_SIZE E - 7) ub"
    using safe_step_buffer_for [OF st] fr by (simp add: fresh_def)
  then show "message_out E + 7 \<le> ub_iterator ub" "ub_iterator ub \<le> message_out E + OUTPUT_SIZE E"
    using st assms(1) by (auto simp: safe_step_def fixed_buffer_def ub_wf_def buffer_for_def env_ok_def)
  show "ucdr_buffer_length ub = ub_iterator ub - (message_out E + 7)"
    using b st by (simp add: buffer_length_wf safe_step_def fixed_buffer_def buffer_for_def)
qed

definition packet_payload :: "'a nh_env \<Rightarrow> msg \<Rightarrow> 'a node_handle \<Rightarrow> u8 list" where
  "packet_payload E msg nh =
     (case packet_state E msg nh of (m, ub) \<Rightarrow> mem_read (message_out E + 7) (ucdr_buffer_length ub) m)"

definition header_bytes :: "nat \<Rightarrow> nat \<Rightarrow> u8 list" where
  "header_bytes topic l =
     [0xff, PROTOCOL_VER, lo_byte l, hi_byte l, checksum_of [lo_byte l, hi_byte l], lo_byte topic, hi_byte topic]"

lemma length_header_bytes: "length (header_bytes topic l) = 7"
  by (simp add: header_bytes_def)

lemma mem_read_after_header:
  "mem_read (a + 7) n (mem_write a (header_bytes topic l) m) = mem_read (a + 7) n m"
  by (rule mem_read_write_disjoint) (simp add: length_header_bytes)

lemma frame_header:
  "frame topic payload =
     header_bytes topic (length payload) @ payload @ [checksum_of ([lo_byte topic, hi_byte topic] @ payload)]"
  by (simp add: frame_def header_bytes_def)

lemma publish_body_frame:
  assumes ps: "packet_state E msg nh = (m2, ub2)"
    and l: "ucdr_buffer_length ub2 = l" and p: "packet_payload E msg nh = payload"
    and m3: "m3 = mem_write (message_out E) (header_bytes topic l) m2"
  shows "publish_body E (int topic) msg nh =
    (l + 7, checksum_of ([lo_byte topic, hi_byte topic] @ payload), nh\<lparr>nh_mem := m3, nh_output_cdr := ub2\<rparr>)"
proof -
  let ?out = "message_out E"
  have hdr: "[0xff, PROTOCOL_VER, ucast ((of_nat l :: u16) AND 255), ucast (drop_bit 8 (of_nat l :: u16)),
      of_int (255 - (uint (ucast ((of_nat l :: u16) AND 255) :: u8) +
        uint (ucast (drop_bit 8 (of_nat l :: u16)) :: u8)) mod 256),
      ucast ((of_int (int topic) :: u16) AND 255), ucast (signed_drop_bit 8 (of_int (int topic) :: u16))] =
      header_bytes topic l"
    using checksum_of_int [of "[lo_byte l, hi_byte l]"]
    by (simp add: header_bytes_def lo_byte_u16 hi_byte_u16 signed_hi_byte_u16)
  have "mem_read (?out + 5) (2 + l) m3 = mem_read (?out + 5) 2 m3 @ mem_read (?out + 7) l m3"
    using mem_read_add [of "?out + 5" 2 l m3] by (simp add: add.commute)
  also have "mem_read (?out + 7) l m3 = payload"
    unfolding m3 p [symmetric] by (simp add: mem_read_after_header packet_payload_def ps l)
  also have "mem_read (?out + 5) 2 m3 = [lo_byte topic, hi_byte topic]"
    by (simp add: m3 numeral_2_eq_2 mem_read_Suc mem_write_apply header_bytes_def)
  finally have chk: "(\<Sum>j\<leftarrow>[5..<l + 7]. uint (m3 (?out + j))) =
      (\<Sum>b\<leftarrow>[lo_byte topic, hi_byte topic] @ payload. uint b)"
    using sum_mem_read [where a = ?out and k = 5 and n = "2 + l" and m = m3] by (simp add: ac_simps)
  show ?thesis
    using ps l
    by (simp only: publish_body_def Let_def packet_state_def packet_serialize_def prod.case hdr
        m3 [symmetric] chk checksum_of_int)
qed

lemma publish_rec_sends:
  assumes "env_ok E" "nh_ok E nh" "msg_valid K (fst msg) (snd msg)" "topic < 100 \<or> nh_configured nh"
    and fit: "length (packet_payload E msg nh) + 7 < OUTPUT_SIZE E"
  obtains nh' where
    "publish_rec (Suc depth) E (int topic) msg nh =
       Some (int (length (frame topic (packet_payload E msg nh))),
             hw_write (frame topic (packet_payload E msg nh)) nh')"
    and "\<exists>m ub. nh' = nh\<lparr>nh_output_cdr := ub, nh_mem := m\<rparr> \<and>
           buffer_for (message_out E + 7) (OUTPUT_SIZE E - 7) ub \<and>
           (\<forall>a. a < message_out E \<longrightarrow> m a = nh_mem nh a)"
proof -
  obtain m2 ub2 where ps: "packet_state E msg nh = (m2, ub2)" by fastforce
  note b = packet_state_buffer [OF assms(1-3) ps]
  let ?l = "ucdr_buffer_length ub2" and ?out = "message_out E" and ?p = "packet_payload E msg nh"
  let ?c = "checksum_of ([lo_byte topic, hi_byte topic] @ ?p)"
  let ?m3 = "mem_write ?out (header_bytes topic ?l) m2"
  let ?m4 = "?m3(?out + (?l + 7) := ?c)"
  have len: "length ?p = ?l" by (simp add: packet_payload_def ps)
  have body: "publish_body E (int topic) msg nh = (?l + 7, ?c, nh\<lparr>nh_mem := ?m3, nh_output_cdr := ub2\<rparr>)"
    by (rule publish_body_frame [OF ps]) simp_all
  have "mem_read ?out (7 + ?l + 1) ?m4 = mem_read ?out 7 ?m4 @ mem_read (?out + 7) ?l ?m4 @ [?c]"
    by (simp only: mem_read_add) (simp add: mem_read_Suc ac_simps)
  also have "mem_read ?out 7 ?m4 = mem_read ?out 7 ?m3"
    by (rule mem_read_eqI) simp
  also have "mem_read (?out + 7) ?l ?m4 = mem_read (?out + 7) ?l ?m3"
    by (rule mem_read_eqI) simp
  also have "mem_read (?out + 7) ?l ?m3 = ?p"
    by (simp add: mem_read_after_header packet_payload_def ps)
  also have "mem_read ?out 7 ?m3 = header_bytes topic ?l"
    by (rule mem_read_write_same) (simp add: header_bytes_def)
  finally have "mem_read ?out (7 + ?l + 1) ?m4 = frame topic ?p"
    unfolding frame_header len .
  moreover have "7 + ?l + 1 = ?l + 8" by simp
  moreover define m4 where "m4 = ?m4"
  ultimately have fr: "mem_read ?out (?l + 8) m4 = frame topic ?p" by metis
  have guard: "\<not> (int topic \<ge> 100 \<and> \<not> nh_configured nh)" "?l + 7 < OUTPUT_SIZE E"
    using assms(4) fit len by auto
  have pub: "publish_rec (Suc depth) E (int topic) msg nh =
      Some (int (length (frame topic ?p)), hw_write (frame topic ?p) (nh\<lparr>nh_output_cdr := ub2, nh_mem := m4\<rparr>))"
    using guard fr unfolding m4_def by (simp add: body Let_def length_frame len add.commute)
  have "m4 a = nh_mem nh a" if "a < ?out" for a
  proof -
    have "m2 a = nh_mem nh a"
      using packet_state_safe [OF assms(1-3)] that assms(2)
      by (auto simp: ps safe_step_def nh_ok_def buffer_for_def ucdr_reset_buffer_def
          ucdr_reset_buffer_offset_def)
    with that show ?thesis by (simp add: m4_def mem_write_outside)
  qed
  with pub b(1) that show thesis by blast
qed

section \<open>The payload decodes to the message\<close>

text \<open>
  \<open>decodes K payload ts vs\<close>: wherever the payload lies in a receiver's input buffer, skipping the
  encapsulation and reading the fields, into any object of the message's class in the memory \<open>K\<close>, gives
  \<open>vs\<close> and stays inside the payload.
\<close>

definition decodes :: "gen_env \<Rightarrow> u8 list \<Rightarrow> gen_type list \<Rightarrow> gen_value list \<Rightarrow> bool" where
  "decodes K payload ts vs \<longleftrightarrow>
     (\<forall>olds a n m ub. list_all2 shaped ts olds \<and> fresh a n ub \<and> length payload \<le> n \<and> mem_read a (length payload) m = payload \<longrightarrow>
        (\<exists>vs' ub'. packet_deserialize no_callback K ts olds (m, ub) = Some (True, vs', m, ub') \<and>
           map gen_view vs' = vs \<and> list_all2 shaped ts vs' \<and> buffer_for a n ub' \<and> ub_iterator ub' = a + length payload))"

lemma decodesD:
  assumes "decodes K payload ts vs" "list_all2 shaped ts olds" "fresh a n ub" "length payload \<le> n"
    and "mem_read a (length payload) m = payload"
  obtains vs' ub' where "packet_deserialize no_callback K ts olds (m, ub) = Some (True, vs', m, ub')"
    "map gen_view vs' = vs" "list_all2 shaped ts vs'" "buffer_for a n ub'"
  using assms unfolding decodes_def by blast

lemma packet_payload_decodes:
  assumes "env_ok E" "nh_ok E nh" "msg_valid K (fst msg) (snd msg)"
    and ok: "\<not> ub_error (snd (packet_state E msg nh))"
  shows "decodes K (packet_payload E msg nh) (fst msg) (snd msg)"
  unfolding decodes_def
proof (intro allI impI, elim conjE)
  fix olds a n m ubr
  assume sh: "list_all2 shaped (fst msg) olds" and fr: "fresh a n ubr" and len: "length (packet_payload E msg nh) \<le> n"
    and rd: "mem_read a (length (packet_payload E msg nh)) m = packet_payload E msg nh"
  let ?ub = "ucdr_reset_buffer (nh_output_cdr nh)" and ?out = "message_out E"
  obtain m2 ub2 where ps: "packet_state E msg nh = (m2, ub2)" by fastforce
  note b = packet_state_buffer [OF assms(1-3) ps]
  have fo: "fresh (?out + 7) (OUTPUT_SIZE E - 7) ?ub"
    using assms(2) by (intro reset_fresh) (simp add: nh_ok_def)
  have fx: "fixed_buffer ?ub" using assms(1) by (intro fresh_fixed [OF fo]) (auto simp: env_ok_def)
  have pl: "length (packet_payload E msg nh) = ub_iterator ub2 - ub_iterator ?ub"
    using fo b(4) by (simp add: packet_payload_def ps fresh_def)
  have "m (a + i) = m2 (ub_iterator ?ub + i)" if "i < ub_iterator ub2 - ub_iterator ?ub" for i
  proof -
    have "m (a + i) = packet_payload E msg nh ! i" using that rd pl by (metis mem_read_nth)
    also have "\<dots> = m2 (?out + 7 + i)" using that pl by (simp add: packet_payload_def ps)
    finally show ?thesis using fo by (simp add: fresh_def)
  qed
  then have tr: "transferred ?ub (m2, ub2) (m, ubr)"
    using fr fo len pl by (simp add: transferred_def fresh_def buffer_for_def)
  have cb: "packet_serialize no_callback (fst msg) (snd msg) (nh_mem nh, ?ub) = (m2, ub2)" using ps by (simp add: packet_state_def)
  have "\<not> ub_error ub2" using ok ps by simp
  from packet_deser_ser [OF fx assms(3) sh cb this tr]
  obtain vs' where "packet_deserialize no_callback K (fst msg) olds (m, ubr) = Some (True, vs', m, moved ?ub ub2 ubr)"
    "map gen_view vs' = snd msg" "list_all2 shaped (fst msg) vs'" by blast
  moreover have "buffer_for a n (moved ?ub ub2 ubr)" "ub_iterator (moved ?ub ub2 ubr) = a + length (packet_payload E msg nh)"
    using fr pl by (auto simp: moved_def buffer_for_def fresh_def)
  ultimately show "\<exists>vs' ub'. packet_deserialize no_callback K (fst msg) olds (m, ubr) = Some (True, vs', m, ub') \<and>
      map gen_view vs' = snd msg \<and> list_all2 shaped (fst msg) vs' \<and> buffer_for a n ub' \<and>
      ub_iterator ub' = a + length (packet_payload E msg nh)" by blast
qed

section \<open>When a message fits\<close>

definition packet_size :: "msg \<Rightarrow> nat" where
  "packet_size msg = stop_members (map gen_stop (fst msg)) (snd msg) 4"

lemma fresh_located: "fresh a n ub \<Longrightarrow> a + n < 2 ^ 32 \<Longrightarrow> located a ub"
  using fresh_fixed [of a n ub] by (simp add: located_def fresh_def ub_aligned_def)

lemma packet_state_fits:
  assumes "env_ok E" "nh_ok E nh" "msg_valid K (fst msg) (snd msg)"
  shows "\<not> ub_error (snd (packet_state E msg nh)) \<longleftrightarrow> packet_size msg + 7 \<le> OUTPUT_SIZE E"
    and "packet_size msg + 7 \<le> OUTPUT_SIZE E \<Longrightarrow> length (packet_payload E msg nh) = packet_size msg"
proof -
  let ?ub = "ucdr_reset_buffer (nh_output_cdr nh)" and ?out = "message_out E"
  obtain m2 ub2 where ps: "packet_state E msg nh = (m2, ub2)" by fastforce
  have fr: "fresh (?out + 7) (OUTPUT_SIZE E - 7) ?ub"
    using assms(2) by (intro reset_fresh) (simp add: nh_ok_def)
  have lo: "located (?out + 7) ?ub" using assms(1) by (intro fresh_located [OF fr]) (auto simp: env_ok_def)
  have ser: "packet_serialize no_callback (fst msg) (snd msg) (nh_mem nh, ?ub) = (m2, ub2)"
    using ps by (simp add: packet_state_def)
  have pos: "ub_offset ?ub = 0" "ub_final ?ub = ?out + OUTPUT_SIZE E" "7 \<le> OUTPUT_SIZE E"
    using fr assms(1) by (simp_all add: fresh_def buffer_for_def env_ok_def)
  show "\<not> ub_error (snd (packet_state E msg nh)) \<longleftrightarrow> packet_size msg + 7 \<le> OUTPUT_SIZE E"
    using packet_fits(1) [OF lo assms(3) ser] pos by (auto simp: ps packet_size_def)
  then show "length (packet_payload E msg nh) = packet_size msg" if "packet_size msg + 7 \<le> OUTPUT_SIZE E"
    using packet_fits(2) [OF lo assms(3) ser] pos that
      packet_state_buffer(4) [OF assms ps]
    by (simp add: packet_payload_def ps packet_size_def located_def)
qed

lemma nh_ok_written: "nh_ok E (hw_write bs nh) = nh_ok E nh"
  by (simp add: nh_ok_def hw_write_def)

lemma nh_ok_output:
  "nh_ok E nh \<Longrightarrow> buffer_for (message_out E + 7) (OUTPUT_SIZE E - 7) ub \<Longrightarrow>
   nh_ok E (nh\<lparr>nh_output_cdr := ub, nh_mem := m\<rparr>)"
  by (simp add: nh_ok_def)

text \<open>
  What one \<open>publish\<close> may change of the node: the output buffer, and what was written to the line.
\<close>

definition published :: "'a nh_env \<Rightarrow> 'a node_handle \<Rightarrow> u8 list \<Rightarrow> 'a node_handle \<Rightarrow> bool" where
  "published E nh bs nh' \<longleftrightarrow>
     (\<exists>m ub. nh' = hw_write bs (nh\<lparr>nh_output_cdr := ub, nh_mem := m\<rparr>) \<and>
        buffer_for (message_out E + 7) (OUTPUT_SIZE E - 7) ub \<and>
        (\<forall>a < message_out E. m a = nh_mem nh a))"

lemma published_ok: "published E nh bs nh' \<Longrightarrow> nh_ok E nh \<Longrightarrow> nh_ok E nh'"
  by (auto simp: published_def nh_ok_written nh_ok_output)

lemma published_trans:
  assumes "published E nh as nh1" "published E nh1 bs nh2"
  shows "published E nh (as @ bs) nh2"
proof -
  obtain m1 ub1 m2 ub2 where
    1: "nh1 = hw_write as (nh\<lparr>nh_output_cdr := ub1, nh_mem := m1\<rparr>)" "\<forall>a < message_out E. m1 a = nh_mem nh a" and
    2: "nh2 = hw_write bs (nh1\<lparr>nh_output_cdr := ub2, nh_mem := m2\<rparr>)" "\<forall>a < message_out E. m2 a = nh_mem nh1 a"
    and b: "buffer_for (message_out E + 7) (OUTPUT_SIZE E - 7) ub2"
    using assms unfolding published_def by blast
  have "nh2 = hw_write (as @ bs) (nh\<lparr>nh_output_cdr := ub2, nh_mem := m2\<rparr>)"
    by (simp add: 1(1) 2(1) hw_write_def)
  moreover have "\<forall>a < message_out E. m2 a = nh_mem nh a"
    using 1 2 by (simp add: hw_write_def)
  ultimately show ?thesis unfolding published_def using b by blast
qed

lemma publish_rec_sends_published:
  assumes "env_ok E" "nh_ok E nh" "msg_valid K (fst msg) (snd msg)" "topic < 100 \<or> nh_configured nh"
    and "length (packet_payload E msg nh) + 7 < OUTPUT_SIZE E"
  shows "\<exists>nh'. publish_rec (Suc depth) E (int topic) msg nh =
       Some (int (length (frame topic (packet_payload E msg nh))), nh') \<and>
     published E nh (frame topic (packet_payload E msg nh)) nh'"
  using publish_rec_sends [OF assms, of depth] unfolding published_def by metis

lemma drop_text_length: "length drop_text = 56"
  by (simp add: drop_text_def c_str_def)

lemma drop_msg:
  "msg_valid K (fst (msg_Log ROS_ERROR drop_text)) (snd (msg_Log ROS_ERROR drop_text))"
  "packet_size (msg_Log ROS_ERROR drop_text) = 69"
proof -
  have "0 \<notin> set drop_text" by (simp add: drop_text_def c_str_def)
  then show "msg_valid K (fst (msg_Log ROS_ERROR drop_text)) (snd (msg_Log ROS_ERROR drop_text))"
    by (simp add: msg_valid_def msg_Log_def basic_valid_def string_valid_def drop_text_length)
  show "packet_size (msg_Log ROS_ERROR drop_text) = 69"
    by (simp add: packet_size_def msg_Log_def string_stop_def prim_stop_def pad_to_def drop_text_length)
qed

lemma published_refl:
  "nh_ok E nh \<Longrightarrow> published E nh [] nh"
  unfolding published_def nh_ok_def
  by (intro exI [of _ "nh_mem nh"] exI [of _ "nh_output_cdr nh"]) (simp add: hw_write_def)

lemma publish_too_large:
  assumes "env_ok E" "nh_ok E nh" "msg_valid K (fst msg) (snd msg)" "topic < 100 \<or> nh_configured nh"
    and big: "OUTPUT_SIZE E \<le> length (packet_payload E msg nh) + 7" and room: "77 \<le> OUTPUT_SIZE E"
  shows "\<exists>p nh'. publish E (int topic) msg nh = Some (- 1, nh') \<and> published E nh (frame 7 p) nh' \<and>
    (\<forall>K'. decodes K' p (fst (msg_Log ROS_ERROR drop_text)) (snd (msg_Log ROS_ERROR drop_text)))"
proof -
  let ?log = "msg_Log ROS_ERROR drop_text"
  obtain m2 ub2 where ps: "packet_state E msg nh = (m2, ub2)" by fastforce
  note b = packet_state_buffer [OF assms(1-3) ps]
  define l where "l = ucdr_buffer_length ub2"
  define m3 where "m3 = mem_write (message_out E) (header_bytes topic l) m2"
  define nh1 where "nh1 = nh\<lparr>nh_output_cdr := ub2, nh_mem := m3\<rparr>"
  have body: "publish_body E (int topic) msg nh =
      (l + 7, checksum_of ([lo_byte topic, hi_byte topic] @ packet_payload E msg nh), nh1)"
    using publish_body_frame [OF ps l_def [symmetric] refl m3_def] by (simp add: nh1_def)
  have len: "length (packet_payload E msg nh) = l" by (simp add: packet_payload_def ps l_def)
  have "m3 a = nh_mem nh a" if "a < message_out E" for a
    using packet_state_safe [OF assms(1-3)] that assms(2)
    by (auto simp: m3_def mem_write_outside ps safe_step_def nh_ok_def buffer_for_def
        ucdr_reset_buffer_def ucdr_reset_buffer_offset_def)
  then have p1: "published E nh [] nh1"
    unfolding published_def nh1_def using b(1) by (auto simp: hw_write_def)
  then have ok1: "nh_ok E nh1" using assms(2) by (rule published_ok)
  have fit: "packet_size ?log + 7 \<le> OUTPUT_SIZE E" using room by (simp add: drop_msg)
  have pl: "length (packet_payload E ?log nh1) = 69"
    using packet_state_fits(2) [OF assms(1) ok1 drop_msg(1) fit] by (simp add: drop_msg)
  obtain nh2 where r: "publish_rec (Suc 0) E (int 7) ?log nh1 =
        Some (int (length (frame 7 (packet_payload E ?log nh1))), nh2)"
      "published E nh1 (frame 7 (packet_payload E ?log nh1)) nh2"
    using publish_rec_sends_published [OF assms(1) ok1 drop_msg(1), of 7 0] pl room by auto
  have "publish E (int topic) msg nh = Some (- 1, nh2)"
    using assms(4) big len r(1)
    by (auto simp: publish_def numeral_2_eq_2 body ID_LOG_def simp del: publish_rec.simps(2))
      (auto simp: publish_rec.simps(2) [of "Suc 0"] body ID_LOG_def simp del: publish_rec.simps(2))
  moreover have "\<forall>K'. decodes K' (packet_payload E ?log nh1) (fst ?log) (snd ?log)"
    using fit packet_state_fits(1) [OF assms(1) ok1 drop_msg(1)]
    by (intro allI packet_payload_decodes assms ok1 drop_msg(1)) simp
  ultimately show ?thesis using published_trans [OF p1 r(2)] by auto
qed

lemma publish_total:
  assumes "env_ok E" "nh_ok E nh" "msg_valid K (fst msg) (snd msg)" "77 \<le> OUTPUT_SIZE E"
  shows "\<exists>r bs nh'. publish E (int topic) msg nh = Some (r, nh') \<and> published E nh bs nh'"
proof (cases "topic < 100 \<or> nh_configured nh")
  case False
  then have "publish E (int topic) msg nh = Some (0, nh)"
    by (simp add: publish_def numeral_2_eq_2)
  then show ?thesis using published_refl [OF assms(2)] by auto
next
  case True
  show ?thesis
  proof (cases "length (packet_payload E msg nh) + 7 < OUTPUT_SIZE E")
    case fit: True
    show ?thesis
      unfolding publish_def numeral_2_eq_2
      using publish_rec_sends_published [OF assms(1-3) True fit, of "Suc 0"] by blast
  next
    case False
    then show ?thesis using publish_too_large [OF assms(1-3) True _ assms(4)] by force
  qed
qed

lemma publish_total_frame:
  assumes "env_ok E" "nh_ok E nh" "msg_valid K ts vs" "topic < 100 \<or> nh_configured nh"
    and "packet_size (ts, vs) + 7 < OUTPUT_SIZE E"
  shows "\<exists>payload nh'. publish E (int topic) (ts, vs) nh = Some (int (length (frame topic payload)), nh') \<and>
    published E nh (frame topic payload) nh' \<and> nh_ok E nh' \<and>
    nh_written nh' = nh_written nh @ frame topic payload \<and>
    length payload = packet_size (ts, vs) \<and> decodes K payload ts vs"
proof -
  let ?msg = "(ts, vs)" and ?p = "packet_payload E (ts, vs) nh"
  have v: "msg_valid K (fst ?msg) (snd ?msg)" using assms(3) by simp
  note fit = packet_state_fits [OF assms(1,2) v]
  have len: "length ?p = packet_size ?msg" using fit(2) assms(5) by simp
  obtain nh' where r: "publish_rec (Suc (Suc 0)) E (int topic) ?msg nh = Some (int (length (frame topic ?p)), nh')"
    "published E nh (frame topic ?p) nh'"
    using publish_rec_sends_published [OF assms(1,2) v assms(4), of "Suc 0"] len assms(5) by auto
  have "decodes K ?p ts vs"
    using packet_payload_decodes [OF assms(1,2) v] fit(1) assms(5) by simp
  moreover have "nh_written nh' = nh_written nh @ frame topic ?p"
    using r(2) by (auto simp: published_def hw_write_def)
  ultimately show ?thesis
    using r len published_ok [OF r(2) assms(2)] by (auto simp: publish_def numeral_2_eq_2)
qed

section \<open>A message that is cut off\<close>

lemma fold_prim_stop_aligned: "fold (\<lambda>_. prim_stop 8) xs (8 * q) = 8 * (q + length xs)"
proof (induction xs arbitrary: q)
  case (Cons x xs)
  have "prim_stop 8 (8 * q) = 8 * Suc q" by (simp add: prim_stop_def pad_to_def)
  then show ?case using Cons [of "Suc q"] by simp
qed simp

abbreviation doubles :: "nat \<Rightarrow> u8 list list \<Rightarrow> msg" where
  "doubles n v \<equiv> ([G_array (G_prim T_double) n], [W_array (map W_prim v)])"

lemma doubles_packet_size:
  assumes "length v = Suc k"
  shows "packet_size (doubles (Suc k) v) = 8 * (k + 2)"
proof -
  obtain x xs where v: "v = x # xs" "length xs = k" using assms by (cases v) auto
  have "prim_stop 8 4 = 8 * 2" by (simp add: prim_stop_def pad_to_def)
  moreover have "fold (gen_stop (G_prim T_double)) (map W_prim ys) p = fold (\<lambda>_. prim_stop 8) ys p" for ys p
    by (induction ys arbitrary: p) simp_all
  ultimately show ?thesis
    using v fold_prim_stop_aligned [of xs 2] by (simp add: packet_size_def del: gen_stop.simps(1)) simp
qed

lemma packet_serialize_snoc:
  assumes "length v = n"
  shows "packet_serialize cb [G_array (G_prim ty) (Suc n)] [W_array (map W_prim (v @ [x]))] s =
    snd (ucdr_serialize cb ty x (packet_serialize cb [G_array (G_prim ty) n] [W_array (map W_prim v)] s))"
  using assms by (simp add: packet_serialize_def gen_cdr_serialize_def)

lemma doubles_valid:
  "length v = n \<Longrightarrow> \<forall>x \<in> set v. basic_valid T_double x \<Longrightarrow> msg_valid K (fst (doubles n v)) (snd (doubles n v))"
  by (simp add: msg_valid_def element_type_def list_all_iff)

lemma doubles_truncated:
  assumes "env_ok E" "nh_ok E nh" "OUTPUT_SIZE E = 512"
    and v: "length v = 63" "\<forall>x \<in> set v. basic_valid T_double x"
  shows "length (packet_payload E (doubles 63 v) nh) = 504"
    and "ub_error (snd (packet_state E (doubles 63 v) nh))"
proof -
  let ?out = "message_out E" and ?w = "butlast v" and ?x = "last v" and ?n = "62 :: nat"
  let ?short = "doubles ?n ?w"
  have vw: "v = ?w @ [?x]" using v(1) by (metis append_butlast_last_id list.size(3) zero_neq_numeral)
  have w: "length ?w = ?n" "\<forall>x \<in> set ?w. basic_valid T_double x" "basic_valid T_double ?x"
    using v by (auto dest: in_set_butlastD) (metis last_in_set list.size(3) zero_neq_numeral)
  have val: "msg_valid K (fst ?short) (snd ?short)" for K using doubles_valid [OF w(1,2)] .
  obtain m1 ub1 where ps: "packet_state E ?short nh = (m1, ub1)" by fastforce
  note b = packet_state_buffer [OF assms(1,2) val ps]
  have sz: "packet_size ?short = 504" using doubles_packet_size [of ?w 61] w(1) by simp
  have it: "ub_iterator ub1 = ?out + 511" and ok: "\<not> ub_error ub1"
    using packet_state_fits [OF assms(1,2) val] b(2,4) assms(3) sz
    by (auto simp: packet_payload_def ps)
  have st: "fixed_buffer ub1" using packet_state_safe [OF assms(1,2) val] ps safe_step_fixed by metis
  have fin: "ub_final ub1 = ?out + 512" using b(1) assms(1,3) by (simp add: buffer_for_def)
  have "located (?out + 7) ub1 \<and> ub_offset ub1 = 504"
  proof -
    let ?ub = "ucdr_reset_buffer (nh_output_cdr nh)"
    have fr: "fresh (?out + 7) (OUTPUT_SIZE E - 7) ?ub"
      using assms(2) by (intro reset_fresh) (simp add: nh_ok_def)
    have lo: "located (?out + 7) ?ub" using assms(1) by (intro fresh_located [OF fr]) (auto simp: env_ok_def)
    show ?thesis
      using packet_fits(2) [OF lo val ps [unfolded packet_state_def] ok] fr sz assms(3)
      by (simp add: packet_size_def fresh_def)
  qed
  then have al: "ucdr_buffer_alignment ub1 8 = 0"
    by (subst buffer_alignment_pad) (auto simp: located_def cdr_sizes_def pad_to_def)
  have nf: "\<not> fits 8 ub1" using it fin al by (simp add: fits_def)
  have st2: "packet_state E (doubles 63 v) nh = (m1, overrun 8 ub1)"
    using ps packet_serialize_snoc [of ?w ?n no_callback T_double ?x] w st ok nf vw
      serialize_overrun [of ub1 T_double no_callback ub_endianness ?x m1]
    by (simp add: packet_state_def ucdr_serialize_def fixed_buffer_def)
  show "ub_error (snd (packet_state E (doubles 63 v) nh))" by (simp add: st2)
  have "ub_iterator (overrun 8 ub1) = ?out + 511"
    using it fin al by (simp add: overrun_def item_at_def)
  moreover have "msg_valid K (fst (doubles 63 v)) (snd (doubles 63 v))" for K
    using doubles_valid [OF v] .
  ultimately show "length (packet_payload E (doubles 63 v) nh) = 504"
    using packet_state_buffer(4) [OF assms(1,2) _ st2] by (simp add: packet_payload_def st2)
qed

section \<open>A sample node\<close>

text \<open>Used to show that the hypotheses below can hold: its application records what it is given.\<close>

type_synonym deliveries = "(nat \<times> gen_value list) list"

definition sample_memory :: gen_env where
  "sample_memory = \<lparr>ge_sizeof = (\<lambda>t. 4), ge_realloc = (\<lambda>n. n \<le> 64), ge_uninit = 0, ge_fresh = W_prim [0, 0, 0, 0]\<rparr>"

definition sample_env :: "deliveries nh_env" where
  "sample_env =
     \<lparr>MAX_SUBSCRIBERS = 25, MAX_PUBLISHERS = 25, INPUT_SIZE = 512, OUTPUT_SIZE = 512, message_in = 0,
      hw_time = of_nat, nh_gen = sample_memory, app_callback = (\<lambda>s v nh. nh\<lparr>nh_app := nh_app nh @ [(s, v)]\<rparr>),
      app_service = (\<lambda>s v nh. ([], nh\<lparr>nh_app := nh_app nh @ [(s, v)]\<rparr>))\<rparr>"

text \<open>A message with a message and an array inside.\<close>

abbreviation sample_fields :: "gen_type list" where
  "sample_fields \<equiv> [G_msg [G_prim T_uint32_t], G_seq (G_prim T_uint32_t)]"

abbreviation sample_values :: "gen_value list" where
  "sample_values \<equiv> [W_msg [W_prim [1, 2, 3, 4]], W_seq (W_prim []) 1 [W_prim [5, 6, 7, 8]]]"

definition sample_pub :: Publisher where
  "sample_pub = \<lparr>pub_topic = c_str ''chatter'', pub_type = c_str ''std_msgs/UInt32'', pub_md5 = [],
                 pub_endpoint = 0, pub_id = 0\<rparr>"

definition sample_sub :: Subscriber where
  "sample_sub = \<lparr>sub_kind = K_Subscriber, sub_topic = c_str ''chatter'', sub_type = c_str ''std_msgs/UInt32'',
                 sub_md5 = [], sub_endpoint = 1, sub_id = 0, sub_fields = sample_fields,
                 sub_msg = [W_msg [W_prim [0, 0, 0, 0]], W_seq (W_prim [0, 0, 0, 0]) 0 []], sub_resp_fields = [], sub_pub = 0, sub_waiting = False\<rparr>"

definition sample_node :: "deliveries node_handle" where
  "sample_node =
     initNode sample_env (new_NodeHandle sample_env (ucdr_init_buffer 0 0) (\<lambda>_. sample_pub) (\<lambda>_. sample_sub) [])"

definition ready_node :: "deliveries node_handle" where
  "ready_node = (snd (subscribe 0 sample_node))\<lparr>nh_configured := True\<rparr>"

lemma initNode_ok:
  "7 \<le> OUTPUT_SIZE E \<Longrightarrow> length (nh_publishers nh) = MAX_PUBLISHERS E \<Longrightarrow>
   length (nh_subscribers nh) = MAX_SUBSCRIBERS E \<Longrightarrow> nh_ok E (initNode E nh)"
  using init_fresh by (simp add: nh_ok_def initNode_def fresh_def)

lemma sample_env_ok: "env_ok sample_env"
  by (simp add: env_ok_def sample_env_def message_out_def)

lemma sample_node_ok: "nh_ok sample_env sample_node"
  unfolding sample_node_def
  by (rule initNode_ok) (simp_all add: sample_env_def new_NodeHandle_def)

lemma ready_node_ok: "nh_ok sample_env ready_node" "nh_configured ready_node"
  using sample_node_ok by (simp_all add: ready_node_def subscribe_def nh_ok_def split: option.split)

lemma sample_sizes: "OUTPUT_SIZE sample_env = 512" "INPUT_SIZE sample_env = 512" "message_in sample_env = 0"
  "MAX_SUBSCRIBERS sample_env = 25" "MAX_PUBLISHERS sample_env = 25"
  by (simp_all add: sample_env_def)

section \<open>Properties\<close>

text \<open>
  C9: a message whose CDR layout leaves room for the header and the checksum is sent as exactly one
  frame of the protocol, whose payload has the length the CDR rules give and decodes to the message
  wherever a receiver puts it; only the output buffer of the node changes.
\<close>

theorem publish_sends_frame:
  assumes "env_ok E" "nh_ok E nh" "msg_valid K ts vs" "topic < 100 \<or> nh_configured nh"
    and "packet_size (ts, vs) + 7 < OUTPUT_SIZE E"
  shows "\<exists>payload nh'. publish E (int topic) (ts, vs) nh = Some (int (length (frame topic payload)), nh') \<and>
    published E nh (frame topic payload) nh' \<and> nh_ok E nh' \<and>
    nh_written nh' = nh_written nh @ frame topic payload \<and>
    length payload = packet_size (ts, vs) \<and> decodes K payload ts vs"
  using assms by (rule publish_total_frame)

lemma sample_msg: "msg_valid sample_memory sample_fields sample_values" "packet_size (sample_fields, sample_values) = 16"
  by (simp_all add: msg_valid_def element_type_def sample_memory_def basic_valid_def packet_size_def prim_stop_def pad_to_def)

theorem publish_sends_frame_witness:
  "\<exists>payload nh'. publish sample_env 125 (sample_fields, sample_values) ready_node =
      Some (24, nh') \<and> nh_written nh' = frame 125 payload \<and> length payload = 16"
proof -
  have "nh_written ready_node = []"
    by (simp add: ready_node_def subscribe_def sample_node_def initNode_def new_NodeHandle_def split: option.split)
  then show ?thesis
    using publish_sends_frame [OF sample_env_ok ready_node_ok(1) sample_msg(1), of 125]
    by (auto simp: ready_node_ok(2) sample_sizes sample_msg(2) length_frame)
qed

text \<open>
  C16: when the serialised message fills the output buffer, nothing of it is sent: \<open>publish\<close> answers
  -1 and sends one log frame, on topic 7, that decodes to the error report. The report itself
  always fits once the buffer has 77 bytes, so that \<open>publish\<close> and \<open>logerror\<close> do not call each other
  again.
\<close>

theorem publish_reports_drop:
  assumes "env_ok E" "nh_ok E nh" "msg_valid K ts vs" "topic < 100 \<or> nh_configured nh"
    and "OUTPUT_SIZE E \<le> length (packet_payload E (ts, vs) nh) + 7" "77 \<le> OUTPUT_SIZE E"
  shows "\<exists>p nh'. publish E (int topic) (ts, vs) nh = Some (- 1, nh') \<and> nh_ok E nh' \<and>
    nh_written nh' = nh_written nh @ frame 7 p \<and>
    (\<forall>K'. decodes K' p [G_prim T_uint8_t, G_string] [W_prim [ROS_ERROR], W_string drop_text])"
proof -
  have v: "msg_valid K (fst (ts, vs)) (snd (ts, vs))" using assms(3) by simp
  obtain p nh' where r: "publish E (int topic) (ts, vs) nh = Some (- 1, nh')" "published E nh (frame 7 p) nh'"
    "\<forall>K'. decodes K' p (fst (msg_Log ROS_ERROR drop_text)) (snd (msg_Log ROS_ERROR drop_text))"
    using publish_too_large [OF assms(1,2) v assms(4-6)] by blast
  then have "nh_written nh' = nh_written nh @ frame 7 p"
    by (auto simp: published_def hw_write_def)
  with r published_ok [OF r(2) assms(2)] show ?thesis by (auto simp: msg_Log_def)
qed

lemma fold_prim_stop_bytes: "fold (\<lambda>_. prim_stop (Suc 0)) xs p = p + length xs"
  by (induction xs arbitrary: p) (simp_all add: prim_stop_def pad_to_def)

lemma gen_byte_stop: "gen_stop (G_prim T_uint8_t) (W_prim v) = prim_stop (Suc 0)"
  by (simp add: fun_eq_iff)

theorem publish_reports_drop_witness:
  "\<exists>p nh'. publish sample_env 125 ([G_array (G_prim T_uint8_t) 501], [W_array (replicate 501 (W_prim [0]))]) ready_node = Some (- 1, nh') \<and>
     decodes sample_memory p [G_prim T_uint8_t, G_string] [W_prim [ROS_ERROR], W_string drop_text]"
proof -
  let ?msg = "([G_array (G_prim T_uint8_t) 501], [W_array (replicate 501 (W_prim [0]))]) :: msg"
  have v: "msg_valid sample_memory (fst ?msg) (snd ?msg)" by (simp add: msg_valid_def element_type_def basic_valid_def list_all_length)
  have "packet_size ?msg = 505"
    using fold_prim_stop_bytes [of "replicate 501 (W_prim [0 :: u8])" 4] gen_byte_stop by (simp add: packet_size_def)
  then have "length (packet_payload sample_env ?msg ready_node) = 505"
    using packet_state_fits(2) [OF sample_env_ok ready_node_ok(1) v] by (simp add: sample_sizes)
  then show ?thesis
    using publish_reports_drop [OF sample_env_ok ready_node_ok(1) v [unfolded fst_conv snd_conv], of 125]
    by (auto simp: ready_node_ok(2) sample_sizes)
qed

text \<open>
  With the default output size a message of 63 doubles, which needs 512 bytes of payload, is not
  reported as too large. The serialiser stops at the last double with its error flag raised, the
  write position stays one byte before the end of the buffer, and \<open>publish\<close> sends the 504 bytes it
  has as a complete frame.
\<close>

theorem publish_cuts_off:
  assumes "env_ok E" "nh_ok E nh" "OUTPUT_SIZE E = 512" "topic < 100 \<or> nh_configured nh"
    and "length v = 63" "\<forall>x \<in> set v. basic_valid T_double x"
  shows "packet_size (doubles 63 v) = 512 \<and>
    ub_error (snd (packet_state E (doubles 63 v) nh)) \<and>
    (\<exists>payload nh'. publish E (int topic) (doubles 63 v) nh = Some (512, nh') \<and>
       length payload = 504 \<and> nh_written nh' = nh_written nh @ frame topic payload)"
proof -
  let ?msg = "doubles 63 v" and ?p = "packet_payload E (doubles 63 v) nh"
  note cut = doubles_truncated [OF assms(1-3,5,6)]
  have v: "msg_valid K (fst ?msg) (snd ?msg)" for K using doubles_valid [OF assms(5,6)] .
  obtain nh' where r: "publish_rec (Suc (Suc 0)) E (int topic) ?msg nh = Some (int (length (frame topic ?p)), nh')"
    "published E nh (frame topic ?p) nh'"
    using publish_rec_sends_published [OF assms(1,2) v assms(4), of "Suc 0"] cut(1) assms(3) by auto
  have "nh_written nh' = nh_written nh @ frame topic ?p"
    using r(2) by (auto simp: published_def hw_write_def)
  moreover have "publish E (int topic) ?msg nh = Some (512, nh')"
    using r(1) cut(1) by (simp add: publish_def numeral_2_eq_2 length_frame)
  moreover have "packet_size ?msg = 512" using doubles_packet_size [of v 62] assms(5) by simp
  ultimately show ?thesis using cut by blast
qed

theorem publish_cuts_off_witness:
  "\<exists>payload nh'. publish sample_env 125 (doubles 63 (replicate 63 (replicate 8 1))) ready_node =
     Some (512, nh') \<and> length payload = 504 \<and> nh_written nh' = nh_written ready_node @ frame 125 payload"
  using publish_cuts_off [OF sample_env_ok ready_node_ok(1), of 125 "replicate 63 (replicate 8 1)"]
  by (auto simp: sample_sizes ready_node_ok(2) basic_valid_def)

text \<open>
  C17: \<open>publish\<close> always returns when the output buffer has at least 77 bytes: whatever the message and
  the topic, it changes only the output buffer and what was written, keeps the invariant of the
  node's buffers and leaves the input buffer alone.
\<close>

theorem publish_returns:
  assumes "env_ok E" "nh_ok E nh" "msg_valid K ts vs" "77 \<le> OUTPUT_SIZE E"
  shows "\<exists>r nh' bs. publish E (int topic) (ts, vs) nh = Some (r, nh') \<and> published E nh bs nh' \<and>
    nh_ok E nh' \<and> mem_read (message_in E) (INPUT_SIZE E) (nh_mem nh') =
      mem_read (message_in E) (INPUT_SIZE E) (nh_mem nh)"
proof -
  obtain r bs nh' where p: "publish E (int topic) (ts, vs) nh = Some (r, nh')" "published E nh bs nh'"
    using publish_total [OF assms(1,2), of K "(ts, vs)" topic] assms(3,4) by auto
  have "mem_read (message_in E) (INPUT_SIZE E) (nh_mem nh') = mem_read (message_in E) (INPUT_SIZE E) (nh_mem nh)"
    using p(2) by (intro mem_read_eqI) (auto simp: published_def hw_write_def message_out_def)
  with p published_ok [OF p(2) assms(2)] show ?thesis by blast
qed

theorem publish_returns_witness:
  "\<exists>r nh'. publish sample_env 125 (doubles 63 (replicate 63 (replicate 8 1))) sample_node = Some (r, nh') \<and>
     nh_ok sample_env nh'"
proof -
  have "msg_valid sample_memory (fst (doubles 63 (replicate 63 (replicate 8 1)))) (snd (doubles 63 (replicate 63 (replicate 8 1))))"
    by (rule doubles_valid) (simp_all add: basic_valid_def)
  then show ?thesis
    using publish_returns [OF sample_env_ok sample_node_ok, of sample_memory "fst (doubles 63 (replicate 63 (replicate 8 1)))" _ 125]
    by (simp add: sample_sizes) blast
qed

end
