(* ===== verification/Node_Spin.thy ===== *)
theory Node_Spin
  imports Node_Publish
begin

text \<open>
  What the byte state machine of \<open>spinOnce\<close> does with a frame: a well-formed frame is stored and
  dispatched exactly once, wherever it comes in the input; a frame with a wrong checksum is dropped;
  time synchronisation sets the clock; a frame whose size exceeds the input buffer leaves the
  bounds of \<open>message_in\<close>.
\<close>

section \<open>One byte at a time\<close>

declare spin_loop.simps [simp del]

lemma uint_u8_le [simp]: "uint (b :: u8) \<le> 255"
  using uint_lt2p [of b] by simp

lemma spin_loop_byte:
  assumes "nh_spin_timeout nh = 0" "0 \<le> data" "data \<le> 255"
  shows "spin_loop E c (data # input) nh =
    (case spin_byte E c data nh of
       Continue nh2 \<Rightarrow> spin_loop E c input nh2
     | Return code nh2 \<Rightarrow> Inr (input, Some code, nh2)
     | Fault f \<Rightarrow> Inl f)"
  using assms by (simp add: spin_loop.simps spin_expired_def)

lemma push_bit_8: "push_bit 8 (i :: int) = i * 256"
  by (simp add: push_bit_eq_mult)

lemma lo_hi_uint: "n < 65536 \<Longrightarrow> uint (lo_byte n) + uint (hi_byte n) * 256 = int n"
  using lo_hi_unat [of n] by (metis of_nat_add of_nat_mult of_nat_numeral uint_nat)

lemma checksum_uint: "(uint a + uint b + uint c) mod 256 = 255 \<longleftrightarrow> c = checksum_of [a, b]"
  using checksum_ok_int [of "[a, b]" c] by simp

definition header_state :: "u32 \<Rightarrow> nat \<Rightarrow> nat \<Rightarrow> 'a node_handle \<Rightarrow> 'a node_handle" where
  "header_state c topic l nh =
     nh\<lparr>nh_mode := if l = 0 then MODE_MSG_CHECKSUM else MODE_MESSAGE, nh_bytes := int l,
        nh_topic := int topic, nh_index := 0, nh_checksum := uint (lo_byte topic) + uint (hi_byte topic),
        nh_last_msg_timeout_time := c + SERIAL_MSG_TIMEOUT\<rparr>"

lemma spin_sync:
  assumes "nh_spin_timeout nh = 0" "nh_mode nh = MODE_FIRST_FF"
  shows "spin_loop E c (255 # 254 # input) nh =
    spin_loop E c input (nh\<lparr>nh_mode := MODE_SIZE_L, nh_last_msg_timeout_time := c + SERIAL_MSG_TIMEOUT,
      nh_checksum := nh_checksum nh + 255 + 254\<rparr>)"
  using assms
  by (cases nh) (simp add: spin_loop_byte spin_byte_def spin_first_ff_def spin_protocol_ver_def mode_defs
      PROTOCOL_VER_def PROTOCOL_VER2_def)

lemma spin_size:
  assumes "nh_spin_timeout nh = 0" "nh_mode nh = MODE_SIZE_L"
  shows "spin_loop E c (uint b2 # uint b3 # uint b4 # input) nh =
    spin_loop E c input (nh\<lparr>nh_mode := if b4 = checksum_of [b2, b3] then MODE_TOPIC_L else MODE_FIRST_FF,
      nh_bytes := uint b2 + uint b3 * 256, nh_index := 0, nh_checksum := uint b2 + uint b3 + uint b4\<rparr>)"
  using assms checksum_uint [of b2 b3 b4]
  by (cases nh) (simp add: spin_loop_byte spin_byte_def spin_size_l_def spin_size_h_def
      spin_size_checksum_def mode_defs push_bit_8)

lemma spin_topic:
  fixes b5 b6 :: u8
  assumes "nh_spin_timeout nh = 0" "nh_mode nh = MODE_TOPIC_L" "isTopicValid E (uint b5 + uint b6 * 256)"
  shows "spin_loop E c (uint b5 # uint b6 # input) nh =
    spin_loop E c input (nh\<lparr>nh_mode := if nh_bytes nh = 0 then MODE_MSG_CHECKSUM else MODE_MESSAGE,
      nh_topic := uint b5 + uint b6 * 256, nh_checksum := uint b5 + uint b6\<rparr>)"
proof -
  let ?nh = "nh\<lparr>nh_topic := uint b5, nh_mode := MODE_TOPIC_H, nh_checksum := uint b5\<rparr>"
  have "spin_byte E c (uint b5) nh = Continue ?nh"
    using assms(2) by (cases nh) (simp add: spin_byte_def spin_topic_l_def mode_defs)
  moreover have "spin_byte E c (uint b6) ?nh =
      Continue (nh\<lparr>nh_mode := if nh_bytes nh = 0 then MODE_MSG_CHECKSUM else MODE_MESSAGE,
        nh_topic := uint b5 + uint b6 * 256, nh_checksum := uint b5 + uint b6\<rparr>)"
    using assms(3) by (cases nh) (simp add: spin_byte_def spin_topic_h_def mode_defs push_bit_8 Let_def)
  ultimately show ?thesis using assms(1) by (simp add: spin_loop_byte)
qed

lemma spin_header:
  assumes "nh_spin_timeout nh = 0" "nh_mode nh = MODE_FIRST_FF"
    and "isTopicValid E (int topic)" "topic < 65536" "l < 65536"
  shows "spin_loop E c (map uint (header_bytes topic l) @ rest) nh =
    spin_loop E c rest (header_state c topic l nh)"
proof -
  have t: "uint (lo_byte topic) + uint (hi_byte topic) * 256 = int topic"
    "uint (lo_byte l) + uint (hi_byte l) * 256 = int l"
    using assms(4,5) by (simp_all add: lo_hi_uint)
  show ?thesis
    using assms(1-3)
    by (cases nh) (simp add: header_bytes_def PROTOCOL_VER_def PROTOCOL_VER2_def spin_sync spin_size spin_topic t header_state_def)
qed

lemma spin_payload:
  assumes "nh_spin_timeout nh = 0" "nh_mode nh = MODE_MESSAGE" "nh_index nh = int k"
    and "nh_bytes nh = int (length bs)" "bs \<noteq> []" "k + length bs \<le> INPUT_SIZE E"
  shows "spin_loop E c (map uint bs @ rest) nh =
    spin_loop E c rest (nh\<lparr>nh_mem := mem_write (message_in E + k) bs (nh_mem nh),
      nh_mode := MODE_MSG_CHECKSUM, nh_bytes := 0, nh_index := int (k + length bs),
      nh_checksum := nh_checksum nh + int (byte_sum bs)\<rparr>)"
  using assms
proof (induction bs arbitrary: nh k)
  case (Cons b bs)
  let ?nh = "nh\<lparr>nh_checksum := nh_checksum nh + uint b, nh_mem := (nh_mem nh)(message_in E + k := b),
      nh_index := int (Suc k), nh_bytes := int (length bs)\<rparr>"
  have step: "spin_byte E c (uint b) nh =
      Continue (if bs = [] then ?nh\<lparr>nh_mode := MODE_MSG_CHECKSUM\<rparr> else ?nh)"
    using Cons.prems by (cases nh) (simp add: spin_byte_def spin_message_def mode_defs Let_def)
  show ?case
  proof (cases "bs = []")
    case True
    with Cons.prems step show ?thesis
      by (cases nh) (simp add: spin_loop_byte fun_upd_def)
  next
    case False
    then have "spin_loop E c (map uint bs @ rest) ?nh = spin_loop E c rest
        (?nh\<lparr>nh_mem := mem_write (message_in E + Suc k) bs (nh_mem ?nh), nh_mode := MODE_MSG_CHECKSUM,
         nh_bytes := 0, nh_index := int (Suc k + length bs),
         nh_checksum := nh_checksum ?nh + int (byte_sum bs)\<rparr>)"
      using Cons.prems by (intro Cons.IH) simp_all
    with False Cons.prems step show ?thesis
      by (cases nh) (simp add: spin_loop_byte add.assoc)
  qed
qed simp

section \<open>A whole frame\<close>

definition received :: "'a nh_env \<Rightarrow> u32 \<Rightarrow> nat \<Rightarrow> u8 list \<Rightarrow> u8 \<Rightarrow> 'a node_handle \<Rightarrow> 'a node_handle" where
  "received E c topic payload ck nh =
     nh\<lparr>nh_mem := mem_write (message_in E) payload (nh_mem nh), nh_mode := MODE_FIRST_FF, nh_bytes := 0,
        nh_topic := int topic, nh_index := int (length payload),
        nh_checksum := int (byte_sum ([lo_byte topic, hi_byte topic] @ payload) + unat ck),
        nh_last_msg_timeout_time := c + SERIAL_MSG_TIMEOUT\<rparr>"

definition finish :: "'a nh_env \<Rightarrow> u32 \<Rightarrow> int list \<Rightarrow> 'a node_handle step \<Rightarrow>
    fault + (int list \<times> int option \<times> 'a node_handle)" where
  "finish E c rest st =
     (case st of
        Continue nh \<Rightarrow> spin_loop E c rest nh
      | Return code nh \<Rightarrow> Inr (rest, Some code, nh)
      | Fault f \<Rightarrow> Inl f)"

lemma spin_loop_finish:
  "nh_spin_timeout nh = 0 \<Longrightarrow> 0 \<le> data \<Longrightarrow> data \<le> 255 \<Longrightarrow>
   spin_loop E c (data # input) nh = finish E c input (spin_byte E c data nh)"
  by (simp add: spin_loop_byte finish_def)

lemma spin_trailer:
  assumes "nh_spin_timeout nh = 0" "nh_mode nh = MODE_MSG_CHECKSUM" "nh_checksum nh = int (byte_sum bs)"
  shows "spin_loop E c (uint ck # rest) nh =
    (let nh1 = nh\<lparr>nh_mode := MODE_FIRST_FF, nh_checksum := int (byte_sum bs + unat ck)\<rparr>
     in if ck = checksum_of bs then finish E c rest (dispatch E c nh1) else spin_loop E c rest nh1)"
proof -
  have "spin_byte E c (uint ck) nh =
      (let nh1 = nh\<lparr>nh_mode := MODE_FIRST_FF, nh_checksum := int (byte_sum bs + unat ck)\<rparr>
       in if ck = checksum_of bs then dispatch E c nh1 else Continue nh1)"
    using assms(2,3) checksum_ok_int [of bs ck] by (cases nh) (simp add: spin_byte_def spin_msg_checksum_def mode_defs Let_def)
  with assms(1) show ?thesis by (simp add: spin_loop_finish finish_def Let_def)
qed

lemma header_payload_state:
  assumes "nh_spin_timeout nh = 0" "nh_mode nh = MODE_FIRST_FF" "isTopicValid E (int topic)" "topic < 65536"
    and "length payload < 65536" "length payload \<le> INPUT_SIZE E"
  shows "spin_loop E c (map uint (header_bytes topic (length payload)) @ map uint payload @ rest) nh =
    spin_loop E c rest ((received E c topic payload 0 nh)\<lparr>nh_mode := MODE_MSG_CHECKSUM\<rparr>)"
proof (cases "payload = []")
  case True
  have "header_state c topic 0 nh = (received E c topic [] 0 nh)\<lparr>nh_mode := MODE_MSG_CHECKSUM\<rparr>"
    by (cases nh) (simp add: header_state_def received_def)
  with True assms show ?thesis by (simp add: spin_header)
next
  case False
  let ?nh = "header_state c topic (length payload) nh"
  have "spin_loop E c (map uint payload @ rest) ?nh = spin_loop E c rest
      (?nh\<lparr>nh_mem := mem_write (message_in E + 0) payload (nh_mem ?nh), nh_mode := MODE_MSG_CHECKSUM,
        nh_bytes := 0, nh_index := int (0 + length payload),
        nh_checksum := nh_checksum ?nh + int (byte_sum payload)\<rparr>)"
    using assms False by (intro spin_payload) (simp_all add: header_state_def)
  also have "?nh\<lparr>nh_mem := mem_write (message_in E + 0) payload (nh_mem ?nh), nh_mode := MODE_MSG_CHECKSUM,
        nh_bytes := 0, nh_index := int (0 + length payload),
        nh_checksum := nh_checksum ?nh + int (byte_sum payload)\<rparr> =
      (received E c topic payload 0 nh)\<lparr>nh_mode := MODE_MSG_CHECKSUM\<rparr>"
    by (cases nh) (simp add: header_state_def received_def)
  finally show ?thesis using assms by (simp add: spin_header)
qed

lemma spin_frame:
  assumes "nh_spin_timeout nh = 0" "nh_mode nh = MODE_FIRST_FF" "isTopicValid E (int topic)" "topic < 65536"
    and "length payload < 65536" "length payload \<le> INPUT_SIZE E"
  shows "spin_loop E c (map uint (header_bytes topic (length payload) @ payload @ [ck]) @ rest) nh =
    (if ck = checksum_of ([lo_byte topic, hi_byte topic] @ payload)
     then finish E c rest (dispatch E c (received E c topic payload ck nh))
     else spin_loop E c rest (received E c topic payload ck nh))"
proof -
  let ?nh = "(received E c topic payload 0 nh)\<lparr>nh_mode := MODE_MSG_CHECKSUM\<rparr>"
  let ?bs = "[lo_byte topic, hi_byte topic] @ payload"
  have eq: "?nh\<lparr>nh_mode := MODE_FIRST_FF, nh_checksum := int (byte_sum ?bs + unat ck)\<rparr> =
      received E c topic payload ck nh"
    by (cases nh) (simp add: received_def)
  have "spin_loop E c (uint ck # rest) ?nh =
     (if ck = checksum_of ?bs then finish E c rest (dispatch E c (received E c topic payload ck nh))
      else spin_loop E c rest (received E c topic payload ck nh))"
    using spin_trailer [of ?nh ?bs E c ck rest, unfolded eq Let_def] assms(1) by (simp add: received_def)
  then show ?thesis using header_payload_state [OF assms, of c "uint ck # rest"] by simp
qed

section \<open>Delivery to a subscriber\<close>

definition delivered :: "nat \<Rightarrow> gen_value list \<Rightarrow> ucdrBuffer \<Rightarrow> 'a node_handle \<Rightarrow> 'a node_handle" where
  "delivered s vs ub nh =
     nh\<lparr>nh_input_cdr := ub, nh_sub_obj := (nh_sub_obj nh)(s := (nh_sub_obj nh s)\<lparr>sub_msg := vs\<rparr>)\<rparr>"

text \<open>An object of the class of messages \<open>ts\<close> that has the values \<open>vs\<close>.\<close>

definition has_values :: "gen_type list \<Rightarrow> gen_value list \<Rightarrow> gen_value list \<Rightarrow> bool" where
  "has_values ts vs ob \<longleftrightarrow> map gen_view ob = vs \<and> list_all2 shaped ts ob"

lemma deserialize_delivers:
  assumes "nh_ok E nh" "decodes (nh_gen E) payload (sub_fields (nh_sub_obj nh s)) vs"
    and "list_all2 shaped (sub_fields (nh_sub_obj nh s)) (sub_msg (nh_sub_obj nh s))"
    and "length payload \<le> INPUT_SIZE E" "mem_read (message_in E) (length payload) (nh_mem nh) = payload"
  obtains ob ub where "deserialize_into E s (open_input E nh) = Some (ob, delivered s ob ub nh)"
    "has_values (sub_fields (nh_sub_obj nh s)) vs ob" "buffer_for (message_in E) (INPUT_SIZE E) ub"
proof -
  let ?s0 = "(nh_mem nh, ucdr_reset_buffer (nh_input_cdr nh))" and ?o = "nh_sub_obj nh s"
  have fr: "fresh (message_in E) (INPUT_SIZE E) (ucdr_reset_buffer (nh_input_cdr nh))"
    using assms(1) by (intro reset_fresh) (simp add: nh_ok_def)
  obtain ob ub where r: "packet_deserialize no_callback (nh_gen E) (sub_fields ?o) (sub_msg ?o) ?s0 = Some (True, ob, nh_mem nh, ub)"
    "map gen_view ob = vs" "list_all2 shaped (sub_fields ?o) ob" "buffer_for (message_in E) (INPUT_SIZE E) ub"
    using decodesD [OF assms(2,3) fr assms(4,5)] by blast
  obtain k m1 ub1 where enc: "deserialize_encapsulation no_callback ?s0 = (k, m1, ub1)" by (metis prod_cases3)
  then have m: "gen_cdr_deserialize no_callback (nh_gen E) (sub_fields ?o) (sub_msg ?o) (m1, ub1) = Some (True, ob, nh_mem nh, ub)"
    using r(1) by (simp add: packet_deserialize_def)
  have "deserialize_into E s (open_input E nh) = Some (ob, nh\<lparr>nh_mem := nh_mem nh, nh_input_cdr := ub,
      nh_sub_obj := (nh_sub_obj nh)(s := ?o\<lparr>sub_msg := ob\<rparr>)\<rparr>)"
    by (simp add: deserialize_into_def open_input_def enc m Let_def)
  also have "nh\<lparr>nh_mem := nh_mem nh, nh_input_cdr := ub,
      nh_sub_obj := (nh_sub_obj nh)(s := ?o\<lparr>sub_msg := ob\<rparr>)\<rparr> = delivered s ob ub nh"
    by (rule node_handle.equality) (simp_all add: delivered_def)
  finally show thesis using r(2-4) that by (simp add: has_values_def)
qed

lemma dispatch_subscriber:
  assumes "nh_ok E nh" "nh_topic nh = int topic" "100 \<le> topic" "topic < 100 + MAX_SUBSCRIBERS E"
    and "nh_subscribers nh ! (topic - 100) = Some s" "sub_kind (nh_sub_obj nh s) = K_Subscriber"
    and "decodes (nh_gen E) payload (sub_fields (nh_sub_obj nh s)) vs"
    and "list_all2 shaped (sub_fields (nh_sub_obj nh s)) (sub_msg (nh_sub_obj nh s))" "length payload \<le> INPUT_SIZE E"
    and "mem_read (message_in E) (length payload) (nh_mem nh) = payload"
  obtains ob ub where "dispatch E c nh = Continue (app_callback E s ob (delivered s ob ub nh))"
    "has_values (sub_fields (nh_sub_obj nh s)) vs ob" "buffer_for (message_in E) (INPUT_SIZE E) ub"
proof -
  obtain ob ub where d: "deserialize_into E s (open_input E nh) = Some (ob, delivered s ob ub nh)"
    "has_values (sub_fields (nh_sub_obj nh s)) vs ob" "buffer_for (message_in E) (INPUT_SIZE E) ub"
    using deserialize_delivers [OF assms(1,7-10)] by blast
  have kind: "sub_kind (nh_sub_obj (open_input E nh) s) = K_Subscriber"
    using assms(6) by (simp add: open_input_def split: prod.split)
  have idx: "nat (int topic - 100) = topic - 100" using assms(3) by simp
  have "dispatch E c nh = Continue (app_callback E s ob (delivered s ob ub nh))"
    using assms(2-5) d(1) kind
    by (simp add: dispatch_def id_defs isTopicValid_def idx sub_callback_def)
  with d(2,3) that show thesis by blast
qed

lemma nh_ok_received: "nh_ok E (received E c topic payload ck nh) = nh_ok E nh"
  by (simp add: nh_ok_def received_def)

lemma received_sel [simp]:
  "nh_topic (received E c topic payload ck nh) = int topic"
  "nh_subscribers (received E c topic payload ck nh) = nh_subscribers nh"
  "nh_sub_obj (received E c topic payload ck nh) = nh_sub_obj nh"
  "nh_configured (received E c topic payload ck nh) = nh_configured nh"
  "nh_rt_time (received E c topic payload ck nh) = nh_rt_time nh"
  "nh_clock (received E c topic payload ck nh) = nh_clock nh"
  "nh_mode (received E c topic payload ck nh) = MODE_FIRST_FF"
  "mem_read (message_in E) (length payload) (nh_mem (received E c topic payload ck nh)) = payload"
  by (simp_all add: received_def mem_read_write_same)

section \<open>The clock\<close>

lemma uint_mod_1000: "uint ((w :: u32) mod 1000) = uint w mod 1000" "uint ((w :: u32) div 1000) = uint w div 1000"
  by (simp_all add: uint_mod uint_div)

lemma ms_part_exact: "uint (((w :: u32) mod 1000) * 1000000) = uint w mod 1000 * 1000000"
proof -
  have "uint w mod 1000 * 1000000 < 2 ^ 32"
    using pos_mod_bound [of 1000 "uint w"] by simp
  then show ?thesis by (simp add: uint_word_ariths uint_mod_1000 take_bit_eq_mod)
qed

definition clock_ns :: "u32 \<Rightarrow> int" where
  "clock_ns ms = uint ms * 1000000"

lemma clock_ns_split: "clock_ns ms = uint ms div 1000 * giga + uint ms mod 1000 * 1000000"
proof -
  have "uint ms = uint ms div 1000 * 1000 + uint ms mod 1000" by simp
  then show ?thesis unfolding clock_ns_def by linarith
qed

lemma uint_plus_mod: "uint ((a :: u32) + b) = (uint a + uint b) mod 2 ^ 32"
  by (simp add: uint_word_ariths take_bit_eq_mod)

lemma setNow_offsets:
  fixes sec nanosec ms :: u32
  assumes "uint nanosec + giga < 2 ^ 32"
  shows "uint (nanosec - (ms mod 1000) * 1000000 + 1000000000) = uint nanosec - uint ms mod 1000 * 1000000 + giga"
    and "uint (sec - ms div 1000 - 1) = (uint sec - uint ms div 1000 - 1) mod 2 ^ 32"
proof -
  let ?r = "uint ms mod 1000 * 1000000"
  have r: "0 \<le> ?r" "?r < giga" using pos_mod_bound [of 1000 "uint ms"] by simp_all
  have "nanosec - (ms mod 1000) * 1000000 + 1000000000 =
      word_of_int (uint nanosec - uint ((ms mod 1000) * 1000000) + giga)" by simp
  then have w: "nanosec - (ms mod 1000) * 1000000 + 1000000000 = word_of_int (uint nanosec - ?r + giga)"
    by (simp only: ms_part_exact)
  have u: "uint (word_of_int i :: u32) = i" if "0 \<le> i" "i < 2 ^ 32" for i
    using that by (simp add: uint_word_of_int)
  have "0 \<le> uint nanosec" by simp
  then show "uint (nanosec - (ms mod 1000) * 1000000 + 1000000000) = uint nanosec - ?r + giga"
    unfolding w by (intro u) (use r assms in linarith)+
  have "sec - ms div 1000 - 1 = word_of_int (uint sec - uint (ms div 1000) - 1)" by simp
  then have "sec - ms div 1000 - 1 = word_of_int (uint sec - uint ms div 1000 - 1)"
    by (simp only: uint_mod_1000)
  then show "uint (sec - ms div 1000 - 1) = (uint sec - uint ms div 1000 - 1) mod 2 ^ 32"
    by (simp only: uint_word_of_int) simp
qed

definition offset_time :: "'a node_handle \<Rightarrow> Time" where
  "offset_time nh = \<lparr>t_sec = nh_sec_offset nh, t_nsec = nh_nsec_offset nh\<rparr>"

lemma setNow_offset_time:
  assumes "uint nanosec + giga < 2 ^ 32"
  shows "time_ns (offset_time (setNow E sec nanosec nh)) =
      (uint sec * giga + uint nanosec - clock_ns (hw_time E (nh_clock nh))) mod time_range"
    and "time_normal (offset_time (setNow E sec nanosec nh))"
proof -
  let ?ms = "hw_time E (nh_clock nh)"
  let ?p = "normalizeSecNSec (sec - ?ms div 1000 - 1) (nanosec - (?ms mod 1000) * 1000000 + 1000000000)"
  have eq: "offset_time (setNow E sec nanosec nh) = Time_of ?p"
    by (simp add: offset_time_def setNow_def time_now_def Time_of_def split: prod.split)
  show "time_normal (offset_time (setNow E sec nanosec nh))"
    unfolding eq by (rule normalizeSecNSec_normal)
  have "time_ns (Time_of ?p) = ((uint sec - uint ?ms div 1000 - 1) mod 2 ^ 32 * giga +
      (uint nanosec - uint ?ms mod 1000 * 1000000 + giga)) mod time_range"
    by (simp only: normalizeSecNSec_ns setNow_offsets [OF assms])
  also have "\<dots> = ((uint sec - uint ?ms div 1000 - 1) * giga +
      (uint nanosec - uint ?ms mod 1000 * 1000000 + giga)) mod time_range"
    by (rule range_mod_any)
  finally show "time_ns (offset_time (setNow E sec nanosec nh)) =
      (uint sec * giga + uint nanosec - clock_ns ?ms) mod time_range"
    unfolding eq by (simp add: clock_ns_split algebra_simps)
qed

lemma now_offset_time:
  assumes "time_normal (offset_time nh)"
  shows "time_ns (fst (now E nh)) = (time_ns (offset_time nh) + clock_ns (hw_time E (nh_clock nh))) mod time_range"
    and "time_normal (fst (now E nh))"
proof -
  let ?ms = "hw_time E (nh_clock nh)"
  have now: "fst (now E nh) = Time_of (normalizeSecNSec (?ms div 1000 + nh_sec_offset nh)
      ((?ms mod 1000) * 1000000 + nh_nsec_offset nh))"
    by (simp add: now_def time_now_def)
  show "time_normal (fst (now E nh))" unfolding now by (rule normalizeSecNSec_normal)
  have "uint (nh_nsec_offset nh) < giga" using assms by (simp add: time_normal_uint offset_time_def)
  moreover have "0 \<le> uint (nh_nsec_offset nh)" "uint ?ms mod 1000 * 1000000 < giga" "0 \<le> uint ?ms mod 1000 * 1000000"
    "(2 :: int) ^ 32 = 4294967296"
    using pos_mod_bound [of 1000 "uint ?ms"] by simp_all
  ultimately have "(uint ?ms mod 1000 * 1000000 + uint (nh_nsec_offset nh)) mod 2 ^ 32 =
      uint ?ms mod 1000 * 1000000 + uint (nh_nsec_offset nh)"
    by (intro mod_pos_pos_trivial) linarith+
  then have n: "uint ((?ms mod 1000) * 1000000 + nh_nsec_offset nh) =
      uint ?ms mod 1000 * 1000000 + uint (nh_nsec_offset nh)"
    unfolding uint_plus_mod ms_part_exact by simp
  have s: "uint (?ms div 1000 + nh_sec_offset nh) = (uint ?ms div 1000 + uint (nh_sec_offset nh)) mod 2 ^ 32"
    unfolding uint_plus_mod uint_mod_1000 by simp
  have "time_ns (fst (now E nh)) = ((uint ?ms div 1000 + uint (nh_sec_offset nh)) * giga +
      (uint ?ms mod 1000 * 1000000 + uint (nh_nsec_offset nh))) mod time_range"
    by (simp only: now normalizeSecNSec_ns n s range_mod_any)
  then show "time_ns (fst (now E nh)) = (time_ns (offset_time nh) + clock_ns ?ms) mod time_range"
    by (simp add: time_ns_def offset_time_def clock_ns_split algebra_simps)
qed

lemma syncTime_message:
  assumes "nh_ok E nh" "decodes K payload (fst (msg_Time sec nanosec)) (snd (msg_Time sec nanosec))"
    and "length payload \<le> INPUT_SIZE E" "mem_read (message_in E) (length payload) (nh_mem nh) = payload"
  obtains ub where "syncTime E (open_input E nh) =
      (let offset = hw_time E (nh_clock nh) - nh_rt_time nh;
           nh1 = setNow E (sec + offset div 1000) (nanosec + (offset mod 1000) * 1000000)
             (nh\<lparr>nh_clock := Suc (nh_clock nh), nh_mem := nh_mem nh, nh_input_cdr := ub\<rparr>)
       in nh1\<lparr>nh_clock := Suc (nh_clock nh1), nh_last_sync_receive_time := hw_time E (nh_clock nh1)\<rparr>)"
proof -
  let ?s0 = "(nh_mem nh, ucdr_reset_buffer (nh_input_cdr nh))" and ?z = "[0, 0, 0, 0] :: u8 list"
  have fr: "fresh (message_in E) (INPUT_SIZE E) (ucdr_reset_buffer (nh_input_cdr nh))"
    using assms(1) by (intro reset_fresh) (simp add: nh_ok_def)
  have sh: "list_all2 shaped (fst (msg_Time sec nanosec)) [W_prim ?z, W_prim ?z]" by (simp add: msg_Time_def)
  obtain vs ub where r: "packet_deserialize no_callback K (fst (msg_Time sec nanosec)) [W_prim ?z, W_prim ?z] ?s0 =
      Some (True, vs, nh_mem nh, ub)" "map gen_view vs = snd (msg_Time sec nanosec)"
    using decodesD [OF assms(2) sh fr assms(3,4)] by blast
  obtain k m1 ub1 where enc: "deserialize_encapsulation no_callback ?s0 = (k, m1, ub1)" by (metis prod_cases3)
  obtain x s1 where d1: "prim_deserialize no_callback T_int32_t ?z (m1, ub1) = (x, s1)" by (metis prod.exhaust)
  obtain y s2 where d2: "prim_deserialize no_callback T_uint32_t ?z s1 = (y, s2)" by (metis prod.exhaust)
  have xy: "x = le_bytes 4 sec" "y = le_bytes 4 nanosec" "s2 = (nh_mem nh, ub)"
    using r by (auto simp: packet_deserialize_def gen_cdr_deserialize_def enc msg_Time_def d1 d2)
  show thesis
    by (rule that [of ub]) (simp add: syncTime_def time_now_def open_input_def enc d1 d2 xy le_word_le_bytes Let_def
        split: prod.split)
qed

lemma sync_arith:
  fixes sec nanosec off :: u32
  assumes "uint nanosec < giga"
  shows "uint (nanosec + (off mod 1000) * 1000000) = uint nanosec + uint off mod 1000 * 1000000"
    and "uint (sec + off div 1000) = (uint sec + uint off div 1000) mod 2 ^ 32"
proof -
  have "0 \<le> uint nanosec" "uint off mod 1000 * 1000000 < giga" "0 \<le> uint off mod 1000 * 1000000"
    "(2 :: int) ^ 32 = 4294967296"
    using pos_mod_bound [of 1000 "uint off"] by simp_all
  with assms have "(uint nanosec + uint off mod 1000 * 1000000) mod 2 ^ 32 = uint nanosec + uint off mod 1000 * 1000000"
    by (intro mod_pos_pos_trivial) linarith+
  then show "uint (nanosec + (off mod 1000) * 1000000) = uint nanosec + uint off mod 1000 * 1000000"
    unfolding uint_plus_mod ms_part_exact by simp
  show "uint (sec + off div 1000) = (uint sec + uint off div 1000) mod 2 ^ 32"
    unfolding uint_plus_mod uint_mod_1000 by simp
qed

lemma syncTime_offset_time:
  assumes "nh_ok E nh" "decodes K payload (fst (msg_Time sec nanosec)) (snd (msg_Time sec nanosec))"
    and "length payload \<le> INPUT_SIZE E" "mem_read (message_in E) (length payload) (nh_mem nh) = payload"
    and n: "uint nanosec < giga" and k: "k = nh_clock nh"
  shows "time_ns (offset_time (syncTime E (open_input E nh))) =
      (uint sec * giga + uint nanosec + clock_ns (hw_time E k - nh_rt_time nh) - clock_ns (hw_time E (Suc k))) mod time_range"
    and "time_normal (offset_time (syncTime E (open_input E nh)))"
    and "nh_clock (syncTime E (open_input E nh)) = k + 3"
    and "nh_last_sync_receive_time (syncTime E (open_input E nh)) = hw_time E (k + 2)"
proof -
  let ?off = "hw_time E k - nh_rt_time nh"
  let ?sec = "sec + ?off div 1000" and ?ns = "nanosec + (?off mod 1000) * 1000000"
  obtain ub where "syncTime E (open_input E nh) =
      (let offset = hw_time E (nh_clock nh) - nh_rt_time nh;
           nh1 = setNow E (sec + offset div 1000) (nanosec + (offset mod 1000) * 1000000)
             (nh\<lparr>nh_clock := Suc (nh_clock nh), nh_mem := nh_mem nh, nh_input_cdr := ub\<rparr>)
       in nh1\<lparr>nh_clock := Suc (nh_clock nh1), nh_last_sync_receive_time := hw_time E (nh_clock nh1)\<rparr>)"
    by (rule syncTime_message [OF assms(1-4)])
  then have sy: "syncTime E (open_input E nh) =
      (let nh1 = setNow E ?sec ?ns (nh\<lparr>nh_clock := Suc k, nh_mem := nh_mem nh, nh_input_cdr := ub\<rparr>)
       in nh1\<lparr>nh_clock := Suc (nh_clock nh1), nh_last_sync_receive_time := hw_time E (nh_clock nh1)\<rparr>)"
    unfolding k Let_def .
  define nh1 where "nh1 = setNow E ?sec ?ns (nh\<lparr>nh_clock := Suc k, nh_mem := nh_mem nh, nh_input_cdr := ub\<rparr>)"
  have ck: "nh_clock nh1 = Suc (Suc k)"
    by (simp add: nh1_def setNow_def time_now_def split: prod.split)
  have sy1: "syncTime E (open_input E nh) =
      nh1\<lparr>nh_clock := Suc (nh_clock nh1), nh_last_sync_receive_time := hw_time E (nh_clock nh1)\<rparr>"
    by (simp only: sy Let_def nh1_def)
  have ot: "offset_time (syncTime E (open_input E nh)) = offset_time nh1"
    by (simp add: sy1 offset_time_def)
  have "uint ?ns + giga < 2 ^ 32"
    using sync_arith(1) [OF n, of ?off] n pos_mod_bound [of 1000 "uint ?off"] by simp
  note so = setNow_offset_time [OF this, of E ?sec "nh\<lparr>nh_clock := Suc k, nh_mem := nh_mem nh, nh_input_cdr := ub\<rparr>",
      folded nh1_def]
  show "time_normal (offset_time (syncTime E (open_input E nh)))" unfolding ot by (rule so(2))
  have "time_ns (offset_time nh1) = ((uint sec + uint ?off div 1000) mod 2 ^ 32 * giga +
      (uint nanosec + uint ?off mod 1000 * 1000000 - clock_ns (hw_time E (Suc k)))) mod time_range"
    using so(1) by (simp only: sync_arith [OF n]) (simp add: algebra_simps)
  then show "time_ns (offset_time (syncTime E (open_input E nh))) =
      (uint sec * giga + uint nanosec + clock_ns ?off - clock_ns (hw_time E (Suc k))) mod time_range"
    unfolding ot range_mod_any by (simp add: clock_ns_split [of ?off] algebra_simps)
  show "nh_clock (syncTime E (open_input E nh)) = k + 3"
    "nh_last_sync_receive_time (syncTime E (open_input E nh)) = hw_time E (k + 2)"
    using ck by (simp_all add: sy1)
qed

section \<open>Oversized frames\<close>

lemma spin_partial:
  assumes "nh_spin_timeout nh = 0" "nh_mode nh = MODE_MESSAGE" "nh_index nh = int k"
    and "int (length bs) < nh_bytes nh" "k + length bs \<le> INPUT_SIZE E"
  shows "spin_loop E c (map uint bs @ rest) nh =
    spin_loop E c rest (nh\<lparr>nh_mem := mem_write (message_in E + k) bs (nh_mem nh),
      nh_bytes := nh_bytes nh - int (length bs), nh_index := int (k + length bs),
      nh_checksum := nh_checksum nh + int (byte_sum bs)\<rparr>)"
  using assms
proof (induction bs arbitrary: nh k)
  case (Cons b bs)
  let ?nh = "nh\<lparr>nh_checksum := nh_checksum nh + uint b, nh_mem := (nh_mem nh)(message_in E + k := b),
      nh_index := int (Suc k), nh_bytes := nh_bytes nh - 1\<rparr>"
  have step: "spin_byte E c (uint b) nh = Continue ?nh"
    using Cons.prems by (cases nh) (simp add: spin_byte_def spin_message_def mode_defs Let_def)
  have "spin_loop E c (map uint bs @ rest) ?nh = spin_loop E c rest
      (?nh\<lparr>nh_mem := mem_write (message_in E + Suc k) bs (nh_mem ?nh),
       nh_bytes := nh_bytes ?nh - int (length bs), nh_index := int (Suc k + length bs),
       nh_checksum := nh_checksum ?nh + int (byte_sum bs)\<rparr>)"
    using Cons.prems by (intro Cons.IH) simp_all
  with Cons.prems step show ?case
    by (cases nh) (simp add: spin_loop_byte add.assoc diff_diff_eq)
next
  case Nil
  then show ?case by (cases nh) simp
qed

section \<open>Properties\<close>

text \<open>
  C10: from its idle mode, and when no spin timeout is set, the state machine consumes a frame whose
  payload fits the input buffer byte by byte, stores the payload, and is idle again. It dispatches
  the message exactly when the last byte is the checksum of the topic and the payload; otherwise
  the frame is dropped and the rest of the input is processed.
\<close>

theorem frame_dispatched:
  assumes "nh_spin_timeout nh = 0" "nh_mode nh = MODE_FIRST_FF" "isTopicValid E (int topic)" "topic < 65536"
    and "length payload < 65536" "length payload \<le> INPUT_SIZE E"
  shows "spin_loop E c (map uint (butlast (frame topic payload) @ [ck]) @ rest) nh =
    (if ck = last (frame topic payload)
     then finish E c rest (dispatch E c (received E c topic payload ck nh))
     else spin_loop E c rest (received E c topic payload ck nh)) \<and>
    nh_mode (received E c topic payload ck nh) = MODE_FIRST_FF"
proof -
  have "butlast (frame topic payload) @ [ck] = header_bytes topic (length payload) @ payload @ [ck]"
    "last (frame topic payload) = checksum_of ([lo_byte topic, hi_byte topic] @ payload)"
    by (simp_all add: frame_header butlast_append)
  then show ?thesis using spin_frame [OF assms, of c ck rest] by (simp del: append_Cons append_Nil)
qed

lemma ready_node_sel:
  "nh_spin_timeout ready_node = 0" "nh_mode ready_node = MODE_FIRST_FF" "nh_subscribers ready_node ! 0 = Some 0"
  "nh_sub_obj ready_node 0 = sample_sub\<lparr>sub_id := 100\<rparr>" "nh_written ready_node = []" "nh_app ready_node = []"
  "nh_clock ready_node = 0" "nh_rt_time ready_node = 0"
proof -
  have "first_free (nh_subscribers sample_node) = Some 0"
    by (simp add: first_free_def sample_node_def initNode_def new_NodeHandle_def sample_env_def upt_conv_Cons)
  then show "nh_spin_timeout ready_node = 0" "nh_mode ready_node = MODE_FIRST_FF" "nh_subscribers ready_node ! 0 = Some 0"
    "nh_sub_obj ready_node 0 = sample_sub\<lparr>sub_id := 100\<rparr>" "nh_written ready_node = []" "nh_app ready_node = []"
    "nh_clock ready_node = 0" "nh_rt_time ready_node = 0"
    by (simp_all add: ready_node_def subscribe_def sample_node_def initNode_def new_NodeHandle_def sample_env_def)
qed

lemma sample_topic_valid: "0 \<le> t \<Longrightarrow> t < 125 \<Longrightarrow> isTopicValid sample_env t"
  by (simp add: isTopicValid_def sample_env_def)

theorem frame_dispatched_witness:
  "spin_loop sample_env 0 (map uint (butlast (frame 11 [7]) @ [0]) @ []) ready_node =
     spin_loop sample_env 0 [] (received sample_env 0 11 [7] 0 ready_node) \<and>
   nh_mode (received sample_env 0 11 [7] 0 ready_node) = MODE_FIRST_FF"
  using frame_dispatched [of ready_node sample_env 11 "[7]" 0 0 "[]"]
  by (simp add: ready_node_sel sample_topic_valid sample_sizes frame_def checksum_of_def lo_byte_def hi_byte_def)

lemma frame_delivered:
  assumes "nh_ok E2 nh2" "nh_spin_timeout nh2 = 0" "nh_mode nh2 = MODE_FIRST_FF"
    and "length payload \<le> INPUT_SIZE E2" "length payload < 65536"
    and "100 \<le> topic" "topic < 100 + MAX_SUBSCRIBERS E2" "topic < 65536"
    and "nh_subscribers nh2 ! (topic - 100) = Some s" "sub_kind (nh_sub_obj nh2 s) = K_Subscriber"
    and "decodes (nh_gen E2) payload (sub_fields (nh_sub_obj nh2 s)) vs"
    and "list_all2 shaped (sub_fields (nh_sub_obj nh2 s)) (sub_msg (nh_sub_obj nh2 s))"
  shows "\<exists>ob nh2'. has_values (sub_fields (nh_sub_obj nh2 s)) vs ob \<and> sub_msg (nh_sub_obj nh2' s) = ob \<and>
    nh_mode nh2' = MODE_FIRST_FF \<and>
    (\<forall>rest. spin_loop E2 c (map uint (frame topic payload) @ rest) nh2 =
       spin_loop E2 c rest (app_callback E2 s ob nh2'))"
proof -
  let ?ck = "checksum_of ([lo_byte topic, hi_byte topic] @ payload)"
  let ?nh = "received E2 c topic payload ?ck nh2"
  obtain ob ub where d: "dispatch E2 c ?nh = Continue (app_callback E2 s ob (delivered s ob ub ?nh))"
    "has_values (sub_fields (nh_sub_obj nh2 s)) vs ob"
    by (rule dispatch_subscriber [of E2 ?nh topic s payload vs c]) (use assms in \<open>simp_all add: nh_ok_received\<close>)
  have "spin_loop E2 c (map uint (frame topic payload) @ rest) nh2 =
      spin_loop E2 c rest (app_callback E2 s ob (delivered s ob ub ?nh))" for rest
    using spin_frame [of nh2 E2 topic payload c ?ck rest] assms d(1)
    by (simp add: frame_header isTopicValid_def finish_def)
  moreover have "sub_msg (nh_sub_obj (delivered s ob ub ?nh) s) = ob" "nh_mode (delivered s ob ub ?nh) = MODE_FIRST_FF"
    by (simp_all add: delivered_def)
  ultimately show ?thesis using d(2) by blast
qed

text \<open>
  C8: what one node publishes another node's subscriber receives. The bytes that \<open>publish\<close> appends to
  the line, read by an idle node that has a subscriber of the same message type in the slot of the
  topic, call that subscriber's callback once, with an object that has exactly the values that were
  published, whatever the object held before. The message may have messages and arrays inside; its
  arrays fit the memory of the receiver.
\<close>

theorem published_message_is_delivered:
  assumes "env_ok E" "nh_ok E nh" "msg_valid (nh_gen E2) ts vs" "nh_configured nh" "packet_size (ts, vs) + 7 < OUTPUT_SIZE E"
    and "nh_ok E2 nh2" "nh_spin_timeout nh2 = 0" "nh_mode nh2 = MODE_FIRST_FF" "packet_size (ts, vs) \<le> INPUT_SIZE E2"
    and "100 \<le> topic" "topic < 100 + MAX_SUBSCRIBERS E2" "topic < 65536"
    and "nh_subscribers nh2 ! (topic - 100) = Some s" "sub_kind (nh_sub_obj nh2 s) = K_Subscriber"
    and "sub_fields (nh_sub_obj nh2 s) = ts" "list_all2 shaped ts (sub_msg (nh_sub_obj nh2 s))"
  shows "\<exists>bs nh' ob nh2' r. publish E (int topic) (ts, vs) nh = Some (r, nh') \<and> nh_written nh' = nh_written nh @ bs \<and>
    has_values ts vs ob \<and> sub_msg (nh_sub_obj nh2' s) = ob \<and> nh_mode nh2' = MODE_FIRST_FF \<and>
    (\<forall>rest. spin_loop E2 c (map uint bs @ rest) nh2 = spin_loop E2 c rest (app_callback E2 s ob nh2'))"
proof -
  obtain payload nh' where p: "publish E (int topic) (ts, vs) nh = Some (int (length (frame topic payload)), nh')"
    "nh_written nh' = nh_written nh @ frame topic payload" "length payload = packet_size (ts, vs)"
    "decodes (nh_gen E2) payload ts vs"
    using publish_total_frame [OF assms(1-3) _ assms(5)] assms(4) by blast
  have len: "length payload \<le> INPUT_SIZE E2" "length payload < 65536"
    using p(3) assms(1,5,9) by (simp_all add: env_ok_def)
  show ?thesis
    using frame_delivered [OF assms(6-8) len assms(10-14), of vs c] p assms(15,16) by blast
qed

lemma sample_gen: "nh_gen sample_env = sample_memory"
  by (simp add: sample_env_def)

theorem published_message_is_delivered_witness:
  "\<exists>bs nh' ob nh2' r. publish sample_env 100 (sample_fields, sample_values) ready_node = Some (r, nh') \<and>
     nh_written nh' = bs \<and> has_values sample_fields sample_values ob \<and> sub_msg (nh_sub_obj nh2' 0) = ob \<and>
     nh_mode nh2' = MODE_FIRST_FF \<and>
     (\<forall>rest. spin_loop sample_env 5 (map uint bs @ rest) ready_node =
        spin_loop sample_env 5 rest (app_callback sample_env 0 ob nh2'))"
proof -
  have "sub_fields (nh_sub_obj ready_node 0) = sample_fields"
    "list_all2 shaped sample_fields (sub_msg (nh_sub_obj ready_node 0))"
    by (simp_all add: ready_node_sel sample_sub_def element_type_def)
  from published_message_is_delivered [OF sample_env_ok ready_node_ok(1) sample_msg(1) [folded sample_gen] ready_node_ok(2) _
      ready_node_ok(1) _ _ _ _ _ _ _ _ this, of 100 5]
  show ?thesis by (simp add: ready_node_sel sample_sizes sample_msg(2) sample_sub_def)
qed

lemma time_frame_clock:
  assumes "nh_ok E nh" "nh_spin_timeout nh = 0" "nh_mode nh = MODE_FIRST_FF"
    and "decodes K payload (fst (msg_Time sec nanosec)) (snd (msg_Time sec nanosec))" "uint nanosec < giga"
    and "length payload < 65536" "length payload \<le> INPUT_SIZE E" "k = nh_clock nh"
  shows "\<exists>nh'. (\<forall>rest. spin_loop E c (map uint (frame 10 payload) @ rest) nh = spin_loop E c rest nh') \<and>
    nh_last_sync_receive_time nh' = hw_time E (k + 2) \<and>
    time_normal (fst (now E nh')) \<and>
    time_ns (fst (now E nh')) =
      (uint sec * giga + uint nanosec + clock_ns (hw_time E k - nh_rt_time nh) +
       (clock_ns (hw_time E (k + 3)) - clock_ns (hw_time E (k + 1)))) mod time_range"
proof -
  let ?ck = "checksum_of ([lo_byte 10, hi_byte 10] @ payload)"
  let ?nh = "received E c 10 payload ?ck nh"
  let ?nh' = "syncTime E (open_input E ?nh)"
  have "dispatch E c ?nh = Continue ?nh'" by (simp add: dispatch_def id_defs)
  then have "spin_loop E c (map uint (frame 10 payload) @ rest) nh = spin_loop E c rest ?nh'" for rest
    using spin_frame [of nh E 10 payload c ?ck rest] assms
    by (simp add: frame_header isTopicValid_def finish_def)
  moreover have sy: "time_ns (offset_time ?nh') = (uint sec * giga + uint nanosec +
      clock_ns (hw_time E k - nh_rt_time nh) - clock_ns (hw_time E (k + 1))) mod time_range"
    "time_normal (offset_time ?nh')" "nh_clock ?nh' = k + 3" "nh_last_sync_receive_time ?nh' = hw_time E (k + 2)"
    using syncTime_offset_time [of E ?nh K payload sec nanosec k] assms by (simp_all add: nh_ok_received)
  moreover have "time_ns (fst (now E ?nh')) = (uint sec * giga + uint nanosec +
      clock_ns (hw_time E k - nh_rt_time nh) + (clock_ns (hw_time E (k + 3)) - clock_ns (hw_time E (k + 1)))) mod time_range"
    unfolding now_offset_time(1) [OF sy(2)] sy(1,3) by (simp add: mod_simps algebra_simps)
  ultimately show ?thesis using now_offset_time(2) [OF sy(2)] by blast
qed

text \<open>
  C13: a time message from the server sets the device's clock. After the frame of topic 10 the current
  time is the server's time plus the round trip measured since the request plus what the hardware
  clock advanced since it was set, exact to the millisecond clock and modulo the range of the
  seconds counter.
\<close>

theorem time_frame_sets_clock:
  assumes "nh_ok E nh" "nh_spin_timeout nh = 0" "nh_mode nh = MODE_FIRST_FF"
    and "decodes K payload (fst (msg_Time sec nanosec)) (snd (msg_Time sec nanosec))" "uint nanosec < giga"
    and "length payload < 65536" "length payload \<le> INPUT_SIZE E" "k = nh_clock nh"
  shows "\<exists>nh'. (\<forall>rest. spin_loop E c (map uint (frame 10 payload) @ rest) nh = spin_loop E c rest nh') \<and>
    nh_last_sync_receive_time nh' = hw_time E (k + 2) \<and>
    time_normal (fst (now E nh')) \<and>
    time_ns (fst (now E nh')) =
      (uint sec * giga + uint nanosec + clock_ns (hw_time E k - nh_rt_time nh) +
       (clock_ns (hw_time E (k + 3)) - clock_ns (hw_time E (k + 1)))) mod time_range"
  using assms by (rule time_frame_clock)

text \<open>A payload for the witness: what the sample node itself would publish as a time message.\<close>

lemma sample_time:
  "msg_valid K (fst (msg_Time s n)) (snd (msg_Time s n))" "packet_size (msg_Time s n) = 12"
  by (simp_all add: msg_valid_def msg_Time_def basic_valid_def packet_size_def prim_stop_def pad_to_def)

lemma sample_time_payload:
  obtains payload where "length payload = 12" "decodes K payload (fst (msg_Time s n)) (snd (msg_Time s n))"
  using publish_total_frame [OF sample_env_ok ready_node_ok(1) sample_time(1) [of K s n], of 10]
  by (auto simp: sample_sizes sample_time(2))

theorem time_frame_sets_clock_witness:
  "\<exists>payload nh'. length payload = 12 \<and>
     spin_loop sample_env 0 (map uint (frame 10 payload) @ []) ready_node = spin_loop sample_env 0 [] nh' \<and>
     time_ns (fst (now sample_env nh')) = (7 * giga + 5 + 2000000) mod time_range"
proof -
  obtain payload where p: "length payload = 12" "decodes K payload (fst (msg_Time 7 5)) (snd (msg_Time 7 5))"
    by (rule sample_time_payload)
  have hw: "hw_time sample_env = of_nat" by (simp add: sample_env_def)
  obtain nh' where n: "\<forall>rest. spin_loop sample_env 0 (map uint (frame 10 payload) @ rest) ready_node =
        spin_loop sample_env 0 rest nh'"
      "time_ns (fst (now sample_env nh')) = (7 * giga + 5 + 2000000) mod time_range"
    using time_frame_sets_clock [OF ready_node_ok(1) ready_node_sel(1,2) p(2), of 0 0]
    by (auto simp: p(1) ready_node_sel sample_sizes clock_ns_def hw)
  show ?thesis using p(1) n(1) [rule_format, of "[]"] n(2) by blast
qed

text \<open>
  C20: The size field of a frame is not checked against the input buffer. A frame header that announces
  more bytes than the buffer holds is accepted, and the byte after the last free one leaves the
  bounds of \<open>message_in\<close>.
\<close>

theorem oversized_frame_overflows:
  assumes "nh_spin_timeout nh = 0" "nh_mode nh = MODE_FIRST_FF" "isTopicValid E (int topic)" "topic < 65536"
    and "INPUT_SIZE E < l" "l < 65536" "length bs = INPUT_SIZE E"
  shows "spin_loop E c (map uint (header_bytes topic l @ bs @ [b]) @ rest) nh = Inl Message_in_overflow"
proof -
  let ?nh = "header_state c topic l nh"
  let ?nh2 = "?nh\<lparr>nh_mem := mem_write (message_in E) bs (nh_mem ?nh),
      nh_bytes := nh_bytes ?nh - int (length bs), nh_index := int (length bs),
      nh_checksum := nh_checksum ?nh + int (byte_sum bs)\<rparr>"
  have "spin_loop E c (map uint (header_bytes topic l) @ map uint bs @ uint b # rest) nh =
      spin_loop E c (map uint bs @ uint b # rest) ?nh"
    using assms by (intro spin_header)
  also have "\<dots> = spin_loop E c (uint b # rest) ?nh2"
    using spin_partial [of ?nh 0 bs E c "uint b # rest"] assms by (simp add: header_state_def)
  also have "\<dots> = Inl Message_in_overflow"
    using assms by (simp add: spin_loop_byte spin_byte_def spin_message_def header_state_def mode_defs)
  finally show ?thesis by simp
qed

theorem oversized_frame_overflows_witness:
  "spin_loop sample_env 0 (map uint (header_bytes 100 600 @ replicate 512 0 @ [0]) @ []) ready_node =
     Inl Message_in_overflow"
  by (rule oversized_frame_overflows)
    (simp_all add: ready_node_sel sample_topic_valid sample_sizes)

text \<open>
  A correct frame for a topic below 100 that is none of the protocol's own topics indexes the
  subscriber table with a negative number.
\<close>

theorem low_topic_faults:
  assumes "nh_spin_timeout nh = 0" "nh_mode nh = MODE_FIRST_FF" "topic < 100" "topic \<notin> {0, 6, 10, 11}"
    and "length payload < 65536" "length payload \<le> INPUT_SIZE E"
  shows "spin_loop E c (map uint (frame topic payload) @ rest) nh = Inl Subscriber_index"
proof -
  let ?ck = "checksum_of ([lo_byte topic, hi_byte topic] @ payload)"
  have "dispatch E c (received E c topic payload ?ck nh) = Fault Subscriber_index"
    using assms(3,4) by (simp add: dispatch_def id_defs isTopicValid_def)
  then show ?thesis
    using spin_frame [of nh E topic payload c ?ck rest] assms
    by (simp add: frame_header isTopicValid_def finish_def)
qed

theorem low_topic_faults_witness:
  "spin_loop sample_env 0 (map uint (frame 50 []) @ []) ready_node = Inl Subscriber_index"
  by (rule low_topic_faults) (simp_all add: ready_node_sel sample_sizes)

end
