(* ===== verification/Client_Spin.thy ===== *)
theory Client_Spin
  imports Client_Node Node_Spin
begin

text \<open>
  What the ROS 1 client node puts on the line and does with what it receives: \<open>publish\<close> sends the same
  frames as the ported node, the byte state machine dispatches them, the topics announced are those
  registered, and a parameter request ends with the parameter or with the time-out.
\<close>

section \<open>Sending\<close>

lemma sum_nth_drop: "(\<Sum>j\<leftarrow>[k..<length xs]. f (xs ! j)) = (\<Sum>x\<leftarrow>drop k xs. f x)"
proof -
  have "map (\<lambda>j. f (xs ! j)) [k..<length xs] = map f (drop k xs)"
    by (rule nth_equalityI) simp_all
  then show ?thesis by (simp only:)
qed

definition sent :: "u8 list \<Rightarrow> 'a client_node \<Rightarrow> 'a client_node" where
  "sent bs st = st\<lparr>cn_written := cn_written st @ bs\<rparr>"

lemma sent_sel [simp]:
  "cn_written (sent bs st) = cn_written st @ bs" "cn_configured (sent bs st) = cn_configured st"
  "cn_clock (sent bs st) = cn_clock st" "cn_mode (sent bs st) = cn_mode st"
  "cn_spin_timeout (sent bs st) = cn_spin_timeout st" "cn_param_received (sent bs st) = cn_param_received st"
  "cn_param_resp (sent bs st) = cn_param_resp st" "cn_message_in (sent bs st) = cn_message_in st"
  "cn_pub_obj (sent bs st) = cn_pub_obj st" "cn_sub_obj (sent bs st) = cn_sub_obj st"
  "cn_publishers (sent bs st) = cn_publishers st" "cn_subscribers (sent bs st) = cn_subscribers st"
  by (simp_all add: sent_def)

lemma sent_sent [simp]: "sent cs (sent bs st) = sent (bs @ cs) st" "sent [] st = st"
  by (simp_all add: sent_def)

lemma publish_frame:
  assumes "length msg + 8 \<le> ce_OUTPUT_SIZE E" "i < 100 \<or> cn_configured st"
  shows "cl_publish E (int i) msg st = Some (int (length msg) + 8, sent (frame i msg) st)"
proof -
  let ?out = "header_bytes i (length msg) @ msg"
  have o: "[0xff, PROTOCOL_VER, lo_byte (length msg), hi_byte (length msg),
      of_int (255 - (uint (lo_byte (length msg)) + uint (hi_byte (length msg))) mod 256), lo_byte i, hi_byte i] @ msg = ?out"
    using checksum_of_int [of "[lo_byte (length msg), hi_byte (length msg)]"] by (simp add: header_bytes_def)
  have "(\<Sum>j\<leftarrow>[5..<length msg + 7]. uint (?out ! j)) = (\<Sum>b\<leftarrow>[lo_byte i, hi_byte i] @ msg. uint b)"
  proof -
    have "length ?out = length msg + 7" "drop 5 ?out = [lo_byte i, hi_byte i] @ msg"
      by (simp_all add: header_bytes_def)
    then show ?thesis using sum_nth_drop [of uint ?out 5] by (simp only:)
  qed
  then have "(of_int (255 - (\<Sum>j\<leftarrow>[5..<length msg + 7]. uint (?out ! j)) mod 256) :: u8) =
      checksum_of ([lo_byte i, hi_byte i] @ msg)"
    using checksum_of_int by metis
  moreover have "(of_int (int i) :: u16) = of_nat i" by simp
  ultimately show ?thesis
    using assms unfolding cl_publish_def
    by (simp only: Let_def lo_byte_u16 hi_byte_u16 signed_hi_byte_u16 o)
      (auto simp: frame_header sent_def length_header_bytes)
qed


lemma time_advances: "cl_time E st = (ce_time E (cn_clock st), st\<lparr>cn_clock := Suc (cn_clock st)\<rparr>)"
  by (simp add: cl_time_def)

section \<open>Receiving\<close>

lemma cl_spin_loop_byte:
  assumes "cn_spin_timeout st = 0"
  shows "cl_spin_loop E c (uint (b :: u8) # input) fl st =
    (case cl_spin_byte E c (uint b) fl st of
       None \<Rightarrow> None
     | Some (None, fl2, st2) \<Rightarrow> cl_spin_loop E c input fl2 st2
     | Some (Some code, fl2, st2) \<Rightarrow> Some (input, Some code, fl2, st2))"
  using assms by (simp add: cl_spin_loop.simps cl_spin_expired_def not_less)

definition cl_header :: "u32 \<Rightarrow> nat \<Rightarrow> nat \<Rightarrow> 'a client_node \<Rightarrow> 'a client_node" where
  "cl_header c topic l st =
     st\<lparr>cn_mode := if l = 0 then MODE_MSG_CHECKSUM else MODE_MESSAGE, cn_bytes := int l,
        cn_topic := int topic, cn_index := 0, cn_checksum := uint (lo_byte topic) + uint (hi_byte topic),
        cn_last_msg_timeout_time := c + SERIAL_MSG_TIMEOUT\<rparr>"

lemma cl_sync:
  assumes "cn_spin_timeout st = 0" "cn_mode st = MODE_FIRST_FF"
  shows "cl_spin_loop E c (uint (0xff :: u8) # uint PROTOCOL_VER # input) fl st =
    cl_spin_loop E c input fl (st\<lparr>cn_mode := MODE_SIZE_L, cn_last_msg_timeout_time := c + SERIAL_MSG_TIMEOUT,
      cn_checksum := cn_checksum st + 255 + uint PROTOCOL_VER\<rparr>)"
proof -
  let ?st = "st\<lparr>cn_mode := MODE_PROTOCOL_VER, cn_last_msg_timeout_time := c + SERIAL_MSG_TIMEOUT,
      cn_checksum := cn_checksum st + 255\<rparr>"
  have "cl_spin_byte E c (uint (0xff :: u8)) fl st = Some (None, fl, ?st)"
    using assms by (cases st) (simp add: cl_spin_byte_def mode_defs)
  moreover have "cl_spin_byte E c (uint PROTOCOL_VER) fl ?st = Some (None, fl, st\<lparr>cn_mode := MODE_SIZE_L,
      cn_last_msg_timeout_time := c + SERIAL_MSG_TIMEOUT, cn_checksum := cn_checksum st + 255 + uint PROTOCOL_VER\<rparr>)"
    by (cases st) (simp add: cl_spin_byte_def mode_defs)
  ultimately show ?thesis using assms(1) by (simp only: cl_spin_loop_byte) (simp add: cl_spin_loop_byte)
qed

lemma cl_size:
  fixes b2 b3 b4 :: u8
  assumes "cn_spin_timeout st = 0" "cn_mode st = MODE_SIZE_L"
  shows "cl_spin_loop E c (uint b2 # uint b3 # uint b4 # input) fl st =
    cl_spin_loop E c input fl (st\<lparr>cn_mode := if b4 = checksum_of [b2, b3] then MODE_TOPIC_L else MODE_FIRST_FF,
      cn_bytes := uint b2 + uint b3 * 256, cn_index := 0, cn_checksum := uint b2 + uint b3 + uint b4\<rparr>)"
  using assms checksum_uint [of b2 b3 b4]
  by (cases st) (simp add: cl_spin_loop_byte cl_spin_byte_def mode_defs push_bit_8)

lemma cl_topic:
  fixes b5 b6 :: u8
  assumes "cn_spin_timeout st = 0" "cn_mode st = MODE_TOPIC_L"
  shows "cl_spin_loop E c (uint b5 # uint b6 # input) fl st =
    cl_spin_loop E c input fl (st\<lparr>cn_mode := if cn_bytes st = 0 then MODE_MSG_CHECKSUM else MODE_MESSAGE,
      cn_topic := uint b5 + uint b6 * 256, cn_checksum := uint b5 + uint b6\<rparr>)"
  using assms
  by (cases st) (simp add: cl_spin_loop_byte cl_spin_byte_def mode_defs push_bit_8)

lemma cl_spin_header:
  assumes "cn_spin_timeout st = 0" "cn_mode st = MODE_FIRST_FF" "topic < 65536" "l < 65536"
  shows "cl_spin_loop E c (map uint (header_bytes topic l) @ rest) fl st = cl_spin_loop E c rest fl (cl_header c topic l st)"
proof -
  have t: "uint (lo_byte topic) + uint (hi_byte topic) * 256 = int topic"
    "uint (lo_byte l) + uint (hi_byte l) * 256 = int l"
    using assms(3,4) by (simp_all add: lo_hi_uint)
  let ?st1 = "st\<lparr>cn_mode := MODE_SIZE_L, cn_last_msg_timeout_time := c + SERIAL_MSG_TIMEOUT,
      cn_checksum := cn_checksum st + 255 + uint PROTOCOL_VER\<rparr>"
  have "map uint (header_bytes topic l) @ rest = uint (0xff :: u8) # uint PROTOCOL_VER # uint (lo_byte l) #
      uint (hi_byte l) # uint (checksum_of [lo_byte l, hi_byte l]) # uint (lo_byte topic) # uint (hi_byte topic) # rest"
    by (simp add: header_bytes_def)
  then show ?thesis
    using assms(1,2) by (simp only: cl_sync) (cases st, simp add: cl_size cl_topic t cl_header_def)
qed

lemma cl_spin_payload:
  assumes "cn_spin_timeout st = 0" "cn_mode st = MODE_MESSAGE" "cn_index st = int k"
    and "cn_bytes st = int (length bs)" "bs \<noteq> []" "k + length bs \<le> ce_INPUT_SIZE E"
    and "length (cn_message_in st) = ce_INPUT_SIZE E"
  shows "cl_spin_loop E c (map uint bs @ rest) fl st =
    cl_spin_loop E c rest fl (st\<lparr>cn_message_in := take k (cn_message_in st) @ bs @ drop (k + length bs) (cn_message_in st),
      cn_mode := MODE_MSG_CHECKSUM, cn_bytes := 0, cn_index := int (k + length bs),
      cn_checksum := cn_checksum st + int (byte_sum bs)\<rparr>)"
  using assms
proof (induction bs arbitrary: st k)
  case (Cons b bs)
  let ?st = "st\<lparr>cn_checksum := cn_checksum st + uint b, cn_message_in := (cn_message_in st)[k := b],
      cn_index := int (Suc k), cn_bytes := int (length bs)\<rparr>"
  have step: "cl_spin_byte E c (uint b) fl st =
      Some (None, fl, if bs = [] then ?st\<lparr>cn_mode := MODE_MSG_CHECKSUM\<rparr> else ?st)"
    using Cons.prems by (cases st) (simp add: cl_spin_byte_def mode_defs Let_def)
  have k: "k < length (cn_message_in st)" using Cons.prems by simp
  show ?case
  proof (cases "bs = []")
    case True
    with Cons.prems step k show ?thesis
      by (cases st) (simp add: cl_spin_loop_byte upd_conv_take_nth_drop)
  next
    case False
    have "cl_spin_loop E c (map uint bs @ rest) fl ?st = cl_spin_loop E c rest fl
        (?st\<lparr>cn_message_in := take (Suc k) (cn_message_in ?st) @ bs @ drop (Suc k + length bs) (cn_message_in ?st),
         cn_mode := MODE_MSG_CHECKSUM, cn_bytes := 0, cn_index := int (Suc k + length bs),
         cn_checksum := cn_checksum ?st + int (byte_sum bs)\<rparr>)"
      using Cons.prems False by (intro Cons.IH) simp_all
    moreover have "take (Suc k) ((cn_message_in st)[k := b]) = take k (cn_message_in st) @ [b]"
      using k by (simp add: take_Suc_conv_app_nth take_update_cancel)
    ultimately show ?thesis
      using False Cons.prems step
      by (cases st) (simp add: cl_spin_loop_byte add.assoc)
  qed
qed simp


definition cl_received :: "u32 \<Rightarrow> nat \<Rightarrow> u8 list \<Rightarrow> u8 \<Rightarrow> 'a client_node \<Rightarrow> 'a client_node" where
  "cl_received c topic payload ck st =
     st\<lparr>cn_message_in := payload @ drop (length payload) (cn_message_in st), cn_mode := MODE_FIRST_FF, cn_bytes := 0,
        cn_topic := int topic, cn_index := int (length payload),
        cn_checksum := int (byte_sum ([lo_byte topic, hi_byte topic] @ payload) + unat ck),
        cn_last_msg_timeout_time := c + SERIAL_MSG_TIMEOUT\<rparr>"

lemma cl_received_sel [simp]:
  "cn_message_in (cl_received c topic payload ck st) = payload @ drop (length payload) (cn_message_in st)"
  "cn_mode (cl_received c topic payload ck st) = MODE_FIRST_FF" "cn_topic (cl_received c topic payload ck st) = int topic"
  "cn_configured (cl_received c topic payload ck st) = cn_configured st"
  "cn_spin_timeout (cl_received c topic payload ck st) = cn_spin_timeout st"
  "cn_clock (cl_received c topic payload ck st) = cn_clock st" "cn_written (cl_received c topic payload ck st) = cn_written st"
  "cn_last_sync_time (cl_received c topic payload ck st) = cn_last_sync_time st"
  by (simp_all add: cl_received_def)

definition cl_finish :: "'a client_env \<Rightarrow> u32 \<Rightarrow> int list \<Rightarrow> 'a cl_step \<Rightarrow>
    (int list \<times> int option \<times> spin_flags \<times> 'a client_node) option" where
  "cl_finish E c rest r =
     (case r of
        None \<Rightarrow> None
      | Some (None, fl, st) \<Rightarrow> cl_spin_loop E c rest fl st
      | Some (Some code, fl, st) \<Rightarrow> Some (rest, Some code, fl, st))"

lemma cl_header_payload:
  assumes "cn_spin_timeout st = 0" "cn_mode st = MODE_FIRST_FF" "topic < 65536" "length payload < 65536"
    and "length payload \<le> ce_INPUT_SIZE E" "length (cn_message_in st) = ce_INPUT_SIZE E"
  shows "cl_spin_loop E c (map uint (header_bytes topic (length payload)) @ map uint payload @ rest) fl st =
    cl_spin_loop E c rest fl ((cl_received c topic payload 0 st)\<lparr>cn_mode := MODE_MSG_CHECKSUM\<rparr>)"
proof (cases "payload = []")
  case True
  have "cl_header c topic 0 st = (cl_received c topic [] 0 st)\<lparr>cn_mode := MODE_MSG_CHECKSUM\<rparr>"
    by (cases st) (simp add: cl_header_def cl_received_def)
  with True assms show ?thesis by (simp add: cl_spin_header)
next
  case False
  let ?st = "cl_header c topic (length payload) st"
  have "cl_spin_loop E c (map uint payload @ rest) fl ?st = cl_spin_loop E c rest fl
      (?st\<lparr>cn_message_in := take 0 (cn_message_in ?st) @ payload @ drop (0 + length payload) (cn_message_in ?st),
        cn_mode := MODE_MSG_CHECKSUM, cn_bytes := 0, cn_index := int (0 + length payload),
        cn_checksum := cn_checksum ?st + int (byte_sum payload)\<rparr>)"
    using assms False by (intro cl_spin_payload) (simp_all add: cl_header_def)
  also have "?st\<lparr>cn_message_in := take 0 (cn_message_in ?st) @ payload @ drop (0 + length payload) (cn_message_in ?st),
        cn_mode := MODE_MSG_CHECKSUM, cn_bytes := 0, cn_index := int (0 + length payload),
        cn_checksum := cn_checksum ?st + int (byte_sum payload)\<rparr> =
      (cl_received c topic payload 0 st)\<lparr>cn_mode := MODE_MSG_CHECKSUM\<rparr>"
    by (cases st) (simp add: cl_header_def cl_received_def)
  finally show ?thesis using assms by (simp add: cl_spin_header)
qed

lemma cl_spin_frame:
  assumes "cn_spin_timeout st = 0" "cn_mode st = MODE_FIRST_FF" "topic < 65536" "length payload < 65536"
    and "length payload \<le> ce_INPUT_SIZE E" "length (cn_message_in st) = ce_INPUT_SIZE E"
  shows "cl_spin_loop E c (map uint (header_bytes topic (length payload) @ payload @ [ck]) @ rest) fl st =
    (if ck = checksum_of ([lo_byte topic, hi_byte topic] @ payload)
     then cl_finish E c rest (cl_dispatch E c fl (cl_received c topic payload ck st))
     else cl_spin_loop E c rest fl (cl_received c topic payload ck st))"
proof -
  let ?st = "(cl_received c topic payload 0 st)\<lparr>cn_mode := MODE_MSG_CHECKSUM\<rparr>"
  let ?bs = "[lo_byte topic, hi_byte topic] @ payload"
  have "cl_spin_byte E c (uint ck) fl ?st =
      (if ck = checksum_of ?bs then cl_dispatch E c fl (cl_received c topic payload ck st)
       else Some (None, fl, cl_received c topic payload ck st))"
    using checksum_ok_int [of ?bs ck]
    by (cases st) (simp add: cl_spin_byte_def cl_received_def mode_defs Let_def)
  then have "cl_spin_loop E c (uint ck # rest) fl ?st =
     (if ck = checksum_of ?bs then cl_finish E c rest (cl_dispatch E c fl (cl_received c topic payload ck st))
      else cl_spin_loop E c rest fl (cl_received c topic payload ck st))"
    using assms(1) by (simp add: cl_spin_loop_byte cl_finish_def)
  then show ?thesis using cl_header_payload [OF assms, of c "uint ck # rest" fl] by simp
qed

lemma cl_spin_whole_frame:
  assumes "cn_spin_timeout st = 0" "cn_mode st = MODE_FIRST_FF" "topic < 65536" "length payload < 65536"
    and "length payload \<le> ce_INPUT_SIZE E" "length (cn_message_in st) = ce_INPUT_SIZE E"
  shows "cl_spin_loop E c (map uint (frame topic payload) @ rest) fl st =
    cl_finish E c rest (cl_dispatch E c fl (cl_received c topic payload (last (frame topic payload)) st))"
  using cl_spin_frame [OF assms, of c "checksum_of ([lo_byte topic, hi_byte topic] @ payload)" rest fl]
  by (simp add: frame_header)

section \<open>Announcing the topics\<close>

definition publisher_frames :: "'a client_env \<Rightarrow> (nat \<Rightarrow> cl_publisher) \<Rightarrow> nat option list \<Rightarrow> u8 list" where
  "publisher_frames E ob slots =
     concat (map (\<lambda>p. frame (nat (cp_endpoint (ob p))) (cl_publisher_info E (ob p))) (List.map_filter id slots))"

definition subscriber_frames :: "'a client_env \<Rightarrow> (nat \<Rightarrow> cl_subscriber) \<Rightarrow> nat option list \<Rightarrow> u8 list" where
  "subscriber_frames E ob slots =
     concat (map (\<lambda>s. frame (nat (cs_endpoint (ob s))) (cl_subscriber_info E (ob s))) (List.map_filter id slots))"

definition announcement_fits :: "'a client_env \<Rightarrow> int \<Rightarrow> u8 list \<Rightarrow> bool" where
  "announcement_fits E endpoint info \<longleftrightarrow> 0 \<le> endpoint \<and> endpoint < 100 \<and> length info + 8 \<le> ce_OUTPUT_SIZE E"

lemma announce:
  "announcement_fits E e info \<Longrightarrow> cl_publish E e info st = Some (int (length info) + 8, sent (frame (nat e) info) st)"
  using publish_frame [of info E "nat e" st] by (simp add: announcement_fits_def nat_less_iff)

lemma negotiate_publishers_frames:
  "\<forall>p\<in>set (List.map_filter id slots). announcement_fits E (cp_endpoint (cn_pub_obj st p)) (cl_publisher_info E (cn_pub_obj st p)) \<Longrightarrow>
   cl_negotiate_publishers E slots st = Some (sent (publisher_frames E (cn_pub_obj st) slots) st)"
  by (induction slots arbitrary: st)
    (auto simp: publisher_frames_def List.map_filter_simps announce split: option.splits)

lemma negotiate_subscribers_frames:
  "\<forall>s\<in>set (List.map_filter id slots). announcement_fits E (cs_endpoint (cn_sub_obj st s)) (cl_subscriber_info E (cn_sub_obj st s)) \<Longrightarrow>
   cl_negotiate_subscribers E slots st = Some (sent (subscriber_frames E (cn_sub_obj st) slots) st)"
  by (induction slots arbitrary: st)
    (auto simp: subscriber_frames_def List.map_filter_simps announce split: option.splits)


section \<open>Parameter requests\<close>

lemma length_varToArr: "length (varToArr (w :: 'a::len word)) = LENGTH('a) div 8"
  by (simp add: varToArr_def)

lemma ros1_lengths:
  "length (ros1_Time sec nsec) = 8" "length (ros1_string txt) = length txt + 4"
  "length (ros1_Log level txt) = length txt + 5"
  by (simp_all add: ros1_Time_def ros1_string_def ros1_Log_def length_varToArr)

lemma request_sync:
  assumes "16 \<le> ce_OUTPUT_SIZE E"
  shows "cl_requestSyncTime E st = Some ((sent (frame 10 (ros1_Time 0 0)) st)
    \<lparr>cn_clock := Suc (cn_clock st), cn_rt_time := ce_time E (cn_clock st)\<rparr>)"
  using publish_frame [of "ros1_Time 0 0" E 10 st] assms
  by (simp add: cl_requestSyncTime_def ID_TIME_def ros1_lengths time_advances)

lemma spin_start_sel [simp]:
  "cn_clock (cl_spin_start c st) = cn_clock st" "cn_spin_timeout (cl_spin_start c st) = cn_spin_timeout st"
  "cn_param_received (cl_spin_start c st) = cn_param_received st" "cn_message_in (cl_spin_start c st) = cn_message_in st"
  "cn_mode st = MODE_FIRST_FF \<Longrightarrow> cn_mode (cl_spin_start c st) = MODE_FIRST_FF"
  by (simp_all add: cl_spin_start_def Let_def)

text \<open>The end of \<open>spinOnce\<close>, after its loop.\<close>

lemma spinOnce_end:
  assumes "16 \<le> ce_OUTPUT_SIZE E"
    and "cl_spin_loop E (ce_time E (cn_clock st)) input \<lparr>tx_stop_requested = False, saw_time_msg = False\<rparr>
      (cl_spin_start (ce_time E (cn_clock st)) (st\<lparr>cn_clock := Suc (cn_clock st)\<rparr>)) = Some (rest, None, fl, st2)"
  obtains code st3 where "cl_spinOnce E input st = Some (code, rest, st3)"
    "cn_clock st3 = cn_clock st2 \<or> cn_clock st3 = Suc (cn_clock st2)" "cn_spin_timeout st3 = cn_spin_timeout st2"
    "cn_param_received st3 = cn_param_received st2" "cn_param_resp st3 = cn_param_resp st2"
proof -
  let ?c = "ce_time E (cn_clock st)"
  let ?code = "if saw_time_msg fl then SPIN_TIME_RECV else if tx_stop_requested fl then SPIN_TX_STOP_REQUESTED else SPIN_OK"
  obtain st3 where st3: "(if cn_configured st2 \<and> ?c - cn_last_sync_time st2 > CL_SYNC_SECONDS * 500
        then map_option (\<lambda>s. s\<lparr>cn_last_sync_time := ?c\<rparr>) (cl_requestSyncTime E st2) else Some st2) = Some st3"
      "cn_clock st3 = cn_clock st2 \<or> cn_clock st3 = Suc (cn_clock st2)" "cn_spin_timeout st3 = cn_spin_timeout st2"
      "cn_param_received st3 = cn_param_received st2" "cn_param_resp st3 = cn_param_resp st2"
    by (cases "cn_configured st2 \<and> ?c - cn_last_sync_time st2 > CL_SYNC_SECONDS * 500")
      (auto simp: request_sync [OF assms(1)])
  have "cl_spinOnce E input st = Some (?code, rest, st3)"
    using assms(2) by (simp add: cl_spinOnce_def time_advances st3(1))
  then show thesis using that st3(2-5) by blast
qed

lemma spinOnce_silent:
  assumes "16 \<le> ce_OUTPUT_SIZE E" "cn_spin_timeout st = 0"
  obtains code st1 where "cl_spinOnce E [] st = Some (code, [], st1)"
    "cn_clock st1 = Suc (cn_clock st) \<or> cn_clock st1 = Suc (Suc (cn_clock st))" "cn_spin_timeout st1 = 0"
    "cn_param_received st1 = cn_param_received st"
proof -
  let ?st = "cl_spin_start (ce_time E (cn_clock st)) (st\<lparr>cn_clock := Suc (cn_clock st)\<rparr>)"
  have "cl_spin_loop E (ce_time E (cn_clock st)) [] \<lparr>tx_stop_requested = False, saw_time_msg = False\<rparr> ?st =
      Some ([], None, \<lparr>tx_stop_requested = False, saw_time_msg = False\<rparr>, ?st)"
    using assms(2) by (simp add: cl_spin_loop.simps cl_spin_expired_def)
  from spinOnce_end [OF assms(1) this] show thesis using that assms(2) by auto
qed

lemma logwarn_fits:
  assumes "length txt + 13 \<le> ce_OUTPUT_SIZE E"
  shows "cl_logwarn E txt st = Some (sent (frame 7 (ros1_Log 2 txt)) st)"
  using publish_frame [of "ros1_Log 2 txt" E 7 st] assms by (simp add: cl_logwarn_def cl_log_def ID_LOG_def ros1_lengths)

abbreviation timeout_text :: "u8 list" where
  "timeout_text \<equiv> c_str ''Failed to get param: timeout expired''"

lemma param_loop_times_out:
  assumes "64 \<le> ce_OUTPUT_SIZE E" "cn_spin_timeout st = 0" "\<not> cn_param_received st" "cn_clock st \<le> N"
    and "\<forall>n\<in>{N, N + 1, N + 2}. end_time < ce_time E n" "N < k + cn_clock st"
  shows "\<exists>st1. cl_param_loop E end_time [] (replicate k []) st = Some (Some (False, sent (frame 7 (ros1_Log 2 timeout_text)) st1))"
  using assms
proof (induction k arbitrary: st)
  case (Suc k)
  obtain code st1 where r: "cl_spinOnce E [] st = Some (code, [], st1)"
      "cn_clock st1 = Suc (cn_clock st) \<or> cn_clock st1 = Suc (Suc (cn_clock st))" "cn_spin_timeout st1 = 0"
      "cn_param_received st1 = cn_param_received st"
    by (rule spinOnce_silent [of E st]) (use Suc.prems in auto)
  let ?st2 = "st1\<lparr>cn_clock := Suc (cn_clock st1)\<rparr>"
  have step: "cl_param_loop E end_time [] (replicate (Suc k) []) st =
      (if end_time < ce_time E (cn_clock st1)
       then Some (Some (False, sent (frame 7 (ros1_Log 2 timeout_text)) ?st2))
       else cl_param_loop E end_time [] (replicate k []) ?st2)"
    using Suc.prems(1,3) r(1)
    by (subst cl_param_loop.simps) (simp add: time_advances logwarn_fits c_str_def)
  show ?case
  proof (cases "end_time < ce_time E (cn_clock st1)")
    case False
    then have "cn_clock st1 \<notin> {N, N + 1, N + 2}" using Suc.prems(5) by blast
    then have "Suc (cn_clock st1) \<le> N" using Suc.prems(4) r(2) by auto
    then show ?thesis using False step Suc.IH [of ?st2] Suc.prems r by auto
  qed (use step in auto)
qed simp


lemma param_frame_dispatched:
  "cl_dispatch E c fl (cl_received c' 6 payload ck st) = Some (None, fl, (cl_received c' 6 payload ck st)
     \<lparr>cn_param_resp := ce_param E (payload @ drop (length payload) (cn_message_in st)), cn_param_received := True\<rparr>)"
  by (simp add: cl_dispatch_def id_defs)

lemma request_param_answered:
  assumes "64 \<le> ce_OUTPUT_SIZE E" "length name + 12 \<le> ce_OUTPUT_SIZE E"
    and "cn_spin_timeout st = 0" "cn_mode st = MODE_FIRST_FF" "length (cn_message_in st) = ce_INPUT_SIZE E"
    and "length payload < 65536" "length payload \<le> ce_INPUT_SIZE E"
    and in_time: "\<forall>n\<in>{cn_clock st + 2, cn_clock st + 3}. ce_time E n \<le> ce_time E (cn_clock st) + time_out"
  shows "\<exists>st1. cl_requestParam E name time_out (map uint (frame 6 payload) # later) st = Some (Some (True, st1)) \<and>
    cn_param_resp st1 = ce_param E (payload @ drop (length payload) (cn_message_in st))"
proof -
  let ?n = "cn_clock st"
  define st0 where "st0 = (sent (frame 6 (ros1_string name)) (st\<lparr>cn_param_received := False\<rparr>))\<lparr>cn_clock := Suc ?n\<rparr>"
  have st0: "cn_clock st0 = Suc ?n" "cn_spin_timeout st0 = 0" "cn_mode st0 = MODE_FIRST_FF"
      "cn_message_in st0 = cn_message_in st" "\<not> cn_param_received st0"
    using assms(3,4) by (simp_all add: st0_def)
  have req: "cl_requestParam E name time_out inputs st = cl_param_loop E (ce_time E ?n + time_out) [] inputs st0" for inputs
    using publish_frame [of "ros1_string name" E 6 "st\<lparr>cn_param_received := False\<rparr>"] assms(2)
    by (simp add: cl_requestParam_def ID_PARAMETER_REQUEST_def ros1_lengths time_advances st0_def)
  let ?c = "ce_time E (cn_clock st0)"
  let ?st = "cl_spin_start ?c (st0\<lparr>cn_clock := Suc (cn_clock st0)\<rparr>)"
  let ?fl = "\<lparr>tx_stop_requested = False, saw_time_msg = False\<rparr>"
  let ?st2 = "(cl_received ?c 6 payload (last (frame 6 payload)) ?st)
     \<lparr>cn_param_resp := ce_param E (payload @ drop (length payload) (cn_message_in st)), cn_param_received := True\<rparr>"
  have "cl_spin_loop E ?c (map uint (frame 6 payload) @ []) ?fl ?st =
      cl_finish E ?c [] (cl_dispatch E ?c ?fl (cl_received ?c 6 payload (last (frame 6 payload)) ?st))"
    by (rule cl_spin_whole_frame) (use assms st0 in simp_all)
  then have "cl_spin_loop E ?c (map uint (frame 6 payload)) ?fl ?st = Some ([], None, ?fl, ?st2)"
    using st0 by (simp add: param_frame_dispatched cl_finish_def cl_spin_loop.simps cl_spin_expired_def)
  then obtain code st3 where st3: "cl_spinOnce E (map uint (frame 6 payload)) st0 = Some (code, [], st3)"
      "cn_clock st3 = cn_clock ?st2 \<or> cn_clock st3 = Suc (cn_clock ?st2)"
      "cn_param_received st3 = cn_param_received ?st2" "cn_param_resp st3 = cn_param_resp ?st2"
    by (rule spinOnce_end [rotated]) (use assms in auto)
  have t: "\<not> ce_time E ?n + time_out < ce_time E (cn_clock st3)"
    using in_time st3(2) st0(1) by (auto simp: not_less numeral_3_eq_3)
  have "cl_requestParam E name time_out (map uint (frame 6 payload) # later) st =
      cl_param_loop E (ce_time E ?n + time_out) [] later (st3\<lparr>cn_clock := Suc (cn_clock st3)\<rparr>)"
    unfolding req using st0(5) st3(1) t by (subst cl_param_loop.simps) (simp add: time_advances)
  also have "\<dots> = Some (Some (True, st3\<lparr>cn_clock := Suc (cn_clock st3)\<rparr>))"
    using st3(3) by (subst cl_param_loop.simps) simp
  finally show ?thesis using st3(4) by simp
qed

section \<open>A node to run\<close>

definition client_sample_env :: "unit client_env" where
  "client_sample_env =
     \<lparr>ce_MAX_SUBSCRIBERS = 25, ce_MAX_PUBLISHERS = 25, ce_INPUT_SIZE = 512, ce_OUTPUT_SIZE = 512,
      ce_time = of_nat, ce_callback = (\<lambda>_ _ st. st), ce_service = (\<lambda>_ _ st. ([], st)),
      ce_response = (\<lambda>_ _ st. st), ce_param = (\<lambda>bs. \<lparr>rp_ints = [ucast (hd bs)], rp_floats = []\<rparr>)\<rparr>"

definition client_sample_node :: "unit client_node" where
  "client_sample_node = cl_initNode (new_ClientNode client_sample_env
     (\<lambda>_. \<lparr>cp_topic = c_str ''chatter'', cp_type = c_str ''std_msgs/String'', cp_md5 = [], cp_endpoint = 0, cp_id = 125\<rparr>)
     (\<lambda>_. \<lparr>cs_kind = K_Subscriber, cs_topic = c_str ''toggle'', cs_type = c_str ''std_msgs/Empty'', cs_md5 = [],
           cs_endpoint = 1, cs_id = 100, cs_pub = 0, cs_waiting = False\<rparr>) ())"

lemma client_sample_sel:
  "cn_spin_timeout client_sample_node = 0" "cn_mode client_sample_node = MODE_FIRST_FF" "cn_clock client_sample_node = 0"
  "cn_message_in client_sample_node = replicate 512 0" "ce_INPUT_SIZE client_sample_env = 512"
  "ce_OUTPUT_SIZE client_sample_env = 512" "ce_time client_sample_env n = of_nat n"
  "ce_param client_sample_env bs = \<lparr>rp_ints = [ucast (hd bs)], rp_floats = []\<rparr>"
  by (simp_all add: client_sample_node_def client_sample_env_def cl_initNode_def new_ClientNode_def mode_defs)

definition client_ready_node :: "unit client_node" where
  "client_ready_node = snd (cl_subscribe 0 (snd (cl_advertise client_sample_env 0 client_sample_node)))"

lemma client_ready_sel:
  "cn_publishers client_ready_node = Some 0 # replicate 24 None" "cn_subscribers client_ready_node = Some 0 # replicate 24 None"
  "cn_pub_obj client_ready_node 0 = \<lparr>cp_topic = c_str ''chatter'', cp_type = c_str ''std_msgs/String'', cp_md5 = [],
    cp_endpoint = 0, cp_id = 125\<rparr>"
  "cn_sub_obj client_ready_node 0 = \<lparr>cs_kind = K_Subscriber, cs_topic = c_str ''toggle'', cs_type = c_str ''std_msgs/Empty'',
    cs_md5 = [], cs_endpoint = 1, cs_id = 100, cs_pub = 0, cs_waiting = False\<rparr>"
proof -
  have "first_free (replicate 25 None) = Some 0" by (simp add: first_free_def upt_conv_Cons)
  moreover have "(replicate 25 None)[0 := Some x] = Some x # replicate 24 None" for x :: nat
    by (simp add: numeral_eq_Suc)
  ultimately show "cn_publishers client_ready_node = Some 0 # replicate 24 None"
    "cn_subscribers client_ready_node = Some 0 # replicate 24 None"
    "cn_pub_obj client_ready_node 0 = \<lparr>cp_topic = c_str ''chatter'', cp_type = c_str ''std_msgs/String'', cp_md5 = [],
      cp_endpoint = 0, cp_id = 125\<rparr>"
    "cn_sub_obj client_ready_node 0 = \<lparr>cs_kind = K_Subscriber, cs_topic = c_str ''toggle'', cs_type = c_str ''std_msgs/Empty'',
      cs_md5 = [], cs_endpoint = 1, cs_id = 100, cs_pub = 0, cs_waiting = False\<rparr>"
    by (simp_all add: client_ready_node_def cl_subscribe_def cl_advertise_def client_sample_node_def client_sample_env_def
        cl_initNode_def new_ClientNode_def)
qed

section \<open>Properties\<close>

text \<open>
  \<open>publish\<close> of the ROS 1 client node sends exactly one frame of the protocol around the serialised
  message when the frame fits the output buffer, and nothing while the node is not connected and the
  topic is one of the application's. When the frame does not fit, the buffer is overrun before the size
  is compared.
\<close>

theorem client_publish_outcome:
  "cl_publish E (int i) msg st =
    (if 100 \<le> i \<and> \<not> cn_configured st then Some (0, st)
     else if length msg + 8 \<le> ce_OUTPUT_SIZE E
     then Some (int (length (frame i msg)), st\<lparr>cn_written := cn_written st @ frame i msg\<rparr>)
     else None)"
proof (cases "100 \<le> i \<and> \<not> cn_configured st")
  case False
  then show ?thesis using publish_frame [of msg E i st]
    by (auto simp: length_frame sent_def cl_publish_def)
qed (simp add: cl_publish_def)

text \<open>
  From its idle mode the state machine of the ROS 1 client node consumes a frame whose payload fits the
  input buffer, stores the payload at the start of the buffer, and is idle again. The message is
  dispatched exactly when its checksum is right.
\<close>

theorem client_frame_dispatched:
  assumes "cn_spin_timeout st = 0" "cn_mode st = MODE_FIRST_FF" "topic < 65536" "length payload < 65536"
    and "length payload \<le> ce_INPUT_SIZE E" "length (cn_message_in st) = ce_INPUT_SIZE E"
  shows "cl_spin_loop E c (map uint (butlast (frame topic payload) @ [ck]) @ rest) fl st =
    (if ck = last (frame topic payload)
     then cl_finish E c rest (cl_dispatch E c fl (cl_received c topic payload ck st))
     else cl_spin_loop E c rest fl (cl_received c topic payload ck st))"
proof -
  have "butlast (frame topic payload) @ [ck] = header_bytes topic (length payload) @ payload @ [ck]"
    "last (frame topic payload) = checksum_of ([lo_byte topic, hi_byte topic] @ payload)"
    by (simp_all add: frame_header butlast_append)
  then show ?thesis using cl_spin_frame [OF assms, of c ck rest fl] by (simp del: append_Cons append_Nil)
qed

theorem client_frame_dispatched_witness:
  "cl_spin_loop client_sample_env 0 (map uint (butlast (frame 11 [7]) @ [0]) @ [])
      \<lparr>tx_stop_requested = False, saw_time_msg = False\<rparr> client_sample_node =
     cl_spin_loop client_sample_env 0 [] \<lparr>tx_stop_requested = False, saw_time_msg = False\<rparr> (cl_received 0 11 [7] 0 client_sample_node)"
  using client_frame_dispatched [of client_sample_node 11 "[7]" client_sample_env 0 0 "[]"
    "\<lparr>tx_stop_requested = False, saw_time_msg = False\<rparr>"]
  by (simp add: client_sample_sel frame_def checksum_of_def lo_byte_def hi_byte_def)

text \<open>
  When the server asks for the topics, the client node announces every registered publisher and then
  every registered subscriber, each once and in the order of the tables, and is connected afterwards.
\<close>

theorem client_announces_topics:
  assumes "\<forall>p. Some p \<in> set (cn_publishers st) \<longrightarrow>
      announcement_fits E (cp_endpoint (cn_pub_obj st p)) (cl_publisher_info E (cn_pub_obj st p))"
    and "\<forall>s. Some s \<in> set (cn_subscribers st) \<longrightarrow>
      announcement_fits E (cs_endpoint (cn_sub_obj st s)) (cl_subscriber_info E (cn_sub_obj st s))"
  shows "cl_negotiateTopics E st = Some (st\<lparr>cn_configured := True, cn_written := cn_written st @
    publisher_frames E (cn_pub_obj st) (cn_publishers st) @ subscriber_frames E (cn_sub_obj st) (cn_subscribers st)\<rparr>)"
proof -
  have mf: "p \<in> set (List.map_filter id xs) \<longleftrightarrow> Some p \<in> set xs" for p and xs :: "nat option list"
    by (force simp: map_filter_def)
  show ?thesis
    using assms negotiate_publishers_frames [of "cn_publishers st" E st]
      negotiate_subscribers_frames [of "cn_subscribers st" E "sent (publisher_frames E (cn_pub_obj st) (cn_publishers st)) st"]
    by (simp add: cl_negotiateTopics_def mf sent_def)
qed


theorem client_announces_topics_witness:
  "cl_negotiateTopics client_sample_env client_ready_node = Some (client_ready_node\<lparr>cn_configured := True,
     cn_written := cn_written client_ready_node @
       publisher_frames client_sample_env (cn_pub_obj client_ready_node) (Some 0 # replicate 24 None) @
       subscriber_frames client_sample_env (cn_sub_obj client_ready_node) (Some 0 # replicate 24 None)\<rparr>)"
proof -
  have "announcement_fits client_sample_env (cp_endpoint (cn_pub_obj client_ready_node 0))
      (cl_publisher_info client_sample_env (cn_pub_obj client_ready_node 0))"
    "announcement_fits client_sample_env (cs_endpoint (cn_sub_obj client_ready_node 0))
      (cl_subscriber_info client_sample_env (cn_sub_obj client_ready_node 0))"
    by (simp_all add: client_ready_sel announcement_fits_def cl_publisher_info_def cl_subscriber_info_def
        ros1_TopicInfo_def ros1_lengths length_varToArr c_str_def client_sample_sel)
  then show ?thesis using client_announces_topics [of client_ready_node client_sample_env] by (simp add: client_ready_sel(1,2))
qed



text \<open>
  When no response arrives, a parameter request ends: as soon as the clock has passed the time-out
  for three successive readings, \<open>getParam\<close> has returned false and a warning has been sent.
\<close>

theorem client_param_times_out:
  assumes "64 \<le> ce_OUTPUT_SIZE E" "length name + 12 \<le> ce_OUTPUT_SIZE E" "cn_spin_timeout st = 0" "cn_clock st < N"
    and "\<forall>n\<in>{N, N + 1, N + 2}. ce_time E (cn_clock st) + time_out < ce_time E n" "N \<le> k + cn_clock st"
  shows "\<exists>st1. cl_getParam_int E name len time_out (replicate k []) st =
    Some (Some (None, sent (frame 7 (ros1_Log 2 (c_str ''Failed to get param: timeout expired''))) st1))"
proof -
  let ?st = "(sent (frame 6 (ros1_string name)) (st\<lparr>cn_param_received := False\<rparr>))\<lparr>cn_clock := Suc (cn_clock st)\<rparr>"
  have "cl_requestParam E name time_out inputs st =
      cl_param_loop E (ce_time E (cn_clock st) + time_out) [] inputs ?st" for inputs
    using publish_frame [of "ros1_string name" E 6 "st\<lparr>cn_param_received := False\<rparr>"] assms(2)
    by (simp add: cl_requestParam_def ID_PARAMETER_REQUEST_def ros1_lengths time_advances)
  moreover have "\<exists>st1. cl_param_loop E (ce_time E (cn_clock st) + time_out) [] (replicate k []) ?st =
      Some (Some (False, sent (frame 7 (ros1_Log 2 timeout_text)) st1))"
    by (rule param_loop_times_out [OF assms(1) _ _ _ assms(5)]) (use assms in auto)
  ultimately show ?thesis by (auto simp: cl_getParam_int_def cl_getParam_with_def)
qed

theorem client_param_times_out_witness:
  "\<exists>st1. cl_getParam_int client_sample_env (c_str ''~p'') 1 5 (replicate 6 []) client_sample_node =
    Some (Some (None, sent (frame 7 (ros1_Log 2 (c_str ''Failed to get param: timeout expired''))) st1))"
  by (rule client_param_times_out [of client_sample_env "c_str ''~p''" client_sample_node 6 5 6 1])
    (auto simp: client_sample_sel c_str_def)

end
