(* ===== verification/Embedded_Linux.thy ===== *)
theory Embedded_Linux
  imports Client_Spin
begin

text \<open>
  The link of a node that runs on embedded Linux, \<open>embedded_linux_comms.c\<close> with
  \<open>embedded_linux_hardware.h\<close>: opening a serial port or a TCP connection, reading a byte and writing a
  message. The kernel is the environment: what \<open>open\<close>, \<open>socket\<close>, \<open>setsockopt\<close>, \<open>gethostbyname\<close> and
  \<open>connect\<close> answer are the fields of a record, and the results of successive calls of \<open>write\<close> are a list.
  A character array starts with whatever is in memory.
\<close>

section \<open>Opening the link\<close>

record el_env =
  el_open :: "u8 list \<Rightarrow> int"
  el_socket :: int
  el_setsockopt :: int
  el_gethostbyname :: "u8 list \<Rightarrow> bool"
  el_connect :: "u8 list \<Rightarrow> u16 \<Rightarrow> int"
  el_fcntl_getfl :: int

text \<open>The file descriptor that is returned, the exit of the program, or a read or write past the array \<open>ip\<close>.\<close>

datatype el_result = Fd int | Exit int | Abort | Ip_overflow

definition DEFAULT_PORTNUM :: int where "DEFAULT_PORTNUM = 11411"

text \<open>
  \<open>strncpy (dst, src, n)\<close> for a C string \<open>src\<close> without its null: at most \<open>n\<close> characters are copied and the
  rest of the \<open>n\<close> characters is filled with nulls; what lies behind them stays. Writing past the array is \<open>None\<close>.
\<close>

definition c_strncpy :: "u8 list \<Rightarrow> u8 list \<Rightarrow> nat \<Rightarrow> u8 list option" where
  "c_strncpy dst src n =
     (if length dst < n then None
      else Some (take n (src @ replicate (n - length src) 0) @ drop n dst))"

text \<open>The C string in an array: up to the first null, which is missing when the array has none.\<close>

definition c_string :: "u8 list \<Rightarrow> u8 list option" where
  "c_string arr = (if 0 \<in> set arr then Some (takeWhile (\<lambda>b. b \<noteq> 0) arr) else None)"

definition c_strchr :: "u8 \<Rightarrow> u8 list \<Rightarrow> u8 list option" where
  "c_strchr c s = (case dropWhile (\<lambda>b. b \<noteq> c) s of [] \<Rightarrow> None | r \<Rightarrow> Some r)"

text \<open>\<open>strtol\<close> with base 10 and a 32-bit \<open>long\<close>.\<close>

definition is_digit :: "u8 \<Rightarrow> bool" where "is_digit b \<longleftrightarrow> 48 \<le> b \<and> b \<le> 57"

definition is_space :: "u8 \<Rightarrow> bool" where "is_space b \<longleftrightarrow> b = 32 \<or> (9 \<le> b \<and> b \<le> 13)"

definition digits_value :: "u8 list \<Rightarrow> int" where
  "digits_value ds = foldl (\<lambda>v d. 10 * v + (uint d - 48)) 0 ds"

definition c_strtol :: "u8 list \<Rightarrow> int" where
  "c_strtol s =
     (let s1 = dropWhile is_space s;
          neg = (s1 \<noteq> [] \<and> hd s1 = 45);
          s2 = (if s1 \<noteq> [] \<and> (hd s1 = 45 \<or> hd s1 = 43) then tl s1 else s1);
          v = digits_value (takeWhile is_digit s2)
      in if neg then max (- (2 ^ 31)) (- v) else min (2 ^ 31 - 1) v)"

text \<open>The address part of \<open>elCommInit\<close>: the array \<open>ip\<close> of 16 characters, and the port.\<close>

definition el_address :: "u8 list \<Rightarrow> u8 list \<Rightarrow> (u8 list \<times> int) option" where
  "el_address ip0 portName =
     (case c_strchr 58 portName of
        None \<Rightarrow> map_option (\<lambda>ip. (ip, DEFAULT_PORTNUM)) (c_strncpy ip0 portName 16)
      | Some tcpPortNumString \<Rightarrow>
          map_option (\<lambda>ip. (ip, c_strtol (tl tcpPortNumString)))
            (c_strncpy ip0 portName (length portName - length tcpPortNumString)))"

definition set_nonblock :: "el_env \<Rightarrow> bool" where
  "set_nonblock K \<longleftrightarrow> el_fcntl_getfl K \<noteq> -1"

definition elCommInit :: "el_env \<Rightarrow> u8 list \<Rightarrow> u8 list \<Rightarrow> el_result" where
  "elCommInit K ip0 portName =
     (if portName \<noteq> [] \<and> hd portName = 47 then Fd (el_open K portName)
      else (case el_address ip0 portName of
              None \<Rightarrow> Ip_overflow
            | Some (ip, tcpPortNum) \<Rightarrow>
                (case c_string ip of
                   None \<Rightarrow> Ip_overflow
                 | Some host \<Rightarrow>
                     if el_socket K < 0 then Exit 0
                     else if el_setsockopt K = -1 then Exit (-1)
                     else if \<not> el_gethostbyname K host then Exit 0
                     else if el_connect K host (of_int tcpPortNum) < 0 then Exit 0
                     else if \<not> set_nonblock K then Abort
                     else Fd (el_socket K))))"

section \<open>Reading and writing\<close>

text \<open>\<open>rv\<close> is the result of \<open>read\<close> and \<open>c\<close> the byte it stored.\<close>

definition elCommRead :: "int \<Rightarrow> u8 \<Rightarrow> int" where
  "elCommRead rv c = (if rv > 0 then uint c else rv)"

text \<open>
  The loop of \<open>elCommWrite\<close> on the message at address \<open>data\<close>. A call of \<open>write\<close> that answers \<open>rv\<close> has put
  \<open>rv\<close> bytes on the line. The result has the bytes put on the line and the last answer; \<open>None\<close> means that
  the loop is still running when the list of answers ends.
\<close>

fun el_write_loop :: "mem \<Rightarrow> nat \<Rightarrow> nat \<Rightarrow> nat \<Rightarrow> int list \<Rightarrow> int option \<Rightarrow> (u8 list \<times> int option) option" where
  "el_write_loop m data len totalsent rvs last_rv =
     (if totalsent < len
      then (case rvs of
              [] \<Rightarrow> None
            | rv # rest \<Rightarrow>
                if rv < 0 then el_write_loop m data len totalsent rest (Some rv)
                else map_option (\<lambda>(bs, r). (mem_read (data + totalsent) (nat rv) m @ bs, r))
                       (el_write_loop m data len (totalsent + nat rv) rest (Some rv)))
      else Some ([], last_rv))"

declare el_write_loop.simps [simp del]

definition elCommWrite :: "mem \<Rightarrow> nat \<Rightarrow> nat \<Rightarrow> int list \<Rightarrow> (u8 list \<times> int option) option" where
  "elCommWrite m data len rvs = el_write_loop m data len 0 rvs None"

section \<open>EmbeddedLinuxHardware\<close>

record el_hardware =
  elh_fd :: int
  elh_portName :: "u8 list"
  elh_baud :: int

definition DEFAULT_PORT :: "u8 list" where
  "DEFAULT_PORT = map of_char ''/dev/ttyAM1''"

definition new_EmbeddedLinuxHardware_named :: "u8 list \<Rightarrow> u8 list \<Rightarrow> int \<Rightarrow> int \<Rightarrow> el_hardware option" where
  "new_EmbeddedLinuxHardware_named junk pn baud fd0 =
     map_option (\<lambda>name. \<lparr>elh_fd = fd0, elh_portName = name, elh_baud = baud\<rparr>) (c_strncpy junk pn 30)"

definition new_EmbeddedLinuxHardware :: "u8 list \<Rightarrow> u8 list option \<Rightarrow> int \<Rightarrow> el_hardware option" where
  "new_EmbeddedLinuxHardware junk envPortName fd0 =
     (let name = (case envPortName of
                    None \<Rightarrow> c_strncpy junk DEFAULT_PORT (length DEFAULT_PORT + 1)
                  | Some e \<Rightarrow> c_strncpy junk e 29)
      in map_option (\<lambda>n. \<lparr>elh_fd = fd0, elh_portName = n[29 := 0], elh_baud = 57600\<rparr>) name)"

definition elh_init :: "el_env \<Rightarrow> u8 list \<Rightarrow> u8 list \<Rightarrow> el_hardware \<Rightarrow> el_result \<times> el_hardware" where
  "elh_init K ip0 pName hw =
     (case elCommInit K ip0 pName of
        Fd fd \<Rightarrow> (if fd < 0 then (Exit (-1), hw\<lparr>elh_fd := fd\<rparr>) else (Fd fd, hw\<lparr>elh_fd := fd\<rparr>))
      | r \<Rightarrow> (r, hw))"

section \<open>What is put on the line\<close>

text \<open>The number of bytes that answers of \<open>write\<close> accept.\<close>

fun accepted :: "int list \<Rightarrow> nat" where
  "accepted [] = 0"
| "accepted (rv # rvs) = (if rv < 0 then 0 else nat rv) + accepted rvs"

lemma el_write_loop_line:
  assumes "el_write_loop m data len t rvs r0 = Some (bs, r)"
  shows "\<exists>n \<le> length rvs. bs = mem_read (data + t) (accepted (take n rvs)) m \<and> len \<le> t + accepted (take n rvs) \<and>
    (0 < n \<longrightarrow> t + accepted (take (n - 1) rvs) < len)"
  using assms
proof (induction rvs arbitrary: t bs r0)
  case Nil
  then show ?case by (auto simp: el_write_loop.simps split: if_splits)
next
  case (Cons rv rvs)
  show ?case
  proof (cases "t < len")
    case False
    then show ?thesis using Cons.prems by (intro exI [of _ 0]) (simp add: el_write_loop.simps)
  next
    case True
    let ?k = "if rv < 0 then 0 else nat rv"
    obtain bs1 where b: "el_write_loop m data len (t + ?k) rvs (Some rv) = Some (bs1, r)"
        "bs = mem_read (data + t) ?k m @ bs1"
      using Cons.prems True by (subst (asm) el_write_loop.simps) (auto split: if_splits)
    obtain n where n: "n \<le> length rvs" "bs1 = mem_read (data + (t + ?k)) (accepted (take n rvs)) m"
        "len \<le> t + ?k + accepted (take n rvs)" "0 < n \<longrightarrow> t + ?k + accepted (take (n - 1) rvs) < len"
      using Cons.IH [OF b(1)] by blast
    have "bs = mem_read (data + t) (accepted (take (Suc n) (rv # rvs))) m"
      using b(2) n(2) mem_read_add [of "data + t" ?k "accepted (take n rvs)" m] by (simp add: add.assoc)
    then show ?thesis
      using n True by (intro exI [of _ "Suc n"]) (auto simp: take_Cons' add.assoc)
  qed
qed

lemma el_write_loop_returns:
  "el_write_loop m data len t rvs r0 \<noteq> None \<longleftrightarrow> len \<le> t + accepted rvs"
proof (induction rvs arbitrary: t r0)
  case Nil
  then show ?case by (subst el_write_loop.simps) auto
next
  case (Cons rv rvs)
  show ?case
    using Cons [of t "Some rv"] Cons [of "t + nat rv" "Some rv"]
    by (subst el_write_loop.simps) (auto simp: add.assoc)
qed

section \<open>The host name\<close>

lemma c_strchr_colon: "c \<notin> set host \<Longrightarrow> c_strchr c (host @ c # port) = Some (c # port)"
  by (induction host) (auto simp: c_strchr_def)

lemma c_strchr_none: "c \<notin> set s \<Longrightarrow> c_strchr c s = None"
  by (induction s) (auto simp: c_strchr_def)

lemma c_string_prefix:
  "0 \<notin> set s \<Longrightarrow> c_string (s @ t) = map_option (\<lambda>u. s @ u) (c_string t)"
  by (induction s) (auto simp: c_string_def)

lemma c_string_empty: "c_string t = Some [] \<longleftrightarrow> (\<exists>r. t = 0 # r)"
  by (cases t) (auto simp: c_string_def)

section \<open>The end of a connection\<close>

text \<open>
  \<open>read\<close> answers 0 when the other side has closed the connection. \<open>elCommRead\<close> passes this on, and
  \<open>spinOnce\<close>, which stops at negative values only, takes it for a data byte.
\<close>

lemma zero_byte:
  assumes "cn_mode st = MODE_FIRST_FF"
  shows "cl_spin_byte E c 0 fl st =
    (if ce_time E (cn_clock st) - c > CL_SYNC_SECONDS * 1000
     then Some (Some SPIN_TIMEOUT, fl, st\<lparr>cn_clock := Suc (cn_clock st), cn_configured := False\<rparr>)
     else Some (None, fl, st\<lparr>cn_clock := Suc (cn_clock st)\<rparr>))"
  using assms by (cases st) (simp add: cl_spin_byte_def mode_defs cl_time_def)

text \<open>
  After the end of the connection \<open>spinOnce\<close> reads zeros until five seconds have passed, however many
  there are; then it returns with a time-out and the node is not connected any more.
\<close>

theorem closed_connection_blocks:
  assumes "cn_spin_timeout st = 0" "cn_mode st = MODE_FIRST_FF"
    and "\<forall>j<k. ce_time E (cn_clock st + j) - c \<le> CL_SYNC_SECONDS * 1000"
    and "ce_time E (cn_clock st + k) - c > CL_SYNC_SECONDS * 1000"
  shows "cl_spin_loop E c (replicate (k + Suc n) (elCommRead 0 junk)) fl st =
    Some (replicate n 0, Some SPIN_TIMEOUT, fl, st\<lparr>cn_clock := Suc (cn_clock st + k), cn_configured := False\<rparr>)"
  using assms
proof (induction k arbitrary: st)
  case 0
  then show ?case by (simp add: elCommRead_def cl_spin_loop.simps cl_spin_expired_def zero_byte)
next
  case (Suc k)
  let ?st = "st\<lparr>cn_clock := Suc (cn_clock st)\<rparr>"
  have "\<not> ce_time E (cn_clock st) - c > CL_SYNC_SECONDS * 1000" using spec [OF Suc.prems(3), of 0] by (simp add: not_less)
  then have "cl_spin_loop E c (replicate (Suc k + Suc n) (elCommRead 0 junk)) fl st =
      cl_spin_loop E c (replicate (k + Suc n) (elCommRead 0 junk)) fl ?st"
    using Suc.prems(1,2) by (simp add: elCommRead_def cl_spin_loop.simps cl_spin_expired_def zero_byte)
  also have "\<dots> = Some (replicate n 0, Some SPIN_TIMEOUT, fl,
      ?st\<lparr>cn_clock := Suc (cn_clock ?st + k), cn_configured := False\<rparr>)"
    using Suc.prems by (intro Suc.IH) (auto dest: spec [of _ "Suc _"])
  finally show ?case by simp
qed

section \<open>Properties\<close>

text \<open>
  C38: \<open>elCommWrite\<close> returns exactly when the kernel has accepted as many bytes as the message has. Then the
  line got the message first, but as every call of \<open>write\<close> offers the full length again, after a partial
  write the line also gets bytes that lie behind the message in memory, up to one byte less than the message is long.
\<close>

theorem el_write_outcome:
  assumes "\<forall>rv\<in>set rvs. rv \<le> int len"
  shows "(elCommWrite m data len rvs \<noteq> None \<longleftrightarrow> len \<le> accepted rvs) \<and>
    (\<forall>bs r. elCommWrite m data len rvs = Some (bs, r) \<longrightarrow>
       (\<exists>extra. bs = mem_read data len m @ mem_read (data + len) extra m \<and> (0 < len \<longrightarrow> extra < len)))"
proof (intro conjI allI impI)
  show "elCommWrite m data len rvs \<noteq> None \<longleftrightarrow> len \<le> accepted rvs"
    using el_write_loop_returns [of m data len 0 rvs None] by (simp add: elCommWrite_def)
  fix bs r assume "elCommWrite m data len rvs = Some (bs, r)"
  then obtain n where n: "n \<le> length rvs" "bs = mem_read data (accepted (take n rvs)) m"
      "len \<le> accepted (take n rvs)" "0 < n \<longrightarrow> accepted (take (n - 1) rvs) < len"
    using el_write_loop_line [of m data len 0 rvs None bs r] by (auto simp: elCommWrite_def)
  define extra where "extra = accepted (take n rvs) - len"
  have "bs = mem_read data len m @ mem_read (data + len) extra m"
    using n(2,3) mem_read_add [of data len extra m] by (simp add: extra_def)
  moreover have "extra < len" if "0 < len"
  proof -
    have "0 < n" using n(3) that by (cases n) auto
    then have "take n rvs = take (n - 1) rvs @ [rvs ! (n - 1)]"
      using n(1) by (metis Suc_diff_1 Suc_le_lessD take_Suc_conv_app_nth)
    moreover have "accepted (xs @ [rv]) = accepted xs + (if rv < 0 then 0 else nat rv)" for xs rv
      by (induction xs) auto
    moreover have "rvs ! (n - 1) \<le> int len" using assms n(1) \<open>0 < n\<close> by simp
    ultimately have "accepted (take n rvs) \<le> accepted (take (n - 1) rvs) + len" by auto
    then show ?thesis using n(4) \<open>0 < n\<close> by (simp add: extra_def)
  qed
  ultimately show "\<exists>extra. bs = mem_read data len m @ mem_read (data + len) extra m \<and> (0 < len \<longrightarrow> extra < len)" by blast
qed

theorem el_write_outcome_witness:
  "elCommWrite (\<lambda>a. of_nat a) 10 4 [1, -1, 4] = Some ([10, 11, 12, 13, 14], Some 4) \<and> 4 \<le> accepted [1, -1, 4]"
proof -
  have "4 \<le> accepted [1, -1, 4]" by simp
  then have "elCommWrite (\<lambda>a. of_nat a) 10 4 [1, -1, 4] \<noteq> None"
    using el_write_outcome [of "[1, -1, 4]" 4 "\<lambda>a. of_nat a" 10] by simp
  moreover have "elCommWrite (\<lambda>a. of_nat a) 10 4 [1, -1, 4] = Some ([10, 11, 12, 13, 14], Some 4)"
    by (simp add: elCommWrite_def el_write_loop.simps mem_read_def upt_rec)
  ultimately show ?thesis by simp
qed

text \<open>
  The host name of a TCP address arrives at \<open>gethostbyname\<close> only by luck when a port is given: the copy has no
  terminating null, so that the name ends at the first null that happens to be in the array. Without a
  port it arrives exactly when it has fewer than 16 characters.
\<close>

theorem el_host_name:
  assumes "length ip0 = 16" "0 \<notin> set host" "58 \<notin> set host"
  shows "((\<exists>ip p. el_address ip0 (host @ 58 # port) = Some (ip, p) \<and> c_string ip = Some host) \<longleftrightarrow>
      length host < 16 \<and> ip0 ! length host = 0) \<and>
    ((\<exists>ip p. el_address ip0 host = Some (ip, p) \<and> c_string ip = Some host) \<longleftrightarrow> length host < 16)"
proof -
  have 1: "el_address ip0 (host @ 58 # port) =
      (if 16 < length host then None else Some (host @ drop (length host) ip0, c_strtol port))"
    using assms by (simp add: el_address_def c_strchr_colon c_strncpy_def)
  have "(c_string (host @ drop (length host) ip0) = Some host) = (\<exists>r. drop (length host) ip0 = 0 # r)"
    using assms(2) c_string_empty by (auto simp: c_string_prefix)
  also have "\<dots> \<longleftrightarrow> length host < 16 \<and> ip0 ! length host = 0"
    using assms(1) by (metis Cons_nth_drop_Suc drop_eq_Nil2 linorder_not_le list.distinct(1) list.inject)
  finally have "(\<exists>ip p. el_address ip0 (host @ 58 # port) = Some (ip, p) \<and> c_string ip = Some host) \<longleftrightarrow>
      length host < 16 \<and> ip0 ! length host = 0"
    using 1 by auto
  note 1 = this
  have 2: "el_address ip0 host = Some (take 16 (host @ replicate (16 - length host) 0), DEFAULT_PORTNUM)"
    using assms by (simp add: el_address_def c_strchr_none c_strncpy_def)
  have "(\<exists>ip p. el_address ip0 host = Some (ip, p) \<and> c_string ip = Some host) \<longleftrightarrow> length host < 16"
  proof (cases "length host < 16")
    case True
    then show ?thesis using 2 assms(2) c_string_empty [of "replicate (16 - length host) 0"]
      by (auto simp: c_string_prefix gr0_conv_Suc) (metis Suc_diff_le Suc_diff_Suc replicate_Suc)
  next
    case False
    then have "c_string (take 16 host) = None" using assms(2) by (auto simp: c_string_def dest: in_set_takeD)
    then show ?thesis using 2 False by simp
  qed
  with 1 show ?thesis by blast
qed

theorem el_host_name_witness:
  "(\<exists>ip p. el_address (replicate 16 0) ([104, 49] @ 58 # [56, 48]) = Some (ip, p) \<and> c_string ip = Some [104, 49]) \<and>
   \<not> (\<exists>ip p. el_address (replicate 16 1) ([104, 49] @ 58 # [56, 48]) = Some (ip, p) \<and> c_string ip = Some [104, 49])"
  using el_host_name [of "replicate 16 0" "[104, 49]" "[56, 48]"] el_host_name [of "replicate 16 1" "[104, 49]" "[56, 48]"]
  by simp

end
