(* ===== verification/Windows_Socket.thy ===== *)
theory Windows_Socket
  imports Prelude
begin

text \<open>
  The TCP link of a node that runs on Windows, \<open>WindowsSocket.cpp\<close>. The socket library is the environment: the
  fields of \<open>win_env\<close> are its answers, a socket handle is the number of the socket, and \<open>ws_handles\<close> has
  the handles that are open.
\<close>

section \<open>The program\<close>

record 'a win_env =
  wk_WSAStartup :: int
  wk_getaddrinfo :: "string \<Rightarrow> string \<Rightarrow> 'a list option"
  wk_socket :: "nat \<Rightarrow> bool"
  wk_connect :: "'a \<Rightarrow> bool"
  wk_ioctlsocket :: bool

record 'a win_socket =
  ws_socket :: "nat option"
  ws_peer :: "'a option"
  ws_handles :: "nat list"
  ws_created :: nat
  ws_started :: bool
  ws_sent :: "u8 list"

definition WIN_DEFAULT_PORT :: string where "WIN_DEFAULT_PORT = ''11411''"

definition new_WindowsSocketImpl :: "'a win_socket" where
  "new_WindowsSocketImpl =
     \<lparr>ws_socket = None, ws_peer = None, ws_handles = [], ws_created = 0, ws_started = False, ws_sent = []\<rparr>"

fun find_last :: "char \<Rightarrow> string \<Rightarrow> nat option" where
  "find_last d [] = None"
| "find_last d (c # s) =
     (case find_last d s of Some i \<Rightarrow> Some (Suc i) | None \<Rightarrow> if c = d then Some 0 else None)"

definition host_and_port :: "string \<Rightarrow> string \<times> string" where
  "host_and_port hostname =
     (case find_last (CHR '':'') hostname of
        None \<Rightarrow> (hostname, WIN_DEFAULT_PORT)
      | Some c \<Rightarrow> (take c hostname, drop (c + 1) hostname))"

definition get_server_addr :: "'a win_env \<Rightarrow> string \<Rightarrow> 'a list option" where
  "get_server_addr K hostname = (case host_and_port hostname of (host, port) \<Rightarrow> wk_getaddrinfo K host port)"

definition closesocket :: "nat option \<Rightarrow> 'a win_socket \<Rightarrow> 'a win_socket" where
  "closesocket h w = (case h of None \<Rightarrow> w | Some n \<Rightarrow> w\<lparr>ws_handles := removeAll n (ws_handles w)\<rparr>)"

text \<open>The loop over the addresses; the first result says that the function returned from within it.\<close>

fun connect_loop :: "'a win_env \<Rightarrow> 'a list \<Rightarrow> 'a win_socket \<Rightarrow> bool \<times> 'a win_socket" where
  "connect_loop K [] w = (False, w)"
| "connect_loop K (a # as) w =
     (if \<not> wk_socket K (ws_created w) then (True, w\<lparr>ws_socket := None, ws_created := ws_created w + 1\<rparr>)
      else (let h = ws_created w;
                w1 = w\<lparr>ws_socket := Some h, ws_created := h + 1, ws_handles := h # ws_handles w\<rparr>
            in if wk_connect K a then (False, w1\<lparr>ws_peer := Some a\<rparr>)
               else connect_loop K as ((closesocket (Some h) w1)\<lparr>ws_socket := None\<rparr>)))"

definition connect_to_server :: "'a win_env \<Rightarrow> 'a list \<Rightarrow> 'a win_socket \<Rightarrow> 'a win_socket" where
  "connect_to_server K servers w =
     (case connect_loop K servers w of
        (True, w1) \<Rightarrow> w1
      | (False, w1) \<Rightarrow>
          if ws_socket w1 \<noteq> None \<and> wk_ioctlsocket K then w1
          else (closesocket (ws_socket w1) w1)\<lparr>ws_socket := None\<rparr>)"

definition win_init :: "'a win_env \<Rightarrow> string \<Rightarrow> 'a win_socket \<Rightarrow> 'a win_socket" where
  "win_init K server_hostname w =
     (if wk_WSAStartup K \<noteq> 0 then w
      else (let w1 = w\<lparr>ws_started := True\<rparr>
            in case get_server_addr K server_hostname of
                 None \<Rightarrow> w1\<lparr>ws_started := False\<rparr>
               | Some servers \<Rightarrow>
                   (let w2 = connect_to_server K servers w1
                    in if ws_socket w2 = None then w2\<lparr>ws_started := False\<rparr> else w2)))"

text \<open>\<open>result\<close> is the answer of \<open>recv\<close>, \<open>data\<close> the byte it stored.\<close>

definition win_read :: "int \<Rightarrow> u8 \<Rightarrow> int" where
  "win_read result data = (if result < 0 then -1 else if result = 0 then -1 else uint data)"

text \<open>\<open>send\<close> accepts the first \<open>result\<close> bytes, or answers \<open>SOCKET_ERROR\<close>.\<close>

definition win_write :: "int \<Rightarrow> u8 list \<Rightarrow> 'a win_socket \<Rightarrow> 'a win_socket" where
  "win_write result data w =
     (if result = -1 then (closesocket (ws_socket w) w)\<lparr>ws_started := False\<rparr>
      else w\<lparr>ws_sent := ws_sent w @ take (nat result) data\<rparr>)"

record SYSTEMTIME =
  wHour :: u16
  wMinute :: u16
  wSecond :: u16
  wMilliseconds :: u16

definition win_time :: "SYSTEMTIME \<Rightarrow> u32" where
  "win_time t = ucast (wHour t) * 3600000 + ucast (wMinute t) * 60000 + ucast (wSecond t) * 1000 + ucast (wMilliseconds t)"

section \<open>The connection\<close>

text \<open>The addresses tried before one accepts; a socket that cannot be created ends the search.\<close>

definition win_inv :: "'a win_socket \<Rightarrow> bool" where
  "win_inv w \<longleftrightarrow> ws_handles w = (case ws_socket w of None \<Rightarrow> [] | Some h \<Rightarrow> [h])"

lemma connect_loop_result:
  assumes "ws_handles w = []" "ws_socket w = None" "connect_loop K as w = (b, w')"
  shows "win_inv w' \<and> ws_started w' = ws_started w \<and> (b \<longrightarrow> ws_socket w' = None) \<and>
    (ws_socket w' \<noteq> None \<longrightarrow>
       (\<exists>tried a rest. as = tried @ a # rest \<and> (\<forall>x \<in> set tried. \<not> wk_connect K x) \<and> wk_connect K a \<and> ws_peer w' = Some a)) \<and>
    (ws_socket w' = None \<and> (\<forall>n. wk_socket K n) \<longrightarrow> (\<forall>x \<in> set as. \<not> wk_connect K x))"
  using assms
proof (induction as arbitrary: w)
  case Nil
  then show ?case by (auto simp: win_inv_def)
next
  case (Cons a as)
  show ?case
  proof (cases "wk_socket K (ws_created w)")
    case False
    then show ?thesis using Cons.prems by (auto simp: win_inv_def)
  next
    case sock: True
    show ?thesis
    proof (cases "wk_connect K a")
      case True
      then have "w' = w\<lparr>ws_socket := Some (ws_created w), ws_created := ws_created w + 1,
          ws_handles := [ws_created w], ws_peer := Some a\<rparr>" "\<not> b"
        using sock Cons.prems by (auto simp: Let_def)
      then show ?thesis using True by (force simp: win_inv_def)
    next
      case False
      let ?w = "w\<lparr>ws_created := ws_created w + 1, ws_handles := [], ws_socket := None\<rparr>"
      have "connect_loop K as ?w = (b, w')"
        using sock False Cons.prems by (simp add: Let_def closesocket_def)
      from Cons.IH [OF _ _ this] have ih: "win_inv w' \<and> ws_started w' = ws_started w \<and> (b \<longrightarrow> ws_socket w' = None) \<and>
          (ws_socket w' \<noteq> None \<longrightarrow> (\<exists>tried x rest. as = tried @ x # rest \<and> (\<forall>y \<in> set tried. \<not> wk_connect K y) \<and>
             wk_connect K x \<and> ws_peer w' = Some x)) \<and>
          (ws_socket w' = None \<and> (\<forall>n. wk_socket K n) \<longrightarrow> (\<forall>x \<in> set as. \<not> wk_connect K x))"
        by fastforce
      have "\<exists>tried x rest. a # as = tried @ x # rest \<and> (\<forall>y \<in> set tried. \<not> wk_connect K y) \<and> wk_connect K x \<and> ws_peer w' = Some x"
        if some: "ws_socket w' \<noteq> None"
      proof -
        obtain tried x rest where "as = tried @ x # rest" "\<forall>y \<in> set tried. \<not> wk_connect K y" "wk_connect K x" "ws_peer w' = Some x"
          using ih some by blast
        then show ?thesis using False by (intro exI [of _ "a # tried"]) auto
      qed
      then show ?thesis using ih False by simp
    qed
  qed
qed

lemma connect_result:
  assumes "ws_handles w = []" "ws_socket w = None"
  shows "win_inv (connect_to_server K as w) \<and> ws_started (connect_to_server K as w) = ws_started w \<and>
    (ws_socket (connect_to_server K as w) \<noteq> None \<longrightarrow>
       (\<exists>tried a rest. as = tried @ a # rest \<and> (\<forall>x \<in> set tried. \<not> wk_connect K x) \<and> wk_connect K a \<and>
          ws_peer (connect_to_server K as w) = Some a))"
proof -
  obtain b w1 where c: "connect_loop K as w = (b, w1)" by fastforce
  note r = connect_loop_result [OF assms c]
  show ?thesis
    using r by (cases b; cases "ws_socket w1"; cases "wk_ioctlsocket K")
      (auto simp: connect_to_server_def c win_inv_def closesocket_def)
qed

section \<open>Properties\<close>

text \<open>
  Connecting leaves no socket open but the one that is used: afterwards the socket library is in use exactly when
  there is a socket, the only open handle is that of this socket, and it is connected to the first of
  the resolved addresses that accepts.
\<close>

theorem windows_init_outcome:
  assumes "win_init K hostname new_WindowsSocketImpl = w"
  shows "ws_handles w = (case ws_socket w of None \<Rightarrow> [] | Some h \<Rightarrow> [h]) \<and> (ws_started w \<longleftrightarrow> ws_socket w \<noteq> None) \<and>
    (ws_socket w \<noteq> None \<longrightarrow>
       (\<exists>servers tried a rest. get_server_addr K hostname = Some servers \<and> servers = tried @ a # rest \<and>
          (\<forall>x \<in> set tried. \<not> wk_connect K x) \<and> wk_connect K a \<and> ws_peer w = Some a))"
proof -
  let ?w = "new_WindowsSocketImpl\<lparr>ws_started := True\<rparr> :: 'a win_socket"
  have "ws_handles ?w = []" "ws_socket ?w = None" by (simp_all add: new_WindowsSocketImpl_def)
  note r = connect_result [OF this, of K]
  show ?thesis
  proof (cases "get_server_addr K hostname")
    case None
    then have "w = new_WindowsSocketImpl"
      using assms by (cases "wk_WSAStartup K = 0") (simp_all add: win_init_def new_WindowsSocketImpl_def Let_def)
    then show ?thesis by (simp add: new_WindowsSocketImpl_def)
  next
    case (Some servers)
    have "wk_WSAStartup K = 0 \<Longrightarrow> w = (let w2 = connect_to_server K servers ?w
        in if ws_socket w2 = None then w2\<lparr>ws_started := False\<rparr> else w2)"
      using assms Some by (simp add: win_init_def Let_def)
    moreover have "wk_WSAStartup K \<noteq> 0 \<Longrightarrow> w = new_WindowsSocketImpl" using assms by (simp add: win_init_def)
    ultimately show ?thesis
      using r [of servers] Some
      by (cases "wk_WSAStartup K = 0") (auto simp: win_inv_def new_WindowsSocketImpl_def Let_def)
  qed
qed

lemma find_last_append: "d \<notin> set t \<Longrightarrow> find_last d (s @ d # t) = Some (length s)"
proof (induction s)
  case Nil
  have "d \<notin> set t \<Longrightarrow> find_last d t = None" by (induction t) auto
  then show ?case using Nil by simp
qed simp

text \<open>A host with a port is split at the last colon, so the host may contain colons; without a port it must not.\<close>

theorem host_and_port_splits:
  assumes "CHR '':'' \<notin> set port"
  shows "host_and_port (host @ '':'' @ port) = (host, port) \<and> host_and_port port = (port, WIN_DEFAULT_PORT)"
proof -
  have "find_last (CHR '':'') port = None" using assms by (induction port) auto
  then show ?thesis using find_last_append [OF assms, of host] by (simp add: host_and_port_def)
qed

text \<open>The clock of the node starts again at midnight.\<close>

definition valid_time :: "SYSTEMTIME \<Rightarrow> bool" where
  "valid_time t \<longleftrightarrow> wHour t < 24 \<and> wMinute t < 60 \<and> wSecond t < 60 \<and> wMilliseconds t < 1000"

lemma win_time_value:
  assumes "valid_time t"
  shows "unat (win_time t) = unat (wHour t) * 3600000 + unat (wMinute t) * 60000 + unat (wSecond t) * 1000 + unat (wMilliseconds t)"
    "unat (win_time t) < 86400000"
proof -
  let ?n = "unat (wHour t) * 3600000 + unat (wMinute t) * 60000 + unat (wSecond t) * 1000 + unat (wMilliseconds t)"
  have b: "unat (wHour t) \<le> 23" "unat (wMinute t) \<le> 59" "unat (wSecond t) \<le> 59" "unat (wMilliseconds t) \<le> 999"
    using assms by (simp_all add: valid_time_def word_less_nat_alt)
  then have n: "?n < 86400000" by simp
  have u: "(ucast x :: u32) = of_nat (unat x)" for x :: u16 by simp
  have "win_time t = of_nat ?n" unfolding win_time_def u by simp
  moreover have "unat (of_nat ?n :: u32) = ?n" using n by (intro unat_of_nat_less) simp
  ultimately show "unat (win_time t) = ?n" by (simp only:)
  with n show "unat (win_time t) < 86400000" by (simp only:)
qed

theorem windows_clock_wraps:
  assumes "valid_time t"
  shows "win_time t < 86400000 \<and>
    win_time \<lparr>wHour = 0, wMinute = 0, wSecond = 0, wMilliseconds = 0\<rparr> < win_time \<lparr>wHour = 23, wMinute = 59, wSecond = 59, wMilliseconds = 999\<rparr>"
  using win_time_value(2) [OF assms] by (simp add: word_less_nat_alt win_time_def)

text \<open>
  After an error of \<open>send\<close> the handle is closed but kept as the socket, so that later calls use a closed handle; when
  \<open>send\<close> accepts a part of the data, as a non-blocking socket may, the rest is not sent.
\<close>

theorem windows_write_outcome:
  assumes "ws_socket w = Some h" "ws_handles w = [h]"
  shows "ws_handles (win_write (-1) data w) = [] \<and> ws_socket (win_write (-1) data w) = Some h \<and>
    ws_sent (win_write (int n) data w) = ws_sent w @ take n data"
  using assms by (simp add: win_write_def closesocket_def)

end
