(* ===== verification/Ring_Buffers.thy ===== *)
theory Ring_Buffers
  imports Prelude
begin

text \<open>
  The ring buffers between the node and the line: the DMA receive ring of \<open>STM32Hardware.h\<close>, the
  templates \<open>RingBufCPP\<close> (VEX V5) and \<open>Buffer\<close> (mbed). All three promise the contract of a bounded queue,
  stated as a locale below. Their indices never leave the range of their integer types, so they are
  natural numbers here.
\<close>

section \<open>Stretches of a ring\<close>

text \<open>\<open>n\<close> elements of a ring of \<open>m\<close> slots, from slot \<open>start\<close> on.\<close>

definition ring :: "nat \<Rightarrow> 'a list \<Rightarrow> nat \<Rightarrow> nat \<Rightarrow> 'a list" where
  "ring m buf start n = map (\<lambda>i. buf ! ((start + i) mod m)) [0..<n]"

lemma length_ring [simp]: "length (ring m buf start n) = n"
  by (simp add: ring_def)

lemma ring_0 [simp]: "ring m buf start 0 = []"
  by (simp add: ring_def)

lemma ring_nth: "i < n \<Longrightarrow> ring m buf start n ! i = buf ! ((start + i) mod m)"
  by (simp add: ring_def)

lemma ring_slot_neq:
  assumes "i < n" "n < m"
  shows "(start + i) mod m \<noteq> (start + n) mod (m :: nat)"
proof
  assume "(start + i) mod m = (start + n) mod m"
  then have "m dvd n - i" using mod_eq_dvd_iff_nat [of "start + i" "start + n" m] assms(1) by simp
  then show False using assms by (auto dest: dvd_imp_le)
qed

lemma ring_put:
  assumes "n < m" "m \<le> length buf"
  shows "ring m (buf[(start + n) mod m := x]) start (Suc n) = ring m buf start n @ [x]"
proof (rule nth_equalityI)
  fix i
  assume "i < length (ring m (buf[(start + n) mod m := x]) start (Suc n))"
  then have i: "i < Suc n" by simp
  have "(start + n) mod m < m" using assms(1) by simp
  then have "(start + n) mod m < length buf" using assms(2) by linarith
  then show "ring m (buf[(start + n) mod m := x]) start (Suc n) ! i = (ring m buf start n @ [x]) ! i"
    using i ring_slot_neq [of i n m start] assms by (cases "i = n") (auto simp: ring_nth nth_append)
qed simp

lemma ring_get: "ring m buf start (Suc n) = buf ! (start mod m) # ring m buf ((start + 1) mod m) n"
proof (rule nth_equalityI)
  fix i
  assume "i < length (ring m buf start (Suc n))"
  then have i: "i < Suc n" by simp
  show "ring m buf start (Suc n) ! i = (buf ! (start mod m) # ring m buf ((start + 1) mod m) n) ! i"
    using i by (cases i) (simp_all add: ring_nth mod_simps)
qed simp

lemma ring_start_mod: "ring m buf (start mod m) n = ring m buf start n"
  by (simp add: ring_def mod_simps)

lemma ring_append: "ring m buf start (n + k) = ring m buf start n @ ring m buf (start + n) k"
  by (rule nth_equalityI) (auto simp: ring_nth nth_append)

section \<open>The contract of a bounded queue\<close>

locale bounded_queue =
  fixes inv :: "'r \<Rightarrow> bool"
    and queue :: "'r \<Rightarrow> 'a list"
    and room_for :: "'r \<Rightarrow> nat"
    and enq :: "'a \<Rightarrow> 'r \<Rightarrow> 'r"
    and deq :: "'r \<Rightarrow> 'a option \<times> 'r"
  assumes enq_queue: "inv r \<Longrightarrow> length (queue r) < room_for r \<Longrightarrow>
      queue (enq x r) = queue r @ [x] \<and> inv (enq x r) \<and> room_for (enq x r) = room_for r"
    and deq_empty: "inv r \<Longrightarrow> queue r = [] \<Longrightarrow> deq r = (None, r)"
    and deq_queue: "inv r \<Longrightarrow> queue r = x # xs \<Longrightarrow>
      \<exists>r'. deq r = (Some x, r') \<and> queue r' = xs \<and> inv r' \<and> room_for r' = room_for r"

text \<open>A producer and a consumer in any order.\<close>

datatype 'a queue_op = Put 'a | Get

fun run_queue :: "('a \<Rightarrow> 'r \<Rightarrow> 'r) \<Rightarrow> ('r \<Rightarrow> 'a option \<times> 'r) \<Rightarrow> 'a queue_op list \<Rightarrow> 'r \<Rightarrow> 'a list \<times> 'r" where
  "run_queue enq deq [] r = ([], r)"
| "run_queue enq deq (Put x # ops) r = run_queue enq deq ops (enq x r)"
| "run_queue enq deq (Get # ops) r =
     (case deq r of
        (None, r') \<Rightarrow> run_queue enq deq ops r'
      | (Some x, r') \<Rightarrow> (case run_queue enq deq ops r' of (out, r'') \<Rightarrow> (x # out, r'')))"

fun puts :: "'a queue_op list \<Rightarrow> 'a list" where
  "puts [] = []"
| "puts (Put x # ops) = x # puts ops"
| "puts (Get # ops) = puts ops"

text \<open>The producer never finds the queue full.\<close>

fun never_full :: "nat \<Rightarrow> nat \<Rightarrow> 'a queue_op list \<Rightarrow> bool" where
  "never_full cap n [] = True"
| "never_full cap n (Put x # ops) = (n < cap \<and> never_full cap (Suc n) ops)"
| "never_full cap n (Get # ops) = never_full cap (n - 1) ops"

context bounded_queue
begin

lemma run_queue_fifo:
  assumes "inv r" "never_full (room_for r) (length (queue r)) ops" "run_queue enq deq ops r = (out, r')"
  shows "out @ queue r' = queue r @ puts ops \<and> inv r'"
  using assms
proof (induction ops arbitrary: r out)
  case (Cons op ops)
  show ?case
  proof (cases op)
    case (Put x)
    have q: "queue (enq x r) = queue r @ [x]" "inv (enq x r)" "room_for (enq x r) = room_for r"
      using enq_queue Cons.prems Put by auto
    show ?thesis using Cons.IH [OF q(2)] Cons.prems Put by (simp add: q)
  next
    case Get
    show ?thesis
    proof (cases "queue r")
      case Nil
      then show ?thesis using Cons.IH [OF Cons.prems(1)] Cons.prems deq_empty [OF Cons.prems(1) Nil] Get by simp
    next
      case (Cons x xs)
      obtain r1 where r1: "deq r = (Some x, r1)" "queue r1 = xs" "inv r1" "room_for r1 = room_for r"
        using deq_queue [OF \<open>inv r\<close> Cons] by blast
      obtain out1 where o1: "run_queue enq deq ops r1 = (out1, r')" "out = x # out1"
        using \<open>run_queue enq deq (op # ops) r = (out, r')\<close> Get r1(1) by (auto split: prod.splits)
      show ?thesis
        using Cons.IH [OF r1(3) _ o1(1)] \<open>never_full (room_for r) (length (queue r)) (op # ops)\<close> Get Cons
        by (simp add: r1 o1(2))
    qed
  qed
qed simp

end

section \<open>RingBufCPP\<close>

record 'a ring_buf =
  rb_buf :: "'a list"
  rb_head :: nat
  rb_numElements :: nat

definition rb_MaxElements :: "'a ring_buf \<Rightarrow> nat" where
  "rb_MaxElements r = length (rb_buf r)"

definition new_RingBufCPP :: "'a list \<Rightarrow> 'a ring_buf" where
  "new_RingBufCPP junk = \<lparr>rb_buf = junk, rb_head = 0, rb_numElements = 0\<rparr>"

definition rb_isFull :: "'a ring_buf \<Rightarrow> bool" where
  "rb_isFull r \<longleftrightarrow> rb_numElements r \<ge> rb_MaxElements r"

definition rb_isEmpty :: "'a ring_buf \<Rightarrow> bool" where
  "rb_isEmpty r \<longleftrightarrow> rb_numElements r = 0"

definition rb_getTail :: "'a ring_buf \<Rightarrow> nat" where
  "rb_getTail r = (rb_head r + (rb_MaxElements r - rb_numElements r)) mod rb_MaxElements r"

definition rb_add :: "'a \<Rightarrow> 'a ring_buf \<Rightarrow> bool \<times> 'a ring_buf" where
  "rb_add obj r =
     (if \<not> rb_isFull r
      then (True, r\<lparr>rb_buf := (rb_buf r)[rb_head r := obj], rb_head := (rb_head r + 1) mod rb_MaxElements r,
                    rb_numElements := rb_numElements r + 1\<rparr>)
      else (False, r))"

definition rb_pull :: "'a ring_buf \<Rightarrow> 'a option \<times> 'a ring_buf" where
  "rb_pull r =
     (if \<not> rb_isEmpty r
      then (Some (rb_buf r ! rb_getTail r), r\<lparr>rb_numElements := rb_numElements r - 1\<rparr>)
      else (None, r))"

definition rb_peek :: "nat \<Rightarrow> 'a ring_buf \<Rightarrow> 'a option" where
  "rb_peek num r =
     (if num < rb_numElements r then Some (rb_buf r ! ((rb_getTail r + num) mod rb_MaxElements r)) else None)"

definition rb_inv :: "'a ring_buf \<Rightarrow> bool" where
  "rb_inv r \<longleftrightarrow> 0 < rb_MaxElements r \<and> rb_head r < rb_MaxElements r \<and> rb_numElements r \<le> rb_MaxElements r"

definition rb_queue :: "'a ring_buf \<Rightarrow> 'a list" where
  "rb_queue r = ring (rb_MaxElements r) (rb_buf r) (rb_getTail r) (rb_numElements r)"

lemma rb_head_tail: "rb_inv r \<Longrightarrow> (rb_getTail r + rb_numElements r) mod rb_MaxElements r = rb_head r"
  by (simp add: rb_inv_def rb_getTail_def mod_simps)

lemma rb_add_queue:
  assumes inv: "rb_inv r" and n: "length (rb_queue r) < rb_MaxElements r"
  shows "rb_queue (snd (rb_add x r)) = rb_queue r @ [x]" "rb_inv (snd (rb_add x r))"
    "rb_MaxElements (snd (rb_add x r)) = rb_MaxElements r" "fst (rb_add x r)"
proof -
  let ?m = "rb_MaxElements r" and ?n = "rb_numElements r" and ?t = "rb_getTail r"
  have lt: "?n < ?m" using n by (simp add: rb_queue_def)
  let ?r = "r\<lparr>rb_buf := (rb_buf r)[rb_head r := x], rb_head := (rb_head r + 1) mod ?m, rb_numElements := ?n + 1\<rparr>"
  have a: "rb_add x r = (True, ?r)" using lt by (simp add: rb_add_def rb_isFull_def)
  have m: "rb_MaxElements ?r = ?m" by (simp add: rb_MaxElements_def)
  have t: "rb_getTail ?r = ?t"
  proof -
    have "rb_head r + 1 + (?m - (?n + 1)) = rb_head r + (?m - ?n)" using lt by simp
    moreover have "rb_getTail ?r = (rb_head r + 1 + (?m - (?n + 1))) mod ?m"
      using mod_add_left_eq [of "rb_head r + 1" ?m "?m - (?n + 1)"] unfolding rb_getTail_def m by simp
    ultimately show ?thesis by (simp only: rb_getTail_def)
  qed
  have "rb_queue ?r = ring ?m ((rb_buf r)[(?t + ?n) mod ?m := x]) ?t (Suc ?n)"
    unfolding rb_queue_def m t by (simp add: rb_head_tail [OF inv])
  also have "\<dots> = rb_queue r @ [x]"
    unfolding rb_queue_def using lt by (intro ring_put) (simp_all add: rb_MaxElements_def)
  finally show "rb_queue (snd (rb_add x r)) = rb_queue r @ [x]" by (simp add: a)
  show "rb_inv (snd (rb_add x r))" using inv lt unfolding a snd_conv rb_inv_def m by simp
  show "rb_MaxElements (snd (rb_add x r)) = rb_MaxElements r" "fst (rb_add x r)" using m by (simp_all add: a)
qed

lemma rb_pull_queue:
  assumes inv: "rb_inv r" and q: "rb_queue r = x # xs"
  shows "\<exists>r'. rb_pull r = (Some x, r') \<and> rb_queue r' = xs \<and> rb_inv r' \<and> rb_MaxElements r' = rb_MaxElements r"
proof -
  let ?m = "rb_MaxElements r" and ?t = "rb_getTail r"
  obtain n where n: "rb_numElements r = Suc n" using q by (cases "rb_numElements r") (simp_all add: rb_queue_def)
  let ?r = "r\<lparr>rb_numElements := n\<rparr>"
  have tm: "?t mod ?m = ?t" by (simp add: rb_getTail_def)
  have m: "rb_MaxElements ?r = ?m" by (simp add: rb_MaxElements_def)
  have t: "rb_getTail ?r = (?t + 1) mod ?m"
    using inv n by (simp add: rb_getTail_def m mod_simps rb_inv_def Suc_diff_Suc)
  have "x # xs = rb_buf r ! ?t # ring ?m (rb_buf r) ((?t + 1) mod ?m) n"
    using q ring_get [of ?m "rb_buf r" ?t n] by (simp add: rb_queue_def n tm)
  then have "x = rb_buf r ! ?t" "rb_queue ?r = xs" by (simp_all add: rb_queue_def m t)
  moreover have "rb_pull r = (Some (rb_buf r ! ?t), ?r)" by (simp add: rb_pull_def rb_isEmpty_def n)
  moreover have "rb_inv ?r" using inv n by (simp add: rb_inv_def m)
  ultimately show ?thesis using m by blast
qed

interpretation rbq: bounded_queue rb_inv rb_queue rb_MaxElements "\<lambda>x r. snd (rb_add x r)" rb_pull
proof (unfold_locales, goal_cases)
  case (1 r x)
  then show ?case using rb_add_queue [of r x] by simp
next
  case (2 r)
  then have "rb_numElements r = 0" by (metis length_ring list.size(3) rb_queue_def)
  then show ?case by (simp add: rb_pull_def rb_isEmpty_def)
next
  case (3 r x xs)
  then show ?case by (rule rb_pull_queue)
qed

text \<open>
  \<open>RingBufCPP\<close> is a queue of \<open>MaxElements\<close> elements: what a consumer pulls, followed by what is still
  stored, is what the producer added, in order, for every interleaving in which the producer does not
  meet a full buffer; a full buffer refuses the element and stays as it is.
\<close>

theorem ring_buf_fifo:
  assumes "0 < length junk" "never_full (length junk) 0 ops"
    and "run_queue (\<lambda>x r. snd (rb_add x r)) rb_pull ops (new_RingBufCPP junk) = (out, r)"
  shows "out @ rb_queue r = puts ops \<and> rb_inv r \<and> (rb_isFull r \<longrightarrow> rb_add x r = (False, r))"
proof -
  have "rb_inv (new_RingBufCPP junk)" "rb_queue (new_RingBufCPP junk) = []"
      "rb_MaxElements (new_RingBufCPP junk) = length junk"
    using assms(1) by (simp_all add: new_RingBufCPP_def rb_inv_def rb_queue_def rb_MaxElements_def)
  then show ?thesis
    using rbq.run_queue_fifo [of "new_RingBufCPP junk" ops out r] assms(2,3) by (simp add: rb_add_def)
qed

theorem ring_buf_fifo_witness:
  "\<exists>out r. run_queue (\<lambda>x r. snd (rb_add x r)) rb_pull [Put 1, Put 2, Get, Put (3 :: u8)] (new_RingBufCPP [0, 0]) = (out, r) \<and>
     out @ rb_queue r = [1, 2, 3]"
proof -
  obtain out r where r: "run_queue (\<lambda>x r. snd (rb_add x r)) rb_pull [Put 1, Put 2, Get, Put (3 :: u8)] (new_RingBufCPP [0, 0]) = (out, r)"
    by fastforce
  show ?thesis using ring_buf_fifo [OF _ _ r] r by (intro exI conjI) auto
qed

section \<open>The Buffer template of mbed\<close>

record 'a buffer =
  bf_buf :: "'a list"
  bf_wloc :: nat
  bf_rloc :: nat

definition bf_size :: "'a buffer \<Rightarrow> nat" where
  "bf_size b = length (bf_buf b)"

definition bf_clear :: "u8 buffer \<Rightarrow> u8 buffer" where
  "bf_clear b = b\<lparr>bf_wloc := 0, bf_rloc := 0, bf_buf := replicate (bf_size b) 0\<rparr>"

definition new_Buffer :: "u8 list \<Rightarrow> u8 buffer" where
  "new_Buffer junk = bf_clear \<lparr>bf_buf = junk, bf_wloc = 0, bf_rloc = 0\<rparr>"

definition bf_put :: "'a \<Rightarrow> 'a buffer \<Rightarrow> 'a buffer" where
  "bf_put data b =
     b\<lparr>bf_buf := (bf_buf b)[bf_wloc b := data], bf_wloc := (bf_wloc b + 1) mod (bf_size b - 1)\<rparr>"

definition bf_get :: "'a buffer \<Rightarrow> 'a \<times> 'a buffer" where
  "bf_get b = (bf_buf b ! bf_rloc b, b\<lparr>bf_rloc := (bf_rloc b + 1) mod (bf_size b - 1)\<rparr>)"

definition bf_available :: "'a buffer \<Rightarrow> bool" where
  "bf_available b \<longleftrightarrow> bf_wloc b \<noteq> bf_rloc b"

text \<open>How every caller reads: \<open>get\<close> behind \<open>available\<close>.\<close>

definition bf_read :: "'a buffer \<Rightarrow> 'a option \<times> 'a buffer" where
  "bf_read b = (if bf_available b then (case bf_get b of (x, b') \<Rightarrow> (Some x, b')) else (None, b))"

definition bf_inv :: "'a buffer \<Rightarrow> bool" where
  "bf_inv b \<longleftrightarrow> 2 \<le> bf_size b \<and> bf_wloc b < bf_size b - 1 \<and> bf_rloc b < bf_size b - 1"

definition bf_count :: "'a buffer \<Rightarrow> nat" where
  "bf_count b = (bf_wloc b + (bf_size b - 1 - bf_rloc b)) mod (bf_size b - 1)"

definition bf_queue :: "'a buffer \<Rightarrow> 'a list" where
  "bf_queue b = ring (bf_size b - 1) (bf_buf b) (bf_rloc b) (bf_count b)"

text \<open>Counting slots between two positions of a ring of \<open>m\<close> slots.\<close>

lemma ring_distance:
  fixes w r m :: nat
  assumes "w < m" "r < m"
  shows "(r + (w + (m - r)) mod m) mod m = w" "(w + (m - r)) mod m = 0 \<longleftrightarrow> w = r"
    "(w + (m - r)) mod m + 1 < m \<Longrightarrow> ((w + 1) mod m + (m - r)) mod m = (w + (m - r)) mod m + 1"
    "w \<noteq> r \<Longrightarrow> (w + (m - (r + 1) mod m)) mod m = (w + (m - r)) mod m - 1"
proof -
  have d: "(w + (m - r)) mod m = (if r \<le> w then w - r else w + (m - r))"
  proof (cases "r \<le> w")
    case True
    then have "w + (m - r) = (w - r) + m" using assms by simp
    then have "(w + (m - r)) mod m = (w - r) mod m" by (simp only: mod_add_self2)
    then show ?thesis using assms True by simp
  qed (use assms in simp)
  show "(r + (w + (m - r)) mod m) mod m = w" unfolding d using assms by auto
  show "(w + (m - r)) mod m = 0 \<longleftrightarrow> w = r" unfolding d using assms by auto
  show "((w + 1) mod m + (m - r)) mod m = (w + (m - r)) mod m + 1" if "(w + (m - r)) mod m + 1 < m"
  proof -
    have "((w + 1) mod m + (m - r)) mod m = Suc (w + (m - r)) mod m"
      using mod_add_left_eq [of "w + 1" m "m - r"] by simp
    then show ?thesis using that by (simp only: mod_Suc) simp
  qed
  show "(w + (m - (r + 1) mod m)) mod m = (w + (m - r)) mod m - 1" if ne: "w \<noteq> r"
  proof (cases "r + 1 = m")
    case True
    then show ?thesis unfolding d using assms ne by auto
  next
    case False
    then have r1: "(r + 1) mod m = r + 1" "r + 1 < m" using assms by simp_all
    show ?thesis
    proof (cases "r \<le> w")
      case True
      then have "w + (m - (r + 1)) = (w - (r + 1)) + m" using ne r1(2) by simp
      then have "(w + (m - (r + 1))) mod m = (w - (r + 1)) mod m" by (simp only: mod_add_self2)
      then show ?thesis unfolding d r1(1) using True assms by simp
    next
      case False
      then show ?thesis unfolding d r1(1) using assms by simp
    qed
  qed
qed

lemma bf_queue_empty: "bf_inv b \<Longrightarrow> bf_queue b = [] \<longleftrightarrow> \<not> bf_available b"
  using ring_distance(2) [of "bf_wloc b" "bf_size b - 1" "bf_rloc b"]
  by (auto simp: bf_queue_def bf_available_def bf_inv_def bf_count_def ring_def)

lemma bf_put_queue:
  assumes inv: "bf_inv b" and n: "length (bf_queue b) < bf_size b - 2"
  shows "bf_queue (bf_put x b) = bf_queue b @ [x]" "bf_inv (bf_put x b)" "bf_size (bf_put x b) = bf_size b"
proof -
  let ?m = "bf_size b - 1"
  have w: "bf_wloc b < ?m" "bf_rloc b < ?m" using inv by (simp_all add: bf_inv_def)
  have s: "bf_size (bf_put x b) = bf_size b" by (simp add: bf_put_def bf_size_def)
  have lt: "bf_count b + 1 < ?m" using n by (simp add: bf_queue_def)
  have c: "bf_count (bf_put x b) = Suc (bf_count b)"
    using ring_distance(3) [OF w] lt unfolding bf_count_def s by (simp add: bf_put_def)
  have e: "(bf_rloc b + bf_count b) mod ?m = bf_wloc b" using ring_distance(1) [OF w] by (simp add: bf_count_def)
  have "bf_queue (bf_put x b) = ring ?m ((bf_buf b)[(bf_rloc b + bf_count b) mod ?m := x]) (bf_rloc b) (Suc (bf_count b))"
    unfolding bf_queue_def s c e by (simp add: bf_put_def)
  also have "\<dots> = bf_queue b @ [x]"
    unfolding bf_queue_def using lt by (intro ring_put) (simp_all add: bf_size_def)
  finally show "bf_queue (bf_put x b) = bf_queue b @ [x]" .
  have "bf_wloc (bf_put x b) < ?m" using lt by (simp add: bf_put_def)
  then show "bf_inv (bf_put x b)" using inv w s by (simp add: bf_inv_def) (simp add: bf_put_def)
  show "bf_size (bf_put x b) = bf_size b" by (rule s)
qed

lemma bf_read_queue:
  assumes inv: "bf_inv b" and q: "bf_queue b = x # xs"
  shows "\<exists>b'. bf_read b = (Some x, b') \<and> bf_queue b' = xs \<and> bf_inv b' \<and> bf_size b' = bf_size b"
proof -
  let ?m = "bf_size b - 1" and ?b = "snd (bf_get b)"
  have w: "bf_wloc b < ?m" "bf_rloc b < ?m" using inv by (simp_all add: bf_inv_def)
  have av: "bf_available b" using bf_queue_empty [OF inv] q by simp
  then have ne: "bf_wloc b \<noteq> bf_rloc b" by (simp add: bf_available_def)
  have s: "bf_size ?b = bf_size b" by (simp add: bf_get_def bf_size_def)
  have c: "bf_count ?b = bf_count b - 1"
    using ring_distance(4) [OF w ne] unfolding bf_count_def s by (simp add: bf_get_def)
  obtain n where n: "bf_count b = Suc n" using q by (cases "bf_count b") (simp_all add: bf_queue_def)
  have "x # xs = bf_buf b ! bf_rloc b # ring ?m (bf_buf b) ((bf_rloc b + 1) mod ?m) n"
    using q ring_get [of ?m "bf_buf b" "bf_rloc b" n] w by (simp add: bf_queue_def n)
  then have "x = bf_buf b ! bf_rloc b" "bf_queue ?b = xs"
    unfolding bf_queue_def s c n by (simp_all add: bf_get_def)
  moreover have "bf_inv ?b" using inv w s by (simp add: bf_inv_def) (simp add: bf_get_def)
  moreover have "bf_read b = (Some (bf_buf b ! bf_rloc b), ?b)" using av by (simp add: bf_read_def bf_get_def)
  ultimately show ?thesis using s by blast
qed

interpretation bfq: bounded_queue bf_inv bf_queue "\<lambda>b. bf_size b - 2" bf_put bf_read
proof (unfold_locales, goal_cases)
  case (1 r x)
  then show ?case using bf_put_queue [of r x] by simp
next
  case (2 r)
  then show ?case using bf_queue_empty [of r] by (simp add: bf_read_def)
next
  case (3 r x xs)
  then show ?case using bf_read_queue [of r x xs] by auto
qed

end
