(* ===== verification/V5_Hardware.thy ===== *)
theory V5_Hardware
  imports Ring_Buffers
begin

text \<open>
  The serial port of the VEX V5, \<open>V5Hardware.h\<close>, over the ring buffer of \<open>RingBuf.h\<close>: a task stores what arrives,
  \<open>read\<close> takes it out again. Whether the type \<open>char\<close> of the compiler is signed is an argument. \<open>v5_out\<close> has the
  bytes written to the port.
\<close>

record v5_hardware =
  v5_input :: "u8 ring_buf"
  v5_out :: "u8 list"

definition ROSVEX_BUFFER_INPUT_SIZE :: nat where "ROSVEX_BUFFER_INPUT_SIZE = 32"

definition new_V5Hardware :: "u8 list \<Rightarrow> v5_hardware" where
  "new_V5Hardware junk = \<lparr>v5_input = new_RingBufCPP (take ROSVEX_BUFFER_INPUT_SIZE junk), v5_out = []\<rparr>"

text \<open>One round of the reader task; \<open>fgetc\<close> answers a byte or \<open>EOF\<close>, which is -1.\<close>

definition vexRosBufferInput :: "int \<Rightarrow> v5_hardware \<Rightarrow> v5_hardware" where
  "vexRosBufferInput answer h = h\<lparr>v5_input := snd (rb_add (of_int answer) (v5_input h))\<rparr>"

definition char_value :: "bool \<Rightarrow> u8 \<Rightarrow> int" where
  "char_value char_signed c = (if char_signed then sint c else uint c)"

definition v5_read :: "bool \<Rightarrow> v5_hardware \<Rightarrow> int \<times> v5_hardware" where
  "v5_read char_signed h =
     (case rb_pull (v5_input h) of
        (Some c, r) \<Rightarrow> (char_value char_signed c, h\<lparr>v5_input := r\<rparr>)
      | (None, r) \<Rightarrow> (-1, h\<lparr>v5_input := r\<rparr>))"

definition vexroswritechar :: "u8 \<Rightarrow> v5_hardware \<Rightarrow> v5_hardware" where
  "vexroswritechar data h = h\<lparr>v5_out := v5_out h @ [data]\<rparr>"

definition v5_write :: "u8 list \<Rightarrow> v5_hardware \<Rightarrow> v5_hardware" where
  "v5_write data h = fold vexroswritechar data h"

section \<open>The port as a pair of queues\<close>

datatype v5_event = V5_arrives int | V5_reads | V5_writes "u8 list"

fun v5_step :: "bool \<Rightarrow> v5_event \<Rightarrow> v5_hardware \<Rightarrow> int list \<times> v5_hardware" where
  "v5_step sg (V5_arrives a) h = ([], vexRosBufferInput a h)"
| "v5_step sg V5_reads h = (case v5_read sg h of (c, h') \<Rightarrow> ([c], h'))"
| "v5_step sg (V5_writes bs) h = ([], v5_write bs h)"

text \<open>What the port does, on the queue of bytes that have arrived and not been read, and the bytes written.\<close>

fun v5_spec :: "bool \<Rightarrow> nat \<Rightarrow> v5_event \<Rightarrow> u8 list \<times> u8 list \<Rightarrow> int list \<times> u8 list \<times> u8 list" where
  "v5_spec sg cap (V5_arrives a) (q, w) = ([], (if length q < cap then q @ [of_int a] else q), w)"
| "v5_spec sg cap V5_reads (q, w) = (case q of [] \<Rightarrow> ([-1], [], w) | c # q' \<Rightarrow> ([char_value sg c], q', w))"
| "v5_spec sg cap (V5_writes bs) (q, w) = ([], q, w @ bs)"

lemma v5_write_out: "v5_write bs h = h\<lparr>v5_out := v5_out h @ bs\<rparr>"
  unfolding v5_write_def
  by (induction bs arbitrary: h) (simp_all add: vexroswritechar_def)

lemma rb_full: "rb_inv r \<Longrightarrow> \<not> length (rb_queue r) < rb_MaxElements r \<Longrightarrow> rb_add x r = (False, r)"
  by (simp add: rb_add_def rb_isFull_def rb_queue_def)

lemma rb_empty: "rb_queue r = [] \<Longrightarrow> rb_pull r = (None, r)"
  by (metis length_ring list.size(3) rb_isEmpty_def rb_pull_def rb_queue_def)

text \<open>
  The V5 port implements its queues: every event, on any state of the ring, gives the results of the queue and
  leads to the state with the new queue. A byte that finds the ring full is dropped.
\<close>

theorem v5_refines_queue:
  assumes "rb_inv (v5_input h)" "v5_step sg e h = (out, h')"
  shows "rb_inv (v5_input h') \<and> rb_MaxElements (v5_input h') = rb_MaxElements (v5_input h) \<and>
    v5_spec sg (rb_MaxElements (v5_input h)) e (rb_queue (v5_input h), v5_out h) = (out, rb_queue (v5_input h'), v5_out h')"
proof (cases e)
  case (V5_arrives a)
  then show ?thesis
    using assms rb_add_queue [OF assms(1)] rb_full [OF assms(1)]
    by (cases "length (rb_queue (v5_input h)) < rb_MaxElements (v5_input h)") (auto simp: vexRosBufferInput_def)
next
  case V5_reads
  show ?thesis
  proof (cases "rb_queue (v5_input h)")
    case Nil
    then show ?thesis using assms V5_reads rb_empty [OF Nil] by (auto simp: v5_read_def)
  next
    case (Cons c q)
    then show ?thesis using assms V5_reads rb_pull_queue [OF assms(1) Cons] by (auto simp: v5_read_def)
  qed
next
  case (V5_writes bs)
  then show ?thesis using assms by (auto simp: v5_write_out)
qed

text \<open>
  Where \<open>char\<close> is signed, the byte 255, which starts every frame of the protocol, is taken out of the ring and
  reported as the absence of data.
\<close>

theorem v5_sync_byte_vanishes:
  assumes "rb_inv (v5_input h)" "rb_queue (v5_input h) = 255 # q"
  shows "\<exists>h'. v5_read True h = (-1, h') \<and> rb_queue (v5_input h') = q \<and> (\<exists>h'. v5_read False h = (255, h'))"
proof -
  have "char_value True 255 = -1" "char_value False 255 = 255" by (simp_all add: char_value_def)
  then show ?thesis using rb_pull_queue [OF assms] by (auto simp: v5_read_def)
qed

end
