(* ===== verification/Node_Topics.thy ===== *)
theory Node_Topics
  imports Client_Spin
begin

text \<open>
  The topic tables of the nodes. Registering an object puts its address into the first free slot of a
  table and derives its topic id from the slot; the locale \<open>slot_table\<close> states this once, and it is
  interpreted on the publishers and the subscribers of the device node and of the ROS 1 client node. The
  ids of the registered objects are distinct as long as no object is registered twice, and the device
  node announces every registered object.
\<close>

section \<open>Parameters\<close>

text \<open>
  The bodies of the parameter requests are disabled in the device node: they report failure and leave the
  array of the caller as it is.
\<close>

definition requestParam :: "string \<Rightarrow> int \<Rightarrow> 'a node_handle \<Rightarrow> bool \<times> 'a node_handle" where
  "requestParam name time_out nh = (True, nh)"

definition getParam_int :: "string \<Rightarrow> int list \<Rightarrow> int \<Rightarrow> int \<Rightarrow> 'a node_handle \<Rightarrow> bool \<times> int list \<times> 'a node_handle" where
  "getParam_int name param len timeout nh = (False, param, nh)"

definition getParam_float :: "string \<Rightarrow> u32 list \<Rightarrow> int \<Rightarrow> int \<Rightarrow> 'a node_handle \<Rightarrow> bool \<times> u32 list \<times> 'a node_handle" where
  "getParam_float name param len timeout nh = (False, param, nh)"

definition getParam_string ::
  "string \<Rightarrow> string list \<Rightarrow> int \<Rightarrow> int \<Rightarrow> 'a node_handle \<Rightarrow> bool \<times> string list \<times> 'a node_handle"
where
  "getParam_string name param len timeout nh = (False, param, nh)"

definition getParam_bool :: "string \<Rightarrow> bool list \<Rightarrow> int \<Rightarrow> int \<Rightarrow> 'a node_handle \<Rightarrow> bool \<times> bool list \<times> 'a node_handle" where
  "getParam_bool name param len timeout nh = (False, param, nh)"

text \<open>
  A node that was started with a port name works on CDR buffers nobody initialised: they are the ones it was
  constructed with, whereas \<open>initNode\<close> without a name sets both up.
\<close>

theorem named_init_buffers:
  "nh_output_cdr (initNode_named (new_NodeHandle E garbage pubs subs app)) = garbage \<and>
   nh_input_cdr (initNode_named (new_NodeHandle E garbage pubs subs app)) = garbage \<and>
   nh_output_cdr (initNode E (new_NodeHandle E garbage pubs subs app)) =
     ucdr_init_buffer (message_out E + 7) (OUTPUT_SIZE E - 7)"
  by (simp add: initNode_named_def initNode_def new_NodeHandle_def)

section \<open>Registering objects in a table\<close>

locale slot_table =
  fixes register :: "nat \<Rightarrow> 's \<Rightarrow> bool \<times> 's"
    and table :: "'s \<Rightarrow> nat option list"
    and ident :: "'s \<Rightarrow> nat \<Rightarrow> int"
    and base :: int
  assumes register_full: "None \<notin> set (table st) \<Longrightarrow> register x st = (False, st)"
    and register_free: "None \<in> set (table st) \<Longrightarrow>
      \<exists>i st'. register x st = (True, st') \<and> i < length (table st) \<and> table st ! i = None \<and>
        table st' = (table st)[i := Some x] \<and> ident st' = (ident st)(x := base + int i)"
begin

text \<open>The id of an object is given by its slot.\<close>

definition ids_ok :: "'s \<Rightarrow> bool" where
  "ids_ok st \<longleftrightarrow> (\<forall>i < length (table st). \<forall>x. table st ! i = Some x \<longrightarrow> ident st x = base + int i)"

lemma ids_okD: "ids_ok st \<Longrightarrow> i < length (table st) \<Longrightarrow> table st ! i = Some x \<Longrightarrow> ident st x = base + int i"
  by (simp add: ids_ok_def)

lemma register_length: "length (table (snd (register x st))) = length (table st)"
  using register_full [of st x] register_free [of st x] by (cases "None \<in> set (table st)") auto

lemma register_ids_ok:
  assumes "ids_ok st" "Some x \<notin> set (table st)"
  shows "ids_ok (snd (register x st))"
proof (cases "None \<in> set (table st)")
  case True
  then obtain i st' where r: "register x st = (True, st')" "i < length (table st)"
      "table st' = (table st)[i := Some x]" "ident st' = (ident st)(x := base + int i)"
    using register_free by blast
  have "ident st' y = base + int j" if "j < length (table st')" "table st' ! j = Some y" for j y
  proof (cases "j = i")
    case False
    then have "table st ! j = Some y" "j < length (table st)" using that r(3) by simp_all
    moreover from this have "y \<noteq> x" using assms(2) nth_mem by fastforce
    ultimately show ?thesis using ids_okD [OF assms(1)] r(4) by simp
  qed (use that r in simp)
  then show ?thesis using r(1) by (simp add: ids_ok_def)
next
  case False
  then show ?thesis using register_full assms(1) by simp
qed

lemma register_members:
  "set (table (snd (register x st))) \<subseteq> insert (Some x) (set (table st))"
  using register_full [of st x] register_free [of st x] set_update_subset_insert
  by (cases "None \<in> set (table st)") fastforce+

lemma ids_distinct:
  assumes "ids_ok st" "Some x \<in> set (table st)" "Some y \<in> set (table st)" "ident st x = ident st y"
  shows "x = y"
proof -
  obtain i j where "i < length (table st)" "table st ! i = Some x" "j < length (table st)" "table st ! j = Some y"
    using assms(2,3) by (metis in_set_conv_nth)
  then show ?thesis using ids_okD [OF assms(1)] assms(4) by fastforce
qed

lemma ids_range:
  assumes "ids_ok st" "Some x \<in> set (table st)"
  shows "base \<le> ident st x \<and> ident st x < base + int (length (table st))"
  using assms ids_okD [OF assms(1)] by (auto simp: in_set_conv_nth)

lemma ids_lookup:
  assumes "ids_ok st" "Some x \<in> set (table st)"
  shows "table st ! nat (ident st x - base) = Some x"
  using assms ids_okD [OF assms(1)] by (auto simp: in_set_conv_nth)

end

section \<open>The tables of the nodes\<close>

lemma first_free_None: "first_free slots = None \<longleftrightarrow> None \<notin> set slots"
  by (auto simp: first_free_def find_None_iff in_set_conv_nth)

lemma first_free_Some: "first_free slots = Some i \<Longrightarrow> i < length slots \<and> slots ! i = None"
  by (auto simp: first_free_def find_Some_iff)

lemma first_free_ex: "None \<in> set slots \<Longrightarrow> \<exists>i. first_free slots = Some i \<and> i < length slots \<and> slots ! i = None"
  using first_free_None [of slots] first_free_Some [of slots] by (cases "first_free slots") auto

interpretation pubs: slot_table "advertise E" nh_publishers "\<lambda>nh p. pub_id (nh_pub_obj nh p)" "100 + int (MAX_SUBSCRIBERS E)" for E
proof
  fix nh :: "'a node_handle" and p
  show "None \<notin> set (nh_publishers nh) \<Longrightarrow> advertise E p nh = (False, nh)"
    by (simp add: advertise_def first_free_None [THEN iffD2])
  assume "None \<in> set (nh_publishers nh)"
  then show "\<exists>i nh'. advertise E p nh = (True, nh') \<and> i < length (nh_publishers nh) \<and> nh_publishers nh ! i = None \<and>
      nh_publishers nh' = (nh_publishers nh)[i := Some p] \<and>
      (\<lambda>p. pub_id (nh_pub_obj nh' p)) = (\<lambda>p. pub_id (nh_pub_obj nh p))(p := 100 + int (MAX_SUBSCRIBERS E) + int i)"
    using first_free_ex by (force simp: advertise_def)
qed

interpretation subs: slot_table subscribe nh_subscribers "\<lambda>nh s. sub_id (nh_sub_obj nh s)" 100
proof
  fix nh :: "'a node_handle" and s
  show "None \<notin> set (nh_subscribers nh) \<Longrightarrow> subscribe s nh = (False, nh)"
    by (simp add: subscribe_def first_free_None [THEN iffD2])
  assume "None \<in> set (nh_subscribers nh)"
  then show "\<exists>i nh'. subscribe s nh = (True, nh') \<and> i < length (nh_subscribers nh) \<and> nh_subscribers nh ! i = None \<and>
      nh_subscribers nh' = (nh_subscribers nh)[i := Some s] \<and>
      (\<lambda>s. sub_id (nh_sub_obj nh' s)) = (\<lambda>s. sub_id (nh_sub_obj nh s))(s := 100 + int i)"
    using first_free_ex by (force simp: subscribe_def)
qed

interpretation cl_pubs: slot_table "cl_advertise E" cn_publishers "\<lambda>st p. cp_id (cn_pub_obj st p)" "100 + int (ce_MAX_SUBSCRIBERS E)" for E
proof
  fix st :: "'a client_node" and p
  show "None \<notin> set (cn_publishers st) \<Longrightarrow> cl_advertise E p st = (False, st)"
    by (simp add: cl_advertise_def first_free_None [THEN iffD2])
  assume "None \<in> set (cn_publishers st)"
  then show "\<exists>i st'. cl_advertise E p st = (True, st') \<and> i < length (cn_publishers st) \<and> cn_publishers st ! i = None \<and>
      cn_publishers st' = (cn_publishers st)[i := Some p] \<and>
      (\<lambda>p. cp_id (cn_pub_obj st' p)) = (\<lambda>p. cp_id (cn_pub_obj st p))(p := 100 + int (ce_MAX_SUBSCRIBERS E) + int i)"
    using first_free_ex by (force simp: cl_advertise_def)
qed

interpretation cl_subs: slot_table cl_subscribe cn_subscribers "\<lambda>st s. cs_id (cn_sub_obj st s)" 100
proof
  fix st :: "'a client_node" and s
  show "None \<notin> set (cn_subscribers st) \<Longrightarrow> cl_subscribe s st = (False, st)"
    by (simp add: cl_subscribe_def first_free_None [THEN iffD2])
  assume "None \<in> set (cn_subscribers st)"
  then show "\<exists>i st'. cl_subscribe s st = (True, st') \<and> i < length (cn_subscribers st) \<and> cn_subscribers st ! i = None \<and>
      cn_subscribers st' = (cn_subscribers st)[i := Some s] \<and>
      (\<lambda>s. cs_id (cn_sub_obj st' s)) = (\<lambda>s. cs_id (cn_sub_obj st s))(s := 100 + int i)"
    using first_free_ex by (force simp: cl_subscribe_def)
qed


section \<open>Sequences of registrations\<close>

datatype registration = Advertise nat | Subscribe nat | Advertise_service nat | Service_client nat

fun register_one :: "'a nh_env \<Rightarrow> registration \<Rightarrow> 'a node_handle \<Rightarrow> 'a node_handle" where
  "register_one E (Advertise p) nh = snd (advertise E p nh)"
| "register_one E (Subscribe s) nh = snd (subscribe s nh)"
| "register_one E (Advertise_service s) nh = snd (advertiseService E s nh)"
| "register_one E (Service_client s) nh = snd (serviceClient E s nh)"

text \<open>The publisher and the subscriber objects a registration puts into the tables.\<close>

fun reg_pubs :: "(nat \<Rightarrow> nat) \<Rightarrow> registration \<Rightarrow> nat list" where
  "reg_pubs pub_of (Advertise p) = [p]"
| "reg_pubs pub_of (Subscribe s) = []"
| "reg_pubs pub_of (Advertise_service s) = [pub_of s]"
| "reg_pubs pub_of (Service_client s) = [pub_of s]"

fun reg_subs :: "registration \<Rightarrow> nat list" where
  "reg_subs (Advertise p) = []"
| "reg_subs (Subscribe s) = [s]"
| "reg_subs (Advertise_service s) = [s]"
| "reg_subs (Service_client s) = [s]"

lemma advertise_subs [simp]:
  "nh_subscribers (snd (advertise E p nh)) = nh_subscribers nh" "nh_sub_obj (snd (advertise E p nh)) = nh_sub_obj nh"
  by (simp_all add: advertise_def split: option.split)

lemma subscribe_pubs [simp]:
  "nh_publishers (snd (subscribe s nh)) = nh_publishers nh" "nh_pub_obj (snd (subscribe s nh)) = nh_pub_obj nh"
  by (simp_all add: subscribe_def split: option.split)

lemma subscribe_pub_of [simp]: "sub_pub (nh_sub_obj (snd (subscribe s nh)) x) = sub_pub (nh_sub_obj nh x)"
  by (simp add: subscribe_def split: option.split)

lemma service_registration:
  "snd (advertiseService E s nh) = snd (subscribe s (snd (advertise E (sub_pub (nh_sub_obj nh s)) nh)))"
  "snd (serviceClient E s nh) = snd (subscribe s (snd (advertise E (sub_pub (nh_sub_obj nh s)) nh)))"
  by (simp_all add: advertiseService_def serviceClient_def split: prod.split)

definition topics_ok :: "'a nh_env \<Rightarrow> 'a node_handle \<Rightarrow> bool" where
  "topics_ok E nh \<longleftrightarrow> pubs.ids_ok E nh \<and> subs.ids_ok nh"

lemma topics_ok_frame:
  "subs.ids_ok (snd (advertise E p nh)) = subs.ids_ok nh" "pubs.ids_ok E (snd (subscribe s nh)) = pubs.ids_ok E nh"
  by (simp_all add: subs.ids_ok_def pubs.ids_ok_def)

lemma register_one_ok:
  assumes "topics_ok E nh" "\<forall>p\<in>set (reg_pubs (\<lambda>s. sub_pub (nh_sub_obj nh s)) r). Some p \<notin> set (nh_publishers nh)"
    and "\<forall>s\<in>set (reg_subs r). Some s \<notin> set (nh_subscribers nh)"
  shows "topics_ok E (register_one E r nh)"
    "set (nh_publishers (register_one E r nh)) \<subseteq> Some ` set (reg_pubs (\<lambda>s. sub_pub (nh_sub_obj nh s)) r) \<union> set (nh_publishers nh)"
    "set (nh_subscribers (register_one E r nh)) \<subseteq> Some ` set (reg_subs r) \<union> set (nh_subscribers nh)"
    "(\<lambda>s. sub_pub (nh_sub_obj (register_one E r nh) s)) = (\<lambda>s. sub_pub (nh_sub_obj nh s))"
  using assms pubs.register_members [of E _ nh] subs.register_members
  by (cases r; auto simp: topics_ok_def topics_ok_frame service_registration
      intro!: pubs.register_ids_ok subs.register_ids_ok; fastforce)+

definition register_all :: "'a nh_env \<Rightarrow> registration list \<Rightarrow> 'a node_handle \<Rightarrow> 'a node_handle" where
  "register_all E rs nh = fold (register_one E) rs nh"

lemma register_one_length: "length (nh_subscribers (register_one E r nh)) = length (nh_subscribers nh)"
  by (cases r) (simp_all add: service_registration subs.register_length)

lemma register_all_length: "length (nh_subscribers (register_all E rs nh)) = length (nh_subscribers nh)"
  unfolding register_all_def by (induction rs arbitrary: nh) (simp_all add: register_one_length)

lemma fresh_step:
  "S' \<subseteq> Some ` A \<union> S \<Longrightarrow> A \<inter> B = {} \<Longrightarrow> \<forall>x\<in>B. Some x \<notin> S \<Longrightarrow> \<forall>x\<in>B. Some x \<notin> S'"
  by blast

lemma register_all_ok:
  assumes "topics_ok E nh"
    and "distinct (concat (map (reg_pubs (\<lambda>s. sub_pub (nh_sub_obj nh s))) rs))" "distinct (concat (map reg_subs rs))"
    and "\<forall>p\<in>set (concat (map (reg_pubs (\<lambda>s. sub_pub (nh_sub_obj nh s))) rs)). Some p \<notin> set (nh_publishers nh)"
    and "\<forall>s\<in>set (concat (map reg_subs rs)). Some s \<notin> set (nh_subscribers nh)"
  shows "topics_ok E (register_all E rs nh)"
  using assms
proof (induction rs arbitrary: nh)
  case (Cons r rs)
  have r: "topics_ok E nh" "\<forall>p\<in>set (reg_pubs (\<lambda>s. sub_pub (nh_sub_obj nh s)) r). Some p \<notin> set (nh_publishers nh)"
      "\<forall>s\<in>set (reg_subs r). Some s \<notin> set (nh_subscribers nh)"
    using Cons.prems by auto
  note one = register_one_ok [OF r]
  let ?P = "set (concat (map (reg_pubs (\<lambda>s. sub_pub (nh_sub_obj nh s))) rs))" and ?S = "set (concat (map reg_subs rs))"
  have "\<forall>p\<in>?P. Some p \<notin> set (nh_publishers (register_one E r nh))"
    by (rule fresh_step [OF one(2)]) (use Cons.prems in auto)
  moreover have "\<forall>s\<in>?S. Some s \<notin> set (nh_subscribers (register_one E r nh))"
    by (rule fresh_step [OF one(3)]) (use Cons.prems in auto)
  ultimately have "topics_ok E (register_all E rs (register_one E r nh))"
    by (intro Cons.IH [OF one(1)]) (use Cons.prems in \<open>simp_all add: fun_cong [OF one(4)]\<close>)
  then show ?case by (simp add: register_all_def)
qed (simp add: register_all_def)


section \<open>Announcing the topics\<close>

type_synonym announcement = "int \<times> msg"

definition publisher_announcements :: "'a nh_env \<Rightarrow> (nat \<Rightarrow> Publisher) \<Rightarrow> nat option list \<Rightarrow> announcement list" where
  "publisher_announcements E ob slots =
     map (\<lambda>p. (pub_endpoint (ob p), publisher_info E (ob p))) (List.map_filter id slots)"

definition subscriber_announcements :: "'a nh_env \<Rightarrow> (nat \<Rightarrow> Subscriber) \<Rightarrow> nat option list \<Rightarrow> announcement list" where
  "subscriber_announcements E ob slots =
     map (\<lambda>s. (sub_endpoint (ob s), subscriber_info E (ob s))) (List.map_filter id slots)"

definition announceable :: "'a nh_env \<Rightarrow> gen_env \<Rightarrow> announcement \<Rightarrow> bool" where
  "announceable E K a \<longleftrightarrow> 0 \<le> fst a \<and> fst a < 100 \<and> msg_valid K (fst (snd a)) (snd (snd a)) \<and>
     packet_size (snd a) + 7 < OUTPUT_SIZE E"

text \<open>The bytes of announcements whose payloads are given, and that the payloads are the right ones.\<close>

definition announcement_bytes :: "announcement list \<Rightarrow> u8 list list \<Rightarrow> u8 list" where
  "announcement_bytes as ps = concat (map2 (\<lambda>a p. frame (nat (fst a)) p) as ps)"

definition announces :: "gen_env \<Rightarrow> announcement list \<Rightarrow> u8 list list \<Rightarrow> bool" where
  "announces K as ps \<longleftrightarrow> list_all2 (\<lambda>a p. decodes K p (fst (snd a)) (snd (snd a))) as ps"

lemma publish_announcement:
  assumes "env_ok E" "nh_ok E nh" "announceable E K a"
  obtains p nh' where "publish E (fst a) (snd a) nh = Some (int (length (frame (nat (fst a)) p)), nh')"
    "published E nh (frame (nat (fst a)) p) nh'" "nh_ok E nh'" "decodes K p (fst (snd a)) (snd (snd a))"
  using publish_total_frame [OF assms(1,2), of K "fst (snd a)" "snd (snd a)" "nat (fst a)"] assms(3)
  by (auto simp: announceable_def nat_less_iff)

lemma published_objects:
  "published E nh bs nh' \<Longrightarrow> nh_pub_obj nh' = nh_pub_obj nh \<and> nh_sub_obj nh' = nh_sub_obj nh \<and>
    nh_subscribers nh' = nh_subscribers nh \<and> nh_written nh' = nh_written nh @ bs"
  by (auto simp: published_def hw_write_def)

lemma negotiate_publishers_announces:
  assumes "env_ok E" "nh_ok E nh" "\<forall>a\<in>set (publisher_announcements E (nh_pub_obj nh) slots). announceable E K a"
  shows "\<exists>ps nh'. negotiate_publishers E slots nh = Some nh' \<and> nh_ok E nh' \<and>
    announces K (publisher_announcements E (nh_pub_obj nh) slots) ps \<and>
    published E nh (announcement_bytes (publisher_announcements E (nh_pub_obj nh) slots) ps) nh'"
  using assms(2,3)
proof (induction slots arbitrary: nh)
  case Nil
  then show ?case
    by (intro exI [of _ "[]"]) (simp add: publisher_announcements_def announces_def announcement_bytes_def List.map_filter_simps published_refl)
next
  case (Cons slot slots)
  show ?case
  proof (cases slot)
    case None
    then show ?thesis using Cons by (simp add: publisher_announcements_def List.map_filter_simps)
  next
    case (Some p)
    let ?a = "(pub_endpoint (nh_pub_obj nh p), publisher_info E (nh_pub_obj nh p))"
    have "announceable E K ?a" using Cons.prems Some by (simp add: publisher_announcements_def List.map_filter_simps)
    then obtain q nh1 where q: "publish E (fst ?a) (snd ?a) nh = Some (int (length (frame (nat (fst ?a)) q)), nh1)"
        "published E nh (frame (nat (fst ?a)) q) nh1" "nh_ok E nh1" "decodes K q (fst (snd ?a)) (snd (snd ?a))"
      by (rule publish_announcement [OF assms(1) Cons.prems(1)])
    have o: "nh_pub_obj nh1 = nh_pub_obj nh" using published_objects [OF q(2)] by simp
    obtain ps nh' where "negotiate_publishers E slots nh1 = Some nh'" "nh_ok E nh'"
        "announces K (publisher_announcements E (nh_pub_obj nh) slots) ps"
        "published E nh1 (announcement_bytes (publisher_announcements E (nh_pub_obj nh) slots) ps) nh'"
      using Cons.IH [OF q(3)] Cons.prems(2) Some
      unfolding o by (auto simp: publisher_announcements_def List.map_filter_simps)
    then show ?thesis
      using Some q published_trans [OF q(2)]
      by (intro exI [of _ "q # ps"] exI [of _ nh'])
        (simp add: publisher_announcements_def List.map_filter_simps announces_def announcement_bytes_def)
  qed
qed

lemma negotiate_subscribers_announces:
  assumes "env_ok E" "nh_ok E nh" "\<forall>a\<in>set (subscriber_announcements E (nh_sub_obj nh) slots). announceable E K a"
  shows "\<exists>ps nh'. negotiate_subscribers E slots nh = Some nh' \<and> nh_ok E nh' \<and>
    announces K (subscriber_announcements E (nh_sub_obj nh) slots) ps \<and>
    published E nh (announcement_bytes (subscriber_announcements E (nh_sub_obj nh) slots) ps) nh'"
  using assms(2,3)
proof (induction slots arbitrary: nh)
  case Nil
  then show ?case
    by (intro exI [of _ "[]"]) (simp add: subscriber_announcements_def announces_def announcement_bytes_def List.map_filter_simps published_refl)
next
  case (Cons slot slots)
  show ?case
  proof (cases slot)
    case None
    then show ?thesis using Cons by (simp add: subscriber_announcements_def List.map_filter_simps)
  next
    case (Some p)
    let ?a = "(sub_endpoint (nh_sub_obj nh p), subscriber_info E (nh_sub_obj nh p))"
    have "announceable E K ?a" using Cons.prems Some by (simp add: subscriber_announcements_def List.map_filter_simps)
    then obtain q nh1 where q: "publish E (fst ?a) (snd ?a) nh = Some (int (length (frame (nat (fst ?a)) q)), nh1)"
        "published E nh (frame (nat (fst ?a)) q) nh1" "nh_ok E nh1" "decodes K q (fst (snd ?a)) (snd (snd ?a))"
      by (rule publish_announcement [OF assms(1) Cons.prems(1)])
    have o: "nh_sub_obj nh1 = nh_sub_obj nh" using published_objects [OF q(2)] by simp
    obtain ps nh' where "negotiate_subscribers E slots nh1 = Some nh'" "nh_ok E nh'"
        "announces K (subscriber_announcements E (nh_sub_obj nh) slots) ps"
        "published E nh1 (announcement_bytes (subscriber_announcements E (nh_sub_obj nh) slots) ps) nh'"
      using Cons.IH [OF q(3)] Cons.prems(2) Some
      unfolding o by (auto simp: subscriber_announcements_def List.map_filter_simps)
    then show ?thesis
      using Some q published_trans [OF q(2)]
      by (intro exI [of _ "q # ps"] exI [of _ nh'])
        (simp add: subscriber_announcements_def List.map_filter_simps announces_def announcement_bytes_def)
  qed
qed


lemma announces_append:
  assumes "announces K as ps" "announces K bs qs"
  shows "announces K (as @ bs) (ps @ qs)" "announcement_bytes (as @ bs) (ps @ qs) = announcement_bytes as ps @ announcement_bytes bs qs"
  using assms list_all2_lengthD [of _ as ps]
  by (simp_all add: announces_def announcement_bytes_def list_all2_appendI zip_append)

lemma negotiateTopics_announces:
  fixes E :: "'a nh_env" and nh :: "'a node_handle"
  defines "as \<equiv> publisher_announcements E (nh_pub_obj nh) (nh_publishers nh) @
    subscriber_announcements E (nh_sub_obj nh) (nh_subscribers nh)"
  assumes "env_ok E" "nh_ok E nh" "\<forall>a\<in>set as. announceable E K a"
  shows "\<exists>ps nh'. negotiateTopics E nh = Some nh' \<and> nh_configured nh' \<and> announces K as ps \<and>
    nh_written nh' = nh_written nh @ announcement_bytes as ps"
proof -
  let ?A = "publisher_announcements E (nh_pub_obj nh) (nh_publishers nh)"
  let ?B = "subscriber_announcements E (nh_sub_obj nh) (nh_subscribers nh)"
  obtain ps nh1 where 1: "negotiate_publishers E (nh_publishers nh) nh = Some nh1" "nh_ok E nh1"
      "announces K ?A ps" "published E nh (announcement_bytes ?A ps) nh1"
    using negotiate_publishers_announces [OF assms(2,3), where slots = "nh_publishers nh" and K = K] assms(4) unfolding as_def by auto
  note o = published_objects [OF 1(4)]
  obtain qs nh2 where 2: "negotiate_subscribers E (nh_subscribers nh1) nh1 = Some nh2"
      "announces K ?B qs" "published E nh1 (announcement_bytes ?B qs) nh2"
    using negotiate_subscribers_announces [OF assms(2) 1(2), where slots = "nh_subscribers nh1" and K = K] assms(4) o unfolding as_def by auto
  have "nh_written nh2 = nh_written nh @ announcement_bytes as (ps @ qs)"
    using o published_objects [OF 2(3)] announces_append(2) [OF 1(3) 2(2)] by (simp add: as_def)
  moreover have "announces K as (ps @ qs)" unfolding as_def by (rule announces_append(1) [OF 1(3) 2(2)])
  ultimately show ?thesis
    using 1(1) 2(1) by (intro exI [of _ "ps @ qs"] exI [of _ "nh2\<lparr>nh_configured := True\<rparr>"]) (simp add: negotiateTopics_def)
qed

section \<open>Properties\<close>

text \<open>
  C14: Topic ids are unique. After any sequence of registrations on a new node in which no publisher and
  no subscriber object is registered twice, two registered publishers with the same id are the same
  object, and so are two subscribers; a publisher and a subscriber never share an id; and the id of a
  registered subscriber leads \<open>dispatch\<close> to its slot.
\<close>

theorem registered_topics_unique:
  fixes E :: "'a nh_env" and nh :: "'a node_handle"
  assumes "nh' = register_all E rs nh"
    and "nh_publishers nh = replicate (MAX_PUBLISHERS E) None" "nh_subscribers nh = replicate (MAX_SUBSCRIBERS E) None"
    and "distinct (concat (map (reg_pubs (\<lambda>s. sub_pub (nh_sub_obj nh s))) rs))" "distinct (concat (map reg_subs rs))"
  shows "(\<forall>p q. Some p \<in> set (nh_publishers nh') \<and> Some q \<in> set (nh_publishers nh') \<and>
      pub_id (nh_pub_obj nh' p) = pub_id (nh_pub_obj nh' q) \<longrightarrow> p = q) \<and>
    (\<forall>s t. Some s \<in> set (nh_subscribers nh') \<and> Some t \<in> set (nh_subscribers nh') \<and>
      sub_id (nh_sub_obj nh' s) = sub_id (nh_sub_obj nh' t) \<longrightarrow> s = t) \<and>
    (\<forall>p s. Some p \<in> set (nh_publishers nh') \<and> Some s \<in> set (nh_subscribers nh') \<longrightarrow>
      sub_id (nh_sub_obj nh' s) < pub_id (nh_pub_obj nh' p)) \<and>
    (\<forall>s. Some s \<in> set (nh_subscribers nh') \<longrightarrow>
      nh_subscribers nh' ! nat (sub_id (nh_sub_obj nh' s) - 100) = Some s)"
proof -
  have "topics_ok E nh" using assms(2,3) by (simp add: topics_ok_def pubs.ids_ok_def subs.ids_ok_def)
  then have ok: "topics_ok E nh'"
    unfolding assms(1) by (rule register_all_ok) (use assms in auto)
  then have ids: "pubs.ids_ok E nh'" "subs.ids_ok nh'" by (simp_all add: topics_ok_def)
  have "length (nh_subscribers nh') = MAX_SUBSCRIBERS E"
    unfolding assms(1) using assms(3) by (simp add: register_all_length)
  then have "sub_id (nh_sub_obj nh' s) < pub_id (nh_pub_obj nh' p)"
    if "Some p \<in> set (nh_publishers nh')" "Some s \<in> set (nh_subscribers nh')" for p s
    using pubs.ids_range [OF ids(1) that(1)] subs.ids_range [OF ids(2) that(2)] by linarith
  then show ?thesis
    using pubs.ids_distinct [OF ids(1)] subs.ids_distinct [OF ids(2)] subs.ids_lookup [OF ids(2)] by blast
qed


definition sample_registrations :: "registration list" where
  "sample_registrations = [Advertise 0, Subscribe 0, Advertise 1]"

theorem registered_topics_unique_witness:
  "sub_id (nh_sub_obj (register_all sample_env sample_registrations sample_node) 0) <
   pub_id (nh_pub_obj (register_all sample_env sample_registrations sample_node) 1)"
proof -
  have f: "first_free (replicate 25 None) = Some 0" "first_free (Some x # replicate 24 None) = Some 1" for x :: nat
    by (simp_all add: first_free_def upt_conv_Cons numeral_eq_Suc)
  have u: "(replicate 25 None)[0 := Some x] = Some x # replicate 24 None" for x :: nat by (simp add: numeral_eq_Suc)
  have "Some 1 \<in> set (nh_publishers (register_all sample_env sample_registrations sample_node))"
    "Some 0 \<in> set (nh_subscribers (register_all sample_env sample_registrations sample_node))"
    by (simp_all add: register_all_def sample_registrations_def advertise_def subscribe_def sample_node_def initNode_def
        new_NodeHandle_def sample_env_def f u set_update_memI)
  then show ?thesis
    using registered_topics_unique [of _ sample_env sample_registrations sample_node, OF refl]
    by (simp add: sample_registrations_def sample_node_def initNode_def new_NodeHandle_def)
qed

text \<open>
  C15: When the server asks for the topics, the node announces every registered publisher and then every
  registered subscriber, each once, in the order of the tables and under its endpoint kind, with a
  payload that decodes to its id, name, type and checksum; then it is connected.
\<close>

theorem node_announces_topics:
  assumes "env_ok E" "nh_ok E nh"
    and "as = publisher_announcements E (nh_pub_obj nh) (nh_publishers nh) @
      subscriber_announcements E (nh_sub_obj nh) (nh_subscribers nh)"
    and "\<forall>a\<in>set as. announceable E K a"
  shows "\<exists>ps nh'. negotiateTopics E nh = Some nh' \<and> nh_configured nh' \<and> announces K as ps \<and>
    nh_written nh' = nh_written nh @ announcement_bytes as ps"
  using negotiateTopics_announces [OF assms(1,2)] assms(3,4) by blast

definition sample_announcement :: announcement where
  "sample_announcement = (1, subscriber_info sample_env (sample_sub\<lparr>sub_id := 100\<rparr>))"

lemma sample_announceable: "announceable sample_env K sample_announcement"
proof -
  have "0 \<notin> set (c_str ''chatter'')" "0 \<notin> set (c_str ''std_msgs/UInt32'')" by (simp_all add: c_str_def)
  then show ?thesis
    by (simp add: announceable_def msg_valid_def sample_announcement_def subscriber_info_def sample_sub_def msg_TopicInfo_def basic_valid_def
        string_valid_def packet_size_def string_stop_def prim_stop_def pad_to_def c_str_def sample_sizes)
qed

theorem node_announces_topics_witness:
  "\<exists>ps nh'. negotiateTopics sample_env ready_node = Some nh' \<and> nh_configured nh' \<and>
    announces sample_memory [sample_announcement] ps \<and> nh_written nh' = announcement_bytes [sample_announcement] ps"
proof -
  have t: "nh_publishers ready_node = replicate 25 None" "nh_subscribers ready_node = Some 0 # replicate 24 None"
  proof -
    have "first_free (replicate 25 None) = Some 0" by (simp add: first_free_def upt_conv_Cons)
    then show "nh_publishers ready_node = replicate 25 None" "nh_subscribers ready_node = Some 0 # replicate 24 None"
      by (simp_all add: ready_node_def subscribe_def sample_node_def initNode_def new_NodeHandle_def sample_env_def numeral_eq_Suc)
  qed
  have "publisher_announcements sample_env (nh_pub_obj ready_node) (nh_publishers ready_node) @
      subscriber_announcements sample_env (nh_sub_obj ready_node) (nh_subscribers ready_node) = [sample_announcement]"
    by (simp add: t publisher_announcements_def subscriber_announcements_def List.map_filter_simps map_filter_def
        ready_node_sel sample_announcement_def) (simp add: sample_sub_def)
  then show ?thesis
    using node_announces_topics [OF sample_env_ok ready_node_ok(1), of "[sample_announcement]"] sample_announceable
    by (simp add: ready_node_sel)
qed

end
