(* ===== verification/Mbed_Serial.thy ===== *)
theory Mbed_Serial
  imports Ring_Buffers
begin

text \<open>
  The serial port of the mbed targets, \<open>BufferedSerial.cpp\<close> and \<open>MbedHardware.h\<close>: two \<open>Buffer\<close>s between
  the node and the peripheral's interrupts. How many characters the peripheral can take when an
  operation runs is the argument \<open>slots\<close>; what has been handed to the peripheral is \<open>bs_sent\<close>.
\<close>

record buffered_serial =
  bs_rxbuf :: "u8 buffer"
  bs_txbuf :: "u8 buffer"
  bs_tx_irq :: bool
  bs_sent :: "u8 list"

definition new_BufferedSerial :: "u8 list \<Rightarrow> u8 list \<Rightarrow> buffered_serial" where
  "new_BufferedSerial rx_junk tx_junk =
     \<lparr>bs_rxbuf = new_Buffer rx_junk, bs_txbuf = new_Buffer tx_junk, bs_tx_irq = False, bs_sent = []\<rparr>"

definition bs_readable :: "buffered_serial \<Rightarrow> bool" where
  "bs_readable s = bf_available (bs_rxbuf s)"

definition bs_getc :: "buffered_serial \<Rightarrow> u8 \<times> buffered_serial" where
  "bs_getc s = (case bf_get (bs_rxbuf s) of (c, b) \<Rightarrow> (c, s\<lparr>bs_rxbuf := b\<rparr>))"

fun bs_txIrq :: "nat \<Rightarrow> buffered_serial \<Rightarrow> buffered_serial" where
  "bs_txIrq 0 s = s"
| "bs_txIrq (Suc slots) s =
     (if bf_available (bs_txbuf s)
      then (case bf_get (bs_txbuf s) of
              (c, b) \<Rightarrow> bs_txIrq slots (s\<lparr>bs_txbuf := b, bs_sent := bs_sent s @ [c]\<rparr>))
      else s\<lparr>bs_tx_irq := False\<rparr>)"

definition bs_prime :: "nat \<Rightarrow> buffered_serial \<Rightarrow> buffered_serial" where
  "bs_prime slots s =
     (if slots > 0 then (bs_txIrq slots (s\<lparr>bs_tx_irq := False\<rparr>))\<lparr>bs_tx_irq := True\<rparr> else s)"

definition bs_putc :: "nat \<Rightarrow> u8 \<Rightarrow> buffered_serial \<Rightarrow> buffered_serial" where
  "bs_putc slots c s = bs_prime slots (s\<lparr>bs_txbuf := bf_put c (bs_txbuf s)\<rparr>)"

definition bs_puts :: "nat \<Rightarrow> u8 list \<Rightarrow> buffered_serial \<Rightarrow> int \<times> buffered_serial" where
  "bs_puts slots cs s =
     (let s1 = s\<lparr>bs_txbuf := fold bf_put cs (bs_txbuf s)\<rparr>;
          s2 = s1\<lparr>bs_txbuf := bf_put 10 (bs_txbuf s1)\<rparr>
      in (int (length cs) + 1, bs_prime slots s2))"

definition bs_write :: "nat \<Rightarrow> u8 list \<Rightarrow> buffered_serial \<Rightarrow> int \<times> buffered_serial" where
  "bs_write slots data s =
     (if length data > 0
      then (int (length data), bs_prime slots (s\<lparr>bs_txbuf := fold bf_put data (bs_txbuf s)\<rparr>))
      else (0, s))"

definition bs_rxIrq :: "u8 option \<Rightarrow> buffered_serial \<Rightarrow> buffered_serial" where
  "bs_rxIrq pending s = (case pending of None \<Rightarrow> s | Some c \<Rightarrow> s\<lparr>bs_rxbuf := bf_put c (bs_rxbuf s)\<rparr>)"

definition mbed_read :: "buffered_serial \<Rightarrow> int \<times> buffered_serial" where
  "mbed_read s =
     (if bs_readable s then (case bs_getc s of (c, s') \<Rightarrow> (uint c, s')) else (- 1, s))"

text \<open>\<open>MbedHardware::write\<close>, with the peripheral's free slots at each character.\<close>

fun mbed_write :: "(u8 \<times> nat) list \<Rightarrow> buffered_serial \<Rightarrow> buffered_serial" where
  "mbed_write [] s = s"
| "mbed_write ((c, slots) # cs) s = mbed_write cs (bs_putc slots c s)"

section \<open>Sending\<close>

text \<open>Everything handed over so far: what the peripheral got and what the ring still holds.\<close>

definition handed_over :: "buffered_serial \<Rightarrow> u8 list" where
  "handed_over s = bs_sent s @ bf_queue (bs_txbuf s)"

lemma txIrq_hands_over:
  assumes "bf_inv (bs_txbuf s)"
  shows "handed_over (bs_txIrq slots s) = handed_over s \<and> bf_inv (bs_txbuf (bs_txIrq slots s)) \<and>
    bf_size (bs_txbuf (bs_txIrq slots s)) = bf_size (bs_txbuf s) \<and>
    length (bf_queue (bs_txbuf (bs_txIrq slots s))) \<le> length (bf_queue (bs_txbuf s)) \<and>
    bs_rxbuf (bs_txIrq slots s) = bs_rxbuf s"
  using assms
proof (induction slots arbitrary: s)
  case (Suc slots)
  show ?case
  proof (cases "bf_available (bs_txbuf s)")
    case True
    then obtain x xs where q: "bf_queue (bs_txbuf s) = x # xs"
      using bf_queue_empty [OF Suc.prems] by (cases "bf_queue (bs_txbuf s)") auto
    obtain b where b: "bf_get (bs_txbuf s) = (x, b)" "bf_queue b = xs" "bf_inv b" "bf_size b = bf_size (bs_txbuf s)"
      using bf_read_queue [OF Suc.prems q] True by (auto simp: bf_read_def split: prod.splits)
    show ?thesis
      using Suc.IH [of "s\<lparr>bs_txbuf := b, bs_sent := bs_sent s @ [x]\<rparr>"] b q True by (auto simp: handed_over_def)
  next
    case False
    then show ?thesis using Suc.prems by (simp add: handed_over_def)
  qed
qed simp

lemma prime_hands_over:
  assumes "bf_inv (bs_txbuf s)"
  shows "handed_over (bs_prime slots s) = handed_over s" "bf_inv (bs_txbuf (bs_prime slots s))"
    "bf_size (bs_txbuf (bs_prime slots s)) = bf_size (bs_txbuf s)"
    "length (bf_queue (bs_txbuf (bs_prime slots s))) \<le> length (bf_queue (bs_txbuf s))"
  using txIrq_hands_over [of "s\<lparr>bs_tx_irq := False\<rparr>" slots] assms by (simp_all add: bs_prime_def handed_over_def)

lemma putc_hands_over:
  assumes "bf_inv (bs_txbuf s)" "length (bf_queue (bs_txbuf s)) < bf_size (bs_txbuf s) - 2"
  shows "handed_over (bs_putc slots c s) = handed_over s @ [c]" "bf_inv (bs_txbuf (bs_putc slots c s))"
    "bf_size (bs_txbuf (bs_putc slots c s)) = bf_size (bs_txbuf s)"
    "length (bf_queue (bs_txbuf (bs_putc slots c s))) \<le> length (bf_queue (bs_txbuf s)) + 1"
  using prime_hands_over [of "s\<lparr>bs_txbuf := bf_put c (bs_txbuf s)\<rparr>" slots] bf_put_queue [OF assms, of c]
  by (simp_all add: bs_putc_def handed_over_def)

lemma mbed_write_all:
  assumes "bf_inv (bs_txbuf s)" "length (bf_queue (bs_txbuf s)) + length cs \<le> bf_size (bs_txbuf s) - 2"
  shows "handed_over (mbed_write cs s) = handed_over s @ map fst cs \<and> bf_inv (bs_txbuf (mbed_write cs s))"
  using assms
proof (induction cs arbitrary: s)
  case (Cons a cs)
  obtain c slots where a: "a = (c, slots)" by (cases a)
  have "length (bf_queue (bs_txbuf s)) < bf_size (bs_txbuf s) - 2" using Cons.prems(2) by simp
  note p = putc_hands_over [OF Cons.prems(1) this, of slots c]
  show ?case using Cons.IH [OF p(2)] p Cons.prems(2) by (simp add: a)
qed simp

lemma new_Buffer_inv: "2 \<le> length junk \<Longrightarrow> bf_inv (new_Buffer junk)" "bf_size (new_Buffer junk) = length junk"
    "2 \<le> length junk \<Longrightarrow> bf_queue (new_Buffer junk) = []"
  by (simp_all add: new_Buffer_def bf_clear_def bf_inv_def bf_size_def bf_queue_def bf_count_def)

text \<open>
  \<open>MbedHardware::write\<close> loses nothing and reorders nothing: as long as the bytes waiting and the bytes
  written fit in the ring (its size less two), what the peripheral has been given followed by what
  waits is extended by exactly the written bytes, however fast the peripheral is.
\<close>

theorem mbed_write_in_order:
  assumes "bf_inv (bs_txbuf s)" "length (bf_queue (bs_txbuf s)) + length cs \<le> bf_size (bs_txbuf s) - 2"
  shows "bs_sent (mbed_write cs s) @ bf_queue (bs_txbuf (mbed_write cs s)) =
    bs_sent s @ bf_queue (bs_txbuf s) @ map fst cs"
  using mbed_write_all [OF assms] by (simp add: handed_over_def)

theorem mbed_write_in_order_witness:
  "bs_sent (mbed_write [(1, 0), (2, 1), (3, 0)] (new_BufferedSerial [0, 0] (replicate 5 0))) @
    bf_queue (bs_txbuf (mbed_write [(1, 0), (2, 1), (3, 0)] (new_BufferedSerial [0, 0] (replicate 5 0)))) = [1, 2, 3]"
  using mbed_write_in_order [of "new_BufferedSerial [0, 0] (replicate 5 0)" "[(1, 0), (2, 1), (3, 0)]"]
    new_Buffer_inv [of "replicate 5 0"]
  by (simp add: new_BufferedSerial_def)

text \<open>
  One byte more than fits empties the ring: a \<open>Buffer\<close> that holds as many elements as it can (its size
  less two) reports itself empty after the next \<open>put\<close>, so all of them are lost to the reader.
\<close>

theorem buffer_overflow_loses_all:
  assumes "bf_inv b" "length (bf_queue b) = bf_size b - 2"
  shows "bf_queue (bf_put x b) = [] \<and> \<not> bf_available (bf_put x b)"
proof -
  let ?m = "bf_size b - 1"
  have w: "bf_wloc b < ?m" "bf_rloc b < ?m" using assms(1) by (simp_all add: bf_inv_def)
  have "bf_count b = bf_size b - 2" "2 \<le> bf_size b" using assms by (simp_all add: bf_queue_def bf_inv_def)
  then have c: "bf_count b + 1 = ?m" by arith
  have e: "(bf_rloc b + bf_count b) mod ?m = bf_wloc b" using ring_distance(1) [OF w] by (simp add: bf_count_def)
  have "(bf_wloc b + 1) mod ?m = (bf_rloc b + (bf_count b + 1)) mod ?m"
    unfolding e [symmetric] by (simp add: mod_simps)
  also have "\<dots> = bf_rloc b mod ?m" unfolding c by (rule mod_add_self2)
  also have "\<dots> = bf_rloc b" using w by simp
  finally have r: "(bf_wloc b + 1) mod ?m = bf_rloc b" .
  have s: "bf_size (bf_put x b) = bf_size b" by (simp add: bf_put_def bf_size_def)
  have "bf_inv (bf_put x b)" "\<not> bf_available (bf_put x b)"
    using r assms(1) s w by (simp_all add: bf_inv_def bf_available_def) (simp_all add: bf_put_def)
  then show ?thesis using bf_queue_empty by blast
qed

theorem buffer_overflow_loses_all_witness:
  "bf_queue (bf_put 7 (bf_put 6 (bf_put 5 (new_Buffer [0, 0, 0, 0])))) = [] \<and>
   bf_queue (bf_put 6 (bf_put 5 (new_Buffer [0, 0, 0, 0]))) = [5, 6]"
proof -
  have q: "bf_queue (bf_put 6 (bf_put 5 (new_Buffer [0, 0, 0, 0]))) = [5, 6]"
      "bf_inv (bf_put 6 (bf_put 5 (new_Buffer [0, 0, 0, 0])))"
      "bf_size (bf_put 6 (bf_put 5 (new_Buffer [0, 0, 0, 0]))) = 4"
    by code_simp+
  then show ?thesis using buffer_overflow_loses_all [OF q(2), of 7] by simp
qed

end
