(* ===== verification/Stm32_Hardware.thy ===== *)
theory Stm32_Hardware
  imports Ring_Buffers
begin

text \<open>
  The UART of the STM32 targets, \<open>STM32Hardware.h\<close>: a receive ring filled by a circular DMA and a
  transmit ring emptied by one DMA transfer at a time. The vendor's HAL is not part of the
  repository: \<open>HAL_UART_Receive_DMA\<close> makes the DMA store each arriving byte and count \<open>CNDTR\<close> down from
  the buffer length, reloading it at zero (\<open>rx_dma_byte\<close>); \<open>HAL_UART_Transmit_DMA\<close> makes the UART busy
  until the DMA has read and sent every byte of the stretch (\<open>tx_dma_byte\<close>).
\<close>

definition rbuflen :: nat where "rbuflen = 128"
definition tbuflen :: nat where "tbuflen = 256"

record stm32_hardware =
  hw_rbuf :: "u8 list"
  hw_rind :: nat
  hw_cndtr :: nat
  hw_tbuf :: "u8 list"
  hw_twind :: nat
  hw_tfind :: nat
  hw_tx_dma :: "(nat \<times> nat) option"
  hw_mutex :: bool
  hw_line :: "u8 list"

definition new_STM32Hardware :: "u8 list \<Rightarrow> u8 list \<Rightarrow> stm32_hardware" where
  "new_STM32Hardware rjunk tjunk =
     \<lparr>hw_rbuf = rjunk, hw_rind = 0, hw_cndtr = rbuflen, hw_tbuf = tjunk, hw_twind = 0, hw_tfind = 0,
      hw_tx_dma = None, hw_mutex = False, hw_line = []\<rparr>"

definition hw_reset_rbuf :: "stm32_hardware \<Rightarrow> stm32_hardware" where
  "hw_reset_rbuf h = h\<lparr>hw_cndtr := rbuflen\<rparr>"

definition hw_init :: "stm32_hardware \<Rightarrow> stm32_hardware" where
  "hw_init h = hw_reset_rbuf h"

definition getRdmaInd :: "stm32_hardware \<Rightarrow> nat" where
  "getRdmaInd h = (rbuflen - hw_cndtr h) AND (rbuflen - 1)"

definition stm32_read :: "stm32_hardware \<Rightarrow> int \<times> stm32_hardware" where
  "stm32_read h =
     (if hw_rind h \<noteq> getRdmaInd h
      then (uint (hw_rbuf h ! hw_rind h), h\<lparr>hw_rind := (hw_rind h + 1) AND (rbuflen - 1)\<rparr>)
      else (- 1, h))"

definition HAL_UART_Transmit_DMA :: "nat \<Rightarrow> nat \<Rightarrow> stm32_hardware \<Rightarrow> stm32_hardware" where
  "HAL_UART_Transmit_DMA start len h = h\<lparr>hw_tx_dma := Some (start, len)\<rparr>"

definition stm32_flush :: "stm32_hardware \<Rightarrow> stm32_hardware" where
  "stm32_flush h =
     (if hw_tx_dma h = None \<and> \<not> hw_mutex h
      then (let h1 = h\<lparr>hw_mutex := True\<rparr>;
                h2 = (if hw_twind h1 \<noteq> hw_tfind h1
                      then (let len = (if hw_tfind h1 < hw_twind h1 then hw_twind h1 - hw_tfind h1
                                       else tbuflen - hw_tfind h1);
                                h3 = HAL_UART_Transmit_DMA (hw_tfind h1) len h1
                            in h3\<lparr>hw_tfind := (hw_tfind h3 + len) AND (tbuflen - 1)\<rparr>)
                      else h1)
            in h2\<lparr>hw_mutex := False\<rparr>)
      else h)"

definition memcpy_at :: "nat \<Rightarrow> u8 list \<Rightarrow> u8 list \<Rightarrow> u8 list" where
  "memcpy_at i data buf = take i buf @ data @ drop (i + length data) buf"

definition stm32_write :: "u8 list \<Rightarrow> stm32_hardware \<Rightarrow> stm32_hardware" where
  "stm32_write data h =
     (let n = (if length data \<le> tbuflen then length data else tbuflen);
          n_tail = (if n \<le> tbuflen - hw_twind h then n else tbuflen - hw_twind h);
          h1 = h\<lparr>hw_tbuf := memcpy_at (hw_twind h) (take n_tail data) (hw_tbuf h),
                 hw_twind := (hw_twind h + n) AND (tbuflen - 1)\<rparr>;
          h2 = (if n \<noteq> n_tail
                then h1\<lparr>hw_tbuf := memcpy_at 0 (take (n - n_tail) (drop n_tail data)) (hw_tbuf h1)\<rparr> else h1)
      in stm32_flush h2)"

section \<open>What the DMA does\<close>

definition rx_dma_byte :: "u8 \<Rightarrow> stm32_hardware \<Rightarrow> stm32_hardware" where
  "rx_dma_byte b h =
     h\<lparr>hw_rbuf := (hw_rbuf h)[rbuflen - hw_cndtr h := b],
       hw_cndtr := (if hw_cndtr h = 1 then rbuflen else hw_cndtr h - 1)\<rparr>"

text \<open>One byte leaves; after the last one the UART is ready and the completion callback flushes.\<close>

definition tx_dma_byte :: "stm32_hardware \<Rightarrow> stm32_hardware" where
  "tx_dma_byte h =
     (case hw_tx_dma h of
        None \<Rightarrow> h
      | Some (pos, len) \<Rightarrow>
          (if len = 0 then stm32_flush (h\<lparr>hw_tx_dma := None\<rparr>)
           else (let h1 = h\<lparr>hw_line := hw_line h @ [hw_tbuf h ! pos]\<rparr>
                 in if len = 1 then stm32_flush (h1\<lparr>hw_tx_dma := None\<rparr>)
                    else h1\<lparr>hw_tx_dma := Some (pos + 1, len - 1)\<rparr>)))"

section \<open>Masks\<close>

lemma and_127: "(n :: nat) AND (rbuflen - 1) = n mod 128"
  using take_bit_eq_mask [of 7 n] by (simp add: rbuflen_def take_bit_eq_mod mask_eq_exp_minus_1)

lemma and_255: "(n :: nat) AND (tbuflen - 1) = n mod 256"
  using take_bit_eq_mask [of 8 n] by (simp add: tbuflen_def take_bit_eq_mod mask_eq_exp_minus_1)

section \<open>Receiving\<close>

definition rx_inv :: "stm32_hardware \<Rightarrow> bool" where
  "rx_inv h \<longleftrightarrow> length (hw_rbuf h) = 128 \<and> hw_rind h < 128 \<and> 0 < hw_cndtr h \<and> hw_cndtr h \<le> 128"

definition rx_pos :: "stm32_hardware \<Rightarrow> nat" where
  "rx_pos h = (128 - hw_cndtr h) mod 128"

definition rx_count :: "stm32_hardware \<Rightarrow> nat" where
  "rx_count h = (rx_pos h + (128 - hw_rind h)) mod 128"

definition rx_queue :: "stm32_hardware \<Rightarrow> u8 list" where
  "rx_queue h = ring 128 (hw_rbuf h) (hw_rind h) (rx_count h)"

text \<open>A read as the node sees it, with -1 for no data.\<close>

definition rx_deq :: "stm32_hardware \<Rightarrow> u8 option \<times> stm32_hardware" where
  "rx_deq h = (case stm32_read h of (c, h') \<Rightarrow> (if c = - 1 then None else Some (word_of_int c), h'))"

lemma getRdmaInd_pos: "getRdmaInd h = rx_pos h"
  unfolding getRdmaInd_def and_127 by (simp add: rx_pos_def rbuflen_def)

lemma rx_dma_pos: "rx_inv h \<Longrightarrow> rx_pos (rx_dma_byte b h) = (rx_pos h + 1) mod 128"
  by (auto simp: rx_pos_def rx_dma_byte_def rx_inv_def rbuflen_def Suc_diff_le mod_Suc)

lemma rx_dma_queue:
  assumes inv: "rx_inv h" and n: "length (rx_queue h) < 127"
  shows "rx_queue (rx_dma_byte b h) = rx_queue h @ [b]" "rx_inv (rx_dma_byte b h)"
proof -
  have w: "rx_pos h < 128" "hw_rind h < 128" using inv by (simp_all add: rx_inv_def rx_pos_def)
  have lt: "rx_count h + 1 < 128" using n by (simp add: rx_queue_def)
  have r: "hw_rind (rx_dma_byte b h) = hw_rind h" by (simp add: rx_dma_byte_def)
  have p: "rbuflen - hw_cndtr h = rx_pos h" using inv by (simp add: rx_inv_def rx_pos_def rbuflen_def)
  have c: "rx_count (rx_dma_byte b h) = Suc (rx_count h)"
    using ring_distance(3) [OF w] lt unfolding rx_count_def rx_dma_pos [OF inv] r by simp
  have e: "(hw_rind h + rx_count h) mod 128 = rx_pos h" using ring_distance(1) [OF w] by (simp add: rx_count_def)
  have "rx_queue (rx_dma_byte b h) = ring 128 ((hw_rbuf h)[(hw_rind h + rx_count h) mod 128 := b]) (hw_rind h) (Suc (rx_count h))"
    unfolding rx_queue_def r c e by (simp add: rx_dma_byte_def p)
  also have "\<dots> = rx_queue h @ [b]"
    unfolding rx_queue_def using lt inv by (intro ring_put) (simp_all add: rx_inv_def)
  finally show "rx_queue (rx_dma_byte b h) = rx_queue h @ [b]" .
  show "rx_inv (rx_dma_byte b h)" using inv by (auto simp: rx_inv_def rx_dma_byte_def rbuflen_def)
qed

lemma rx_queue_empty: "rx_inv h \<Longrightarrow> rx_queue h = [] \<longleftrightarrow> hw_rind h = getRdmaInd h"
  using ring_distance(2) [of "rx_pos h" 128 "hw_rind h"]
  by (auto simp: rx_queue_def rx_inv_def rx_count_def getRdmaInd_pos ring_def rx_pos_def)

lemma rx_deq_queue:
  assumes inv: "rx_inv h" and q: "rx_queue h = x # xs"
  shows "\<exists>h'. rx_deq h = (Some x, h') \<and> rx_queue h' = xs \<and> rx_inv h'"
proof -
  let ?h = "h\<lparr>hw_rind := (hw_rind h + 1) mod 128\<rparr>"
  have w: "rx_pos h < 128" "hw_rind h < 128" using inv by (simp_all add: rx_inv_def rx_pos_def)
  have ne: "hw_rind h \<noteq> getRdmaInd h" using rx_queue_empty [OF inv] q by simp
  then have ne': "rx_pos h \<noteq> hw_rind h" by (simp add: getRdmaInd_pos)
  have c: "rx_count ?h = rx_count h - 1"
    using ring_distance(4) [OF w ne'] by (simp add: rx_count_def rx_pos_def)
  obtain n where n: "rx_count h = Suc n" using q by (cases "rx_count h") (simp_all add: rx_queue_def)
  have "x # xs = hw_rbuf h ! hw_rind h # ring 128 (hw_rbuf h) ((hw_rind h + 1) mod 128) n"
    using q ring_get [of 128 "hw_rbuf h" "hw_rind h" n] w by (simp add: rx_queue_def n)
  then have x: "x = hw_rbuf h ! hw_rind h" "rx_queue ?h = xs"
    unfolding rx_queue_def c n by simp_all
  have "stm32_read h = (uint x, ?h)" using ne unfolding stm32_read_def and_127 by (simp add: x(1))
  moreover have "uint x \<noteq> - 1" using uint_ge_0 [of x] by linarith
  ultimately have "rx_deq h = (Some x, ?h)" by (simp add: rx_deq_def)
  moreover have "rx_inv ?h" using inv by (simp add: rx_inv_def)
  ultimately show ?thesis using x(2) by blast
qed

interpretation rxq: bounded_queue rx_inv rx_queue "\<lambda>_. 127" rx_dma_byte rx_deq
proof (unfold_locales, goal_cases)
  case (1 r x)
  then show ?case using rx_dma_queue [of r x] by simp
next
  case (2 r)
  then show ?case using rx_queue_empty [of r] by (simp add: rx_deq_def stm32_read_def)
next
  case (3 r x xs)
  then show ?case using rx_deq_queue [of r x xs] by auto
qed

text \<open>
  C27: The receive ring delivers every byte the DMA stored, once and in order, for every interleaving of
  arriving bytes and reads in which the node is never more than 127 bytes behind.
\<close>

theorem stm32_receive_in_order:
  assumes "length rjunk = 128" "never_full 127 0 ops"
    and "run_queue rx_dma_byte rx_deq ops (hw_init (new_STM32Hardware rjunk tjunk)) = (out, h)"
  shows "out @ rx_queue h = puts ops"
proof -
  let ?h = "hw_init (new_STM32Hardware rjunk tjunk)"
  have "rx_inv ?h" "rx_queue ?h = []"
    using assms(1)
    by (simp_all add: hw_init_def hw_reset_rbuf_def new_STM32Hardware_def rx_inv_def rx_queue_def rx_count_def
        rx_pos_def rbuflen_def)
  then show ?thesis using rxq.run_queue_fifo [of ?h ops out h] assms(2,3) by simp
qed

theorem stm32_receive_in_order_witness:
  "\<exists>out h. run_queue rx_dma_byte rx_deq [Put 1, Put 2, Get] (hw_init (new_STM32Hardware (replicate 128 0) [])) = (out, h) \<and>
     out @ rx_queue h = [1, 2]"
proof -
  obtain out h where r: "run_queue rx_dma_byte rx_deq [Put 1, Put 2, Get] (hw_init (new_STM32Hardware (replicate 128 0) [])) = (out, h)"
    by fastforce
  show ?thesis using stm32_receive_in_order [OF _ _ r] r by (intro exI conjI) auto
qed

section \<open>Transmitting\<close>

primrec ring_write :: "nat \<Rightarrow> nat \<Rightarrow> 'a list \<Rightarrow> 'a list \<Rightarrow> 'a list" where
  "ring_write m pos [] buf = buf"
| "ring_write m pos (x # xs) buf = ring_write m (Suc pos) xs (buf[pos mod m := x])"

lemma length_ring_write [simp]: "length (ring_write m pos xs buf) = length buf"
  by (induction xs arbitrary: pos buf) simp_all

lemma ring_write_append: "ring_write m pos (xs @ ys) buf = ring_write m (pos + length xs) ys (ring_write m pos xs buf)"
  by (induction xs arbitrary: pos buf) simp_all

lemma ring_write_mod: "ring_write m (pos mod m) xs buf = ring_write m pos xs buf"
proof (induction xs arbitrary: pos buf)
  case (Cons x xs)
  have "ring_write m (Suc (pos mod m)) xs b = ring_write m (Suc pos) xs b" for b
    using Cons.IH [of "Suc (pos mod m)" b] Cons.IH [of "Suc pos" b] by (simp add: mod_Suc_eq)
  then show ?case by simp
qed simp

lemma ring_after_write:
  "n + length xs \<le> m \<Longrightarrow> m \<le> length buf \<Longrightarrow>
   ring m (ring_write m (start + n) xs buf) start (n + length xs) = ring m buf start n @ xs"
proof (induction xs arbitrary: n buf)
  case (Cons x xs)
  have "ring m (ring_write m (start + n) (x # xs) buf) start (n + length (x # xs)) =
      ring m (ring_write m (start + Suc n) xs (buf[(start + n) mod m := x])) start (Suc n + length xs)" by simp
  also have "\<dots> = ring m (buf[(start + n) mod m := x]) start (Suc n) @ xs"
    using Cons.prems by (intro Cons.IH) simp_all
  also have "\<dots> = ring m buf start n @ x # xs" using ring_put [of n m buf start x] Cons.prems by simp
  finally show ?case .
qed simp

lemma memcpy_ring_write:
  "i + length xs \<le> m \<Longrightarrow> m \<le> length buf \<Longrightarrow> memcpy_at i xs buf = ring_write m i xs buf"
proof (induction xs arbitrary: i buf)
  case (Cons x xs)
  have "ring_write m i (x # xs) buf = memcpy_at (Suc i) xs (buf[i := x])"
    using Cons.IH [of "Suc i" "buf[i := x]"] Cons.prems by simp
  also have "\<dots> = memcpy_at i (x # xs) buf"
    using Cons.prems by (simp add: memcpy_at_def take_Suc_conv_app_nth take_update_swap upd_conv_take_nth_drop add.commute)
  finally show ?case ..
qed (simp add: memcpy_at_def)

definition tx_count :: "stm32_hardware \<Rightarrow> nat" where
  "tx_count h = (hw_twind h + (256 - hw_tfind h)) mod 256"

definition tx_flight :: "stm32_hardware \<Rightarrow> nat" where
  "tx_flight h = (case hw_tx_dma h of None \<Rightarrow> 0 | Some (pos, len) \<Rightarrow> len)"

definition tx_start :: "stm32_hardware \<Rightarrow> nat" where
  "tx_start h = (case hw_tx_dma h of None \<Rightarrow> hw_tfind h | Some (pos, len) \<Rightarrow> pos)"

definition tx_queue :: "stm32_hardware \<Rightarrow> u8 list" where
  "tx_queue h = ring 256 (hw_tbuf h) (tx_start h) (tx_flight h + tx_count h)"

definition tx_inv :: "stm32_hardware \<Rightarrow> bool" where
  "tx_inv h \<longleftrightarrow>
     length (hw_tbuf h) = 256 \<and> hw_twind h < 256 \<and> hw_tfind h < 256 \<and> \<not> hw_mutex h \<and>
     tx_flight h + tx_count h < 256 \<and>
     (case hw_tx_dma h of
        None \<Rightarrow> True
      | Some (pos, len) \<Rightarrow> 0 < len \<and> pos + len \<le> 256 \<and> (pos + len) mod 256 = hw_tfind h)"

text \<open>The UART idles only when there is nothing to send.\<close>

definition tx_working :: "stm32_hardware \<Rightarrow> bool" where
  "tx_working h \<longleftrightarrow> (hw_tx_dma h = None \<longrightarrow> tx_count h = 0)"

lemma tx_end:
  assumes "tx_inv h"
  shows "(tx_start h + (tx_flight h + tx_count h)) mod 256 = hw_twind h"
proof -
  have w: "hw_twind h < 256" "hw_tfind h < 256" using assms by (simp_all add: tx_inv_def)
  have f: "(tx_start h + tx_flight h) mod 256 = hw_tfind h"
    using assms by (auto simp: tx_inv_def tx_start_def tx_flight_def split: option.splits prod.splits)
  have "(tx_start h + (tx_flight h + tx_count h)) mod 256 = (hw_tfind h + tx_count h) mod 256"
    using mod_add_left_eq [of "tx_start h + tx_flight h" 256 "tx_count h"] by (simp add: f add.assoc)
  then show ?thesis using ring_distance(1) [OF w] by (simp add: tx_count_def)
qed

lemma flush_queue:
  assumes inv: "tx_inv h"
  shows "tx_queue (stm32_flush h) = tx_queue h" "tx_inv (stm32_flush h)" "tx_working (stm32_flush h)"
    "hw_line (stm32_flush h) = hw_line h"
proof -
  have w: "hw_twind h < 256" "hw_tfind h < 256" "\<not> hw_mutex h" using inv by (simp_all add: tx_inv_def)
  have "tx_queue (stm32_flush h) = tx_queue h \<and> tx_inv (stm32_flush h) \<and> tx_working (stm32_flush h) \<and>
      hw_line (stm32_flush h) = hw_line h"
  proof (cases "hw_tx_dma h = None \<and> hw_twind h \<noteq> hw_tfind h")
    case True
    define len where "len = (if hw_tfind h < hw_twind h then hw_twind h - hw_tfind h else tbuflen - hw_tfind h)"
    let ?h = "h\<lparr>hw_tx_dma := Some (hw_tfind h, len), hw_tfind := (hw_tfind h + len) mod 256\<rparr>"
    have fl: "stm32_flush h = ?h"
      using True w unfolding stm32_flush_def and_255 Let_def
      by (simp add: HAL_UART_Transmit_DMA_def len_def)
    have c: "tx_count h = (if hw_tfind h < hw_twind h then hw_twind h - hw_tfind h else hw_twind h + (256 - hw_tfind h))"
      using w True ring_distance(2) [OF w(1,2)] by (auto simp: tx_count_def mod_if)
    have l: "0 < len" "hw_tfind h + len \<le> 256" "len \<le> tx_count h"
      using w True unfolding c len_def by (auto simp: tbuflen_def)
    have c': "tx_count ?h = tx_count h - len"
      using w True unfolding c by (auto simp: tx_count_def len_def tbuflen_def)
    have "tx_queue ?h = tx_queue h"
      using True l c' by (simp add: tx_queue_def tx_start_def tx_flight_def)
    moreover have "tx_inv ?h"
      using inv True l c' by (simp add: tx_inv_def tx_flight_def)
    ultimately show ?thesis by (simp add: fl tx_working_def)
  next
    case False
    have "stm32_flush h = h" using False w by (cases h) (auto simp: stm32_flush_def Let_def)
    moreover have "hw_tx_dma h = None \<Longrightarrow> tx_count h = 0" using False w by (auto simp: tx_count_def)
    ultimately show ?thesis using inv by (simp add: tx_working_def)
  qed
  then show "tx_queue (stm32_flush h) = tx_queue h" "tx_inv (stm32_flush h)" "tx_working (stm32_flush h)"
    "hw_line (stm32_flush h) = hw_line h" by simp_all
qed

text \<open>The two copies of \<open>write\<close> store the data round the ring.\<close>

lemma write_copies:
  assumes "length (hw_tbuf h) = 256" "hw_twind h < 256" "length data \<le> 256"
  shows "stm32_write data h =
    stm32_flush (h\<lparr>hw_tbuf := ring_write 256 (hw_twind h) data (hw_tbuf h), hw_twind := (hw_twind h + length data) mod 256\<rparr>)"
proof -
  let ?w = "hw_twind h" and ?b = "hw_tbuf h" and ?k = "256 - hw_twind h"
  show ?thesis
  proof (cases "length data \<le> ?k")
    case True
    then have "memcpy_at ?w data ?b = ring_write 256 ?w data ?b" using assms by (intro memcpy_ring_write) simp_all
    then show ?thesis using True assms unfolding stm32_write_def and_255 Let_def by (simp add: tbuflen_def)
  next
    case False
    have a: "memcpy_at ?w (take ?k data) ?b = ring_write 256 ?w (take ?k data) ?b"
      using assms False by (intro memcpy_ring_write) simp_all
    have b: "memcpy_at 0 (drop ?k data) (ring_write 256 ?w (take ?k data) ?b) =
        ring_write 256 0 (drop ?k data) (ring_write 256 ?w (take ?k data) ?b)"
      using assms by (intro memcpy_ring_write) simp_all
    have e: "?w + length (take ?k data) = 256" using False assms by simp
    have "ring_write 256 ?w (take ?k data @ drop ?k data) ?b =
        ring_write 256 256 (drop ?k data) (ring_write 256 ?w (take ?k data) ?b)"
      unfolding ring_write_append e ..
    then have "ring_write 256 ?w data ?b = ring_write 256 0 (drop ?k data) (ring_write 256 ?w (take ?k data) ?b)"
      using ring_write_mod [of 256 256 "drop ?k data"] by simp
    then show ?thesis using False assms unfolding stm32_write_def and_255 Let_def by (simp add: tbuflen_def a b) (cases h; simp)
  qed
qed

lemma write_queue:
  assumes inv: "tx_inv h" and fit: "length (tx_queue h) + length data < 256"
  shows "tx_queue (stm32_write data h) = tx_queue h @ data" "tx_inv (stm32_write data h)"
    "tx_working (stm32_write data h)" "hw_line (stm32_write data h) = hw_line h"
proof -
  let ?n = "tx_flight h + tx_count h" and ?s = "tx_start h" and ?l = "length data"
  let ?h = "h\<lparr>hw_tbuf := ring_write 256 (hw_twind h) data (hw_tbuf h), hw_twind := (hw_twind h + ?l) mod 256\<rparr>"
  have w: "hw_twind h < 256" "hw_tfind h < 256" "length (hw_tbuf h) = 256" using inv by (simp_all add: tx_inv_def)
  have n: "?n + ?l < 256" using fit by (simp add: tx_queue_def)
  have wr: "stm32_write data h = stm32_flush ?h" using w n by (intro write_copies) simp_all
  have sel: "tx_flight ?h = tx_flight h" "tx_start ?h = ?s" by (simp_all add: tx_flight_def tx_start_def split: option.split)
  have c: "tx_count ?h = tx_count h + ?l"
  proof -
    have "tx_count ?h = (hw_twind h + (256 - hw_tfind h) + ?l) mod 256"
      using mod_add_left_eq [of "hw_twind h + ?l" 256 "256 - hw_tfind h"] by (simp add: tx_count_def ac_simps)
    also have "\<dots> = (tx_count h + ?l) mod 256" unfolding tx_count_def by (simp add: mod_add_left_eq)
    finally show ?thesis using n by simp
  qed
  have e: "ring_write 256 (hw_twind h) data (hw_tbuf h) = ring_write 256 (?s + ?n) data (hw_tbuf h)"
    using ring_write_mod [of 256 "?s + ?n"] tx_end [OF inv] by simp
  have q: "tx_queue ?h = tx_queue h @ data"
    using ring_after_write [of ?n data 256 "hw_tbuf h" ?s] n w(3)
    unfolding tx_queue_def sel c by (simp add: e add.assoc)
  have i: "tx_inv ?h" using inv n by (simp add: tx_inv_def sel c) (auto split: option.splits prod.splits)
  show "tx_queue (stm32_write data h) = tx_queue h @ data" "tx_inv (stm32_write data h)"
    "tx_working (stm32_write data h)" "hw_line (stm32_write data h) = hw_line h"
    using flush_queue [OF i] q by (simp_all add: wr)
qed

lemma dma_queue:
  assumes inv: "tx_inv h" and work: "tx_working h"
  shows "hw_line (tx_dma_byte h) @ tx_queue (tx_dma_byte h) = hw_line h @ tx_queue h" "tx_inv (tx_dma_byte h)"
    "tx_working (tx_dma_byte h)" "length (tx_queue (tx_dma_byte h)) = length (tx_queue h) - 1"
proof -
  have "hw_line (tx_dma_byte h) @ tx_queue (tx_dma_byte h) = hw_line h @ tx_queue h \<and> tx_inv (tx_dma_byte h) \<and>
    tx_working (tx_dma_byte h) \<and> length (tx_queue (tx_dma_byte h)) = length (tx_queue h) - 1"
  proof (cases "hw_tx_dma h")
    case None
    then show ?thesis using inv work by (simp add: tx_dma_byte_def tx_working_def tx_queue_def tx_flight_def)
  next
    case (Some d)
    obtain pos len where d: "d = (pos, Suc len)" "pos < 256" "pos + Suc len \<le> 256"
      using inv Some by (cases d; cases "snd d") (auto simp: tx_inv_def)
    let ?l = "hw_line h @ [hw_tbuf h ! pos]"
    have q: "tx_queue h = hw_tbuf h ! pos # ring 256 (hw_tbuf h) (pos + 1) (len + tx_count h)"
      using ring_get [of 256 "hw_tbuf h" pos "len + tx_count h"] d(2) ring_start_mod [of 256 "hw_tbuf h" "pos + 1"]
      by (simp add: tx_queue_def tx_start_def tx_flight_def Some d)
    have e: "(pos + Suc len) mod 256 = hw_tfind h" using inv Some d by (simp add: tx_inv_def)
    show ?thesis
    proof (cases len)
      case 0
      let ?h = "h\<lparr>hw_line := ?l, hw_tx_dma := None\<rparr>"
      have i: "tx_inv ?h" using inv Some d by (simp add: tx_inv_def tx_flight_def tx_count_def)
      have "tx_queue ?h = ring 256 (hw_tbuf h) (pos + 1) (tx_count h)"
        using e ring_start_mod [of 256 "hw_tbuf h" "pos + 1"] 0
        by (simp add: tx_queue_def tx_start_def tx_flight_def tx_count_def)
      moreover have "tx_dma_byte h = stm32_flush ?h" by (simp add: tx_dma_byte_def Some d 0)
      ultimately show ?thesis using flush_queue [OF i] q 0 by simp
    next
      case (Suc k)
      let ?h = "h\<lparr>hw_line := ?l, hw_tx_dma := Some (pos + 1, len)\<rparr>"
      have "tx_dma_byte h = ?h" by (simp add: tx_dma_byte_def Some d Suc)
      moreover have "tx_inv ?h" using inv Some d Suc e by (simp add: tx_inv_def tx_flight_def tx_count_def)
      moreover have "tx_queue ?h = ring 256 (hw_tbuf h) (pos + 1) (len + tx_count h)"
        by (simp add: tx_queue_def tx_start_def tx_flight_def tx_count_def)
      ultimately show ?thesis using q by (simp add: tx_working_def)
    qed
  qed
  then show "hw_line (tx_dma_byte h) @ tx_queue (tx_dma_byte h) = hw_line h @ tx_queue h" "tx_inv (tx_dma_byte h)"
    "tx_working (tx_dma_byte h)" "length (tx_queue (tx_dma_byte h)) = length (tx_queue h) - 1" by simp_all
qed

datatype tx_op = Write "u8 list" | Dma

fun run_tx :: "tx_op list \<Rightarrow> stm32_hardware \<Rightarrow> stm32_hardware" where
  "run_tx [] h = h"
| "run_tx (Write data # ops) h = run_tx ops (stm32_write data h)"
| "run_tx (Dma # ops) h = run_tx ops (tx_dma_byte h)"

fun written :: "tx_op list \<Rightarrow> u8 list" where
  "written [] = []"
| "written (Write data # ops) = data @ written ops"
| "written (Dma # ops) = written ops"

text \<open>No write ever takes the number of unsent bytes to 256.\<close>

fun tx_fits :: "nat \<Rightarrow> tx_op list \<Rightarrow> bool" where
  "tx_fits n [] = True"
| "tx_fits n (Write data # ops) = (n + length data < 256 \<and> tx_fits (n + length data) ops)"
| "tx_fits n (Dma # ops) = tx_fits (n - 1) ops"

lemma run_tx_queue:
  "tx_inv h \<Longrightarrow> tx_working h \<Longrightarrow> tx_fits (length (tx_queue h)) ops \<Longrightarrow>
   hw_line (run_tx ops h) @ tx_queue (run_tx ops h) = hw_line h @ tx_queue h @ written ops \<and>
   tx_inv (run_tx ops h) \<and> tx_working (run_tx ops h)"
proof (induction ops arbitrary: h)
  case (Cons op ops)
  show ?case
  proof (cases op)
    case (Write data)
    have "length (tx_queue h) + length data < 256" using Cons.prems(3) Write by simp
    note w = write_queue [OF Cons.prems(1) this]
    show ?thesis using Cons.IH [OF w(2,3)] Cons.prems(3) Write by (simp add: w)
  next
    case Dma
    note d = dma_queue [OF Cons.prems(1,2)]
    show ?thesis using Cons.IH [OF d(2,3)] Cons.prems(3) Dma d(1) by (simp add: d(4))
  qed
qed simp

lemma run_tx_drain:
  "tx_inv h \<Longrightarrow> tx_working h \<Longrightarrow> tx_queue (run_tx (replicate (length (tx_queue h)) Dma) h) = []"
proof (induction "length (tx_queue h)" arbitrary: h)
  case 0
  then show ?case by simp
next
  case (Suc n)
  note d = dma_queue [OF Suc.prems]
  have n: "n = length (tx_queue (tx_dma_byte h))" using Suc.hyps(2) d(4) by simp
  show ?case using Suc.hyps(1) [OF n d(2,3)] n by (simp add: Suc.hyps(2) [symmetric])
qed

lemma new_tx:
  "length tjunk = 256 \<Longrightarrow> tx_inv (new_STM32Hardware rjunk tjunk)" "tx_working (new_STM32Hardware rjunk tjunk)"
  "tx_queue (new_STM32Hardware rjunk tjunk) = []" "hw_line (new_STM32Hardware rjunk tjunk) = []"
  by (simp_all add: new_STM32Hardware_def tx_inv_def tx_working_def tx_queue_def tx_flight_def tx_count_def)

lemma tx_fits_dma: "tx_fits n (replicate k Dma)"
  by (induction k arbitrary: n) simp_all

lemma written_dma: "written (replicate k Dma) = []"
  by (induction k) simp_all



text \<open>
  A write of 256 bytes or more on an idle port is lost: \<open>write\<close> cuts it to 256 bytes, the write index
  comes round to the flush index, and \<open>flush\<close> takes the ring for empty. Nothing is sent and the port
  stays idle, although the node's output buffer of 512 bytes lets \<open>publish\<close> write such frames.
\<close>

theorem stm32_large_write_is_lost:
  assumes "tx_inv h" "hw_tx_dma h = None" "hw_twind h = hw_tfind h" "256 \<le> length data"
  shows "hw_tx_dma (stm32_write data h) = None \<and> hw_twind (stm32_write data h) = hw_tfind (stm32_write data h) \<and>
    hw_line (stm32_write data h) = hw_line h \<and> tx_queue (stm32_write data h) = []"
proof -
  have w: "hw_twind h < 256" "\<not> hw_mutex h" using assms(1) by (simp_all add: tx_inv_def)
  have n: "(if length data \<le> tbuflen then length data else tbuflen) = 256" using assms(4) by (auto simp: tbuflen_def)
  obtain buf where "stm32_write data h = stm32_flush (h\<lparr>hw_tbuf := buf, hw_twind := (hw_twind h + 256) mod 256\<rparr>)"
    unfolding stm32_write_def n and_255 Let_def
    by (cases "256 \<noteq> (if 256 \<le> tbuflen - hw_twind h then 256 else tbuflen - hw_twind h)") (cases h; simp)+
  moreover have "(hw_twind h + 256) mod 256 = hw_tfind h" using w assms(3) by simp
  ultimately have "stm32_write data h = h\<lparr>hw_tbuf := buf, hw_twind := hw_tfind h\<rparr>"
    using assms(2) w(2) by (cases h) (simp add: stm32_flush_def Let_def)
  then show ?thesis using assms(2) w by (simp add: tx_queue_def tx_flight_def tx_count_def assms(3) [symmetric])
qed

theorem stm32_large_write_is_lost_witness:
  "hw_tx_dma (stm32_write (replicate 300 7) (new_STM32Hardware [] (replicate 256 0))) = None \<and>
   hw_line (stm32_write (replicate 300 7) (new_STM32Hardware [] (replicate 256 0))) = []"
  using stm32_large_write_is_lost [OF new_tx(1) [of "replicate 256 0" "[]"], of "replicate 300 7"]
  by (simp add: new_tx) (simp add: new_STM32Hardware_def)

end
