(* ===== verification/Spec2Isabelle.thy ===== *)
theory Spec2Isabelle
  imports Message_Properties Tiva_Usb Network_Sessions Ros_Serializers Embedded_Linux Tiva_Hardware Windows_Socket V5_Hardware
    Node_Topics Cdr_Properties Serial_Session Mbed_Serial Stm32_Hardware
begin

text \<open>
  \<^bold>\<open>rosserial for ROS 2\<close>

  A microcontroller has no ROS of its own. It links a small client library
  (\<open>src/rosserial_stm32/ros_lib\<close>) and talks over a serial line to a server
  (\<open>src/rosserial_server\<close>) that publishes, subscribes and calls services in ROS on its behalf. Both ends
  exchange frames: two sync bytes, the payload size and its checksum, a topic id, the payload and a
  checksum over topic and payload. Topic ids below 100 belong to the protocol (registration, time,
  logging, parameters); each publisher and subscriber of the application has an id from 100 on. The payload is a
  message in the CDR serialisation of ROS 2. After a request of the server (topic 0) the device announces
  its publishers, subscribers and services; the server creates the endpoints in ROS and from then on
  copies payloads in both directions. The device asks for the time every few seconds, which also keeps
  the session alive.

  \<^bold>\<open>The device\<close>

  \<^item> \<open>Ucdr_Common\<close>, \<open>Ucdr_Basic\<close>, \<open>Ucdr_Array\<close>, \<open>Ucdr_Sequence\<close> model the serialisation library
  (\<open>ucdr/common.c\<close> and \<open>ucdr/types/*.c\<close>): a buffer record over a byte memory, and one function per routine or
  macro on a pair of memory and buffer. Raised error flags, lazy alignment, both byte orders, and the
  callback that may supply another buffer when the first one is full are as in the code.
  \<^item> \<open>Cdr_Msg\<close> models the encapsulation header (\<open>ros/cdr.h\<close>) and how generated code reads a value and a
  string.
  \<^item> \<open>Generated_Messages\<close> models the serialisers that \<open>make_libraries.py\<close> generates, driven by the list of
  a message's member types: values, strings, messages inside messages, arrays of a fixed and of a variable
  length, with the storage that the deserialiser reallocates and the object it reads into.
  \<^item> \<open>Cdr_Codec\<close> and \<open>Cdr_Layout\<close> state the contract of a serialiser as locales (\<open>cdr_codec\<close>, \<open>cdr_layout\<close>,
  and their closure under pairs and lists) and interpret them on every routine of the library; every
  generated message keeps both contracts. \<open>Cdr_Properties\<close> holds the consequences for the routines (round
  trips, capacity of sequences, sticky errors), \<open>Message_Properties\<close> those for messages: the standard layout
  as the specification, no write outside the buffer, the round trip into any object of the class, and which
  failures are reported.
  \<^item> \<open>Ros_Time\<close> models \<open>time.h\<close>, \<open>duration.h\<close>, \<open>time.cpp\<close>, \<open>duration.cpp\<close>, with 32-bit wrap-around.
  \<^item> \<open>Frame\<close> is the abstract frame that both ends are related to.
  \<^item> \<open>Node_Handle\<close> models \<open>ros/node_handle.h\<close>, \<open>publisher.h\<close>, \<open>subscriber.h\<close>, \<open>service_server.h\<close> and
  \<open>service_client.h\<close>: the members of the node are a record, every member function is a definition, and
  \<open>spinOnce\<close> is a step per received byte; messages are any that the generator supports. \<open>Node_Publish\<close> relates
  \<open>publish\<close> to \<open>Frame\<close>; \<open>Node_Spin\<close> shows what the state machine does with frames, with time messages, and with
  frames that are too long or address a topic that does not exist.
  \<^item> \<open>Node_Topics\<close> has the topic tables: the locale \<open>slot_table\<close> is interpreted on the publishers and
  subscribers of both nodes; topic ids are unique, and a node announces what was registered.
  \<^item> \<open>Avr_Float\<close> models the helpers of \<open>ros/msg.h\<close> for targets without doubles: widening is exact, narrowing
  undoes it and rounds to nearest.
  \<^item> \<open>Stm32_Hardware\<close> (\<open>STM32Hardware.h\<close>), \<open>Ring_Buffers\<close> (the VEX \<open>RingBufCPP\<close> and the mbed \<open>Buffer\<close>) and
  \<open>Mbed_Serial\<close> (\<open>BufferedSerial.cpp\<close>, \<open>MbedHardware.h\<close>) model the buffers between the node and the line. The
  locale \<open>bounded_queue\<close> is the contract of a bounded FIFO; it is interpreted on each of the rings. The DMA and
  the interrupts are events that may come at any point of an operation sequence.
  \<^item> \<open>Client_Node\<close> and \<open>Client_Spin\<close> model the ROS 1 client node under \<open>src/pending/rosserial_client\<close>, from
  which the device node was ported, with its parameter requests.
  \<^item> Under \<open>src/pending\<close> there are more links for that node. \<open>Embedded_Linux\<close> (\<open>embedded_linux_comms.c\<close>,
  \<open>embedded_linux_hardware.h\<close>) opens a serial port or a TCP connection and shows what its write loop puts on
  the line; \<open>Tiva_Hardware\<close> (\<open>tivac_hardware.h\<close>) keeps both streams in order under any interleaving of calls and
  interrupts, \<open>Tiva_Usb\<close> (\<open>tivac_hardware_usb.h\<close>, \<open>usb_serial_structs.c\<close>) from the last connection of the host on;
  \<open>V5_Hardware\<close> (\<open>V5Hardware.h\<close>) refines a pair of queues over \<open>RingBufCPP\<close>; \<open>Windows_Socket\<close> (\<open>WindowsSocket.cpp\<close>)
  connects to the first address that accepts and leaves no other handle open.

  \<^bold>\<open>The server\<close>

  \<^item> \<open>Server_Wire\<close> models \<open>simplecdr.h\<close> and the way \<open>session.h\<close> writes a frame; the checksum loop has a 16-bit
  counter and is a \<^theory_text>\<open>partial_function\<close>, so that not returning is a value.
  \<^item> \<open>Async_Read_Buffer\<close> models \<open>async_read_buffer.h\<close>: requests for a number of bytes are served from a buffer
  that asynchronous transfers fill. The locale \<open>byte_source\<close> is what a client may rely on; its
  interpretation shows that the buffer is a FIFO.
  \<^item> \<open>Msg_Lookup\<close> models \<open>msg_lookup.cpp\<close> and \<open>replace_colon\<close> of \<open>services.h\<close>: how the name of an interface is
  taken apart and its hash looked up in the files of its package.
  \<^item> \<open>Topic_Handlers\<close> models \<open>topic_handlers.h\<close>, which looks messages up. ROS itself (type support, serialised
  messages, service calls, clock, the index of packages and their files) is the record \<open>ros_env\<close>.
  \<^item> \<open>Session\<close> models \<open>session.h\<close>: the tables of the session, its handlers, the chain of reads, the sync
  watchdog, and writing. \<open>Session_Spec\<close> specifies a session as an automaton on the byte stream and proves
  that the session with its receive buffer refines it, however the bytes are cut into transfers.
  \<open>Session_Messages\<close> lifts this to whole messages and shows progress. \<open>Session_Events\<close> is the step relation of
  all events in any order, with the invariant of the tables. \<open>Serial_Session\<close> adds \<open>serial_session.h\<close>: opening
  the port and reconnecting. \<open>Network_Sessions\<close> adds \<open>udp_stream.h\<close>, \<open>udp_socket_session.h\<close> and \<open>tcp_server.h\<close>: reads
  over datagrams, the UDP session, and the accept loop with all its sessions. What reconnecting does to a
  session is shown once, in the locale \<open>reconnecting\<close>, and interpreted on the serial and the UDP session.
  \<^item> \<open>Ros_Serialization\<close> models \<open>serialization.h\<close>, the serialisers of ROS 1 messages: the template of a
  type is a record of its three functions, chosen by the traits of the element types as in the source.
  \<open>Ros_Serializers\<close> has a calculus of readers and writers and the locale \<open>serializer_laws\<close>, kept by every
  template, which gives round trip, exact length and safe reading for messages of every type.

  \<^bold>\<open>This theory\<close> composes both ends: a message published on the device arrives in ROS, a message of ROS
  arrives at the subscriber on the device, and a time request sets the clock of the device.

  \<^bold>\<open>Conventions\<close>. Words of the C types (\<open>u8\<close>, \<open>u16\<close>, \<open>u32\<close>) wrap round as in C; \<open>int\<close> counters that the code
  keeps small are integers. Code that runs through a pointer past its object, indexes outside an array or
  throws is a value of its own (\<open>Fault\<close>, \<open>None\<close> or an error constructor), never a default. A clock is a function
  of the number of calls made, or a value an event brings. \<open>Prelude\<close> has the byte memory and the object
  representation of integers.

  \<^bold>\<open>Bounds and fuel\<close>. \<open>publish\<close> reports a message that is too large by publishing a log message; two levels
  of this recursion are enough whenever the output buffer has 77 bytes (\<open>Node_Publish.publish_returns\<close>).
  A session that handles posted callbacks runs with one unit of fuel per byte of its buffer, since every
  callback that is served at once consumes a byte. A service call waits at most as long as its time-out,
  which is the measure of its loop. The loops of a service client and of a parameter request take a list of what
  the line delivers turn by turn; a list that ends before the loop does gives a value that means still
  waiting, and the theorems on them say when the loop returns.

  \<^bold>\<open>Environment\<close>. Parameters of the model are: the application's callbacks and the hardware clock on
  the device (\<open>nh_env\<close>, \<open>client_env\<close>), the full-buffer callback of the serialisation library, ROS (\<open>ros_env\<close>) with
  the hypothesis \<open>ros_env_ok\<close> that it is up, the transfers of boost asio, the UART of the mbed and STM32
  libraries, the ring buffers and USB buffers of the Tiva library (\<open>ringbuf_ok\<close>, \<open>usbbuf_ok\<close>), the allocator and
  the sizes of objects on the device (\<open>gen_env\<close>), the sockets of Linux and Windows, the traits of ROS 1 types
  (\<open>traits_laws\<close>), and the deserialisers of ROS 1 messages that the application's build generates.

  \<^bold>\<open>Not modelled\<close>. Conversions of times from and to \<open>double\<close> and the clock of embedded Linux, which is
  computed in floating point; variable-length arrays of objects that own storage themselves, which the
  generated code shares between the elements, and the text processing of the generator; the type support
  templates of \<open>services.h\<close>; the main functions of the server nodes, which read parameters and run the event
  loop; settings of terminals and peripherals; hardware layers that only forward calls to a platform
  library, vector tables and USB descriptors (data for the USB library); \<open>fastcdr.h\<close>, which nothing includes;
  the transform helpers, which are floating-point trigonometry; examples and tests.
\<close>

section \<open>From the device to ROS\<close>

lemma start_callbacks_at:
  "map_of (start_callbacks cbs) 0 = Some Setup_publisher" "map_of (start_callbacks cbs) 1 = Some Setup_subscriber"
  "map_of (start_callbacks cbs) 10 = Some Handle_time" "map_of (start_callbacks cbs) 7 = Some Handle_log"
  by (simp_all add: start_callbacks_def AList.update_conv' topic_ids)

lemma start_core_sel:
  assumes "ros_env_ok R"
  shows "sc_callbacks (start_core R c) = start_callbacks (sc_callbacks c)" "sc_ros (start_core R c) = sc_ros c"
    "sc_out (start_core R c) = sc_out c @ [frame 0 []]" "sc_active (start_core R c)"
    "sc_queries (start_core R c) = sc_queries c + 1"
  using assms by (simp_all add: start_core_def attempt_sync_ok)

text \<open>What a server that can create the publisher does with a registration followed by a message.\<close>

lemma register_and_publish:
  assumes "ros_env_ok R" "map_of (sc_callbacks c) 0 = Some Setup_publisher"
    and "deserialize_topic_info R info = Some ti" "create_generic_publisher R ti"
  shows "sc_ros (messages_effect R [(0, info), (ti_topic_id ti, payload)] c) =
    sc_ros c @ [Ros_publish (ti_topic_name ti) payload]"
  using assms
  by (simp add: messages_effect_def message_effect_def run_callback_def setup_publisher_def new_SimpleCdr_def
      new_Publisher_def set_sync_timeout_ok AList.update_conv' Publisher_handle_def Let_def)


definition sample_info :: msg where
  "sample_info = msg_TopicInfo 125 (c_str ''chatter'') (c_str ''m'') [] 512"

lemma sample_info_valid: "msg_valid sample_memory (fst sample_info) (snd sample_info)" "packet_size sample_info + 7 < 512"
  by (simp_all add: msg_valid_def sample_info_def msg_TopicInfo_def c_str_def basic_valid_def packet_size_def prim_stop_def
      string_stop_def pad_to_def string_valid_def)


section \<open>From ROS to the device\<close>



section \<open>Time synchronisation\<close>

text \<open>
  C3: Time synchronisation across the link. A time request makes the session answer with the ROS clock
  and push its watchdog forward, and a device that reads the answer has its clock set to the ROS time
  plus the delay it measured, exactly.
\<close>

theorem time_request_synchronises:
  assumes "ros_env_ok R" "map_of (sc_callbacks c) 10 = Some Handle_time"
    and "decodes K (clock_now R (sc_queries c)) (fst (msg_Time sec nanosec)) (snd (msg_Time sec nanosec))"
    and "uint nanosec < giga" "length (clock_now R (sc_queries c)) \<le> INPUT_SIZE E"
    and "nh_ok E nh" "nh_spin_timeout nh = 0" "nh_mode nh = MODE_FIRST_FF" "k = nh_clock nh"
  shows "\<exists>bytes nh'. sc_out (message_effect R 10 request c) = sc_out c @ [bytes] \<and>
    sc_sync_timer (message_effect R 10 request c) = Some timeout_interval \<and>
    (\<forall>rest. spin_loop E now_ms (map uint bytes @ rest) nh = spin_loop E now_ms rest nh') \<and>
    time_ns (fst (now E nh')) =
      (uint sec * giga + uint nanosec + clock_ns (hw_time E k - nh_rt_time nh) +
       (clock_ns (hw_time E (k + 3)) - clock_ns (hw_time E (k + 1)))) mod time_range"
proof -
  let ?p = "clock_now R (sc_queries c)"
  have l: "length ?p \<le> 65527" using assms(1) by (simp add: ros_env_ok_def)
  then have l': "length ?p < 65536" by simp
  have m: "sc_out (message_effect R 10 request c) = sc_out c @ [frame 10 ?p]"
      "sc_sync_timer (message_effect R 10 request c) = Some timeout_interval"
    using l assms(1,2)
    by (simp_all add: message_effect_def run_callback_def handle_time_def session_write_small set_sync_timeout_ok
        TopicInfo_ID_TIME_def Let_def)
  show ?thesis using time_frame_clock [OF assms(6-8) assms(3,4) l' assms(5,9), of now_ms] m by blast
qed

theorem time_request_synchronises_witness:
  "\<exists>R bytes nh'.
    sc_out (message_effect R 10 [] (start_core R (ses_core (new_Session 1 2000)))) = [frame 0 [], bytes] \<and>
    (\<forall>rest. spin_loop sample_env 5 (map uint bytes @ rest) ready_node = spin_loop sample_env 5 rest nh')"
proof -
  obtain payload where p: "length payload = 12" "decodes sample_memory payload (fst (msg_Time 7 9)) (snd (msg_Time 7 9))"
    using sample_time_payload by blast
  let ?R = "sample_ros\<lparr>clock_now := \<lambda>_. payload\<rparr>"
  let ?c = "start_core ?R (ses_core (new_Session 1 2000))"
  have R: "ros_env_ok ?R" using sample_ros_ok p(1) by (simp add: ros_env_ok_def)
  have c: "map_of (sc_callbacks ?c) 10 = Some Handle_time" "sc_out ?c = [frame 0 []]"
    using start_core_sel [OF R] start_callbacks_at by (simp_all add: new_Session_def)
  show ?thesis
    using time_request_synchronises [OF R c(1), of sample_memory 7 9 sample_env ready_node "nh_clock ready_node" "[]" 5] p c(2)
    by (auto simp: ready_node_ok ready_node_sel sample_sizes)
qed

end
